(* ===== verification/Prelude.thy ===== *)
theory Prelude
  imports Main "HOL-Library.Monad_Syntax" "HOL-Library.State_Monad" "HOL-Library.AList"
begin

text \<open>
  Shared ground of the development: the collections of facts that the component proofs
  rely on, the types that Go's maps, times and errors become, and the generic lemmas about
  association lists and about programs in the state monad.

  A Go map that the code iterates over is an association list with distinct keys
  (\<open>('k, 'v) gomap\<close>): \<open>map_of\<close> reads it, \<open>AList.update\<close> and \<open>AList.delete\<close> write it. Go
  leaves the iteration order open; a theorem about every association list is a theorem about
  every order. A map that is only read and written by key is a function \<open>'k \<rightharpoonup> 'v\<close>.
\<close>

named_theorems go_simps \<open>unfolding rules for the functions of the Go standard library\<close>
named_theorems run_simps \<open>equations that run a state-monad program\<close>
named_theorems preserve_rules \<open>introduction rules for state predicates kept by a program\<close>

type_synonym err = string
type_synonym ('k, 'v) gomap = "('k \<times> 'v) list"

text \<open>A read of a missing key gives the zero value of the element type.\<close>

definition lookup_or :: "'v \<Rightarrow> ('k \<rightharpoonup> 'v) \<Rightarrow> 'k \<Rightarrow> 'v" where
  "lookup_or z m k = (case m k of None \<Rightarrow> z | Some v \<Rightarrow> v)"

lemma lookup_or_None [simp]: "m k = None \<Longrightarrow> lookup_or z m k = z"
  and lookup_or_Some [simp]: "m k = Some v \<Longrightarrow> lookup_or z m k = v"
  by (simp_all add: lookup_or_def)

lemma lookup_or_upd: "lookup_or z (m(k \<mapsto> v)) k' = (if k' = k then v else lookup_or z m k')"
  by (simp add: lookup_or_def)

subsection \<open>Go maps as association lists\<close>

definition keys_of :: "('k, 'v) gomap \<Rightarrow> 'k list" where
  "keys_of m = List.map fst m"

definition wf_gomap :: "('k, 'v) gomap \<Rightarrow> bool" where
  "wf_gomap m \<longleftrightarrow> distinct (keys_of m)"

lemma wf_gomap_Nil [simp, intro]: "wf_gomap []"
  by (simp add: wf_gomap_def keys_of_def)

lemma wf_gomap_update [simp, intro]: "wf_gomap m \<Longrightarrow> wf_gomap (AList.update k v m)"
  by (simp add: wf_gomap_def keys_of_def distinct_update)

lemma wf_gomap_delete [simp, intro]: "wf_gomap m \<Longrightarrow> wf_gomap (AList.delete k m)"
  by (simp add: wf_gomap_def keys_of_def distinct_delete)

lemma wf_gomap_filter [simp, intro]: "wf_gomap m \<Longrightarrow> wf_gomap (filter P m)"
  by (simp add: wf_gomap_def keys_of_def distinct_map_filter)

lemma map_of_update [simp]:
  "map_of (AList.update k v m) k' = (if k' = k then Some v else map_of m k')"
  by (simp add: update_conv)

lemma map_of_delete [simp]:
  "map_of (AList.delete k m) k' = (if k' = k then None else map_of m k')"
  by (simp add: delete_conv)

lemma map_of_in_set: "wf_gomap m \<Longrightarrow> (k, v) \<in> set m \<longleftrightarrow> map_of m k = Some v"
  by (simp add: wf_gomap_def keys_of_def)

lemma map_of_filter_wf:
  assumes "wf_gomap m"
  shows "map_of (filter P m) k =
    (case map_of m k of None \<Rightarrow> None | Some v \<Rightarrow> if P (k, v) then Some v else None)"
  using assms
proof (induction m)
  case Nil
  then show ?case by simp
next
  case (Cons x m)
  obtain a b where x: "x = (a, b)" by force
  from Cons.prems x have wf: "wf_gomap m" and fresh: "a \<notin> fst ` set m"
    by (auto simp: wf_gomap_def keys_of_def)
  have "map_of (filter P m) a = None"
    using fresh by (auto simp: map_of_eq_None_iff)
  with Cons.IH [OF wf] x fresh show ?case
    by (auto simp: map_of_eq_None_iff split: option.splits)
qed

lemma in_keys_of: "k \<in> set (keys_of m) \<longleftrightarrow> map_of m k \<noteq> None"
  by (simp add: keys_of_def map_of_eq_None_iff)

subsection \<open>Programs in the state monad\<close>

abbreviation ret :: "'a \<Rightarrow> ('s, 'a) state" where
  "ret \<equiv> State_Monad.return"

definition gets :: "('s \<Rightarrow> 'a) \<Rightarrow> ('s, 'a) state" where
  "gets f = State (\<lambda>s. (f s, s))"

definition modify :: "('s \<Rightarrow> 's) \<Rightarrow> ('s, unit) state" where
  "modify f = State (\<lambda>s. ((), f s))"

definition when_do :: "bool \<Rightarrow> ('s, unit) state \<Rightarrow> ('s, unit) state" where
  "when_do b m = (if b then m else ret ())"

text \<open>\<open>for _, x := range xs { f(x) }\<close>\<close>

fun for_each :: "'a list \<Rightarrow> ('a \<Rightarrow> ('s, unit) state) \<Rightarrow> ('s, unit) state" where
  "for_each [] f = ret ()"
| "for_each (x # xs) f = do { f x; for_each xs f }"

definition exec :: "('s, 'a) state \<Rightarrow> 's \<Rightarrow> 's" where
  "exec m s = snd (run_state m s)"

definition result :: "('s, 'a) state \<Rightarrow> 's \<Rightarrow> 'a" where
  "result m s = fst (run_state m s)"

lemma run_state_pair: "run_state m s = (result m s, exec m s)"
  by (simp add: result_def exec_def)

lemma run_gets [simp, run_simps]: "run_state (gets f) s = (f s, s)"
  by (simp add: gets_def)

lemma run_modify [simp, run_simps]: "run_state (modify f) s = ((), f s)"
  by (simp add: modify_def)

lemma exec_ret [simp, run_simps]: "exec (ret x) s = s"
  and exec_gets [simp, run_simps]: "exec (gets f) s = s"
  and exec_modify [simp, run_simps]: "exec (modify g) s = g s"
  by (simp_all add: exec_def)

lemma result_ret [simp, run_simps]: "result (ret x) s = x"
  and result_gets [simp, run_simps]: "result (gets f) s = f s"
  by (simp_all add: result_def)

lemma exec_bind [simp, run_simps]: "exec (m \<bind> f) s = exec (f (result m s)) (exec m s)"
  by (simp add: exec_def result_def split: prod.splits)

lemma result_bind [simp, run_simps]:
  "result (m \<bind> f) s = result (f (result m s)) (exec m s)"
  by (simp add: exec_def result_def split: prod.splits)

lemma exec_when_do [simp, run_simps]: "exec (when_do b m) s = (if b then exec m s else s)"
  by (simp add: when_do_def)

lemma exec_if [run_simps]: "exec (if b then m else n) s = (if b then exec m s else exec n s)"
  and result_if [run_simps]: "result (if b then m else n) s = (if b then result m s else result n s)"
  by simp_all

lemma exec_for_each_Nil [simp]: "exec (for_each [] f) s = s"
  and exec_for_each_Cons [simp]: "exec (for_each (x # xs) f) s = exec (for_each xs f) (exec (f x) s)"
  by simp_all

lemma exec_for_each_append:
  "exec (for_each (xs @ ys) f) s = exec (for_each ys f) (exec (for_each xs f) s)"
  by (induction xs arbitrary: s) simp_all

text \<open>
  \<open>preserves P m\<close>: the program \<open>m\<close> ends in a state that satisfies \<open>P\<close> when it starts in one.
  The rules follow the syntax of the program, so an invariant proof is a proof about the
  operations at the leaves.
\<close>

definition preserves :: "('s \<Rightarrow> bool) \<Rightarrow> ('s, 'a) state \<Rightarrow> bool" where
  "preserves P m \<longleftrightarrow> (\<forall>s. P s \<longrightarrow> P (exec m s))"

lemma preservesI: "(\<And>s. P s \<Longrightarrow> P (exec m s)) \<Longrightarrow> preserves P m"
  by (simp add: preserves_def)

lemma preservesD: "preserves P m \<Longrightarrow> P s \<Longrightarrow> P (exec m s)"
  by (simp add: preserves_def)

lemma preserves_ret [simp, preserve_rules]: "preserves P (ret x)"
  by (simp add: preserves_def)

lemma preserves_gets [simp, preserve_rules]: "preserves P (gets f)"
  by (simp add: preserves_def)

lemma preserves_bind [preserve_rules]:
  "preserves P m \<Longrightarrow> (\<And>x. preserves P (f x)) \<Longrightarrow> preserves P (m \<bind> f)"
  by (simp add: preserves_def)

lemma preserves_when_do [preserve_rules]: "preserves P m \<Longrightarrow> preserves P (when_do b m)"
  by (simp add: preserves_def)

lemma preserves_if [preserve_rules]:
  "preserves P m \<Longrightarrow> preserves P n \<Longrightarrow> preserves P (if b then m else n)"
  by simp

lemma preserves_option [preserve_rules]:
  "preserves P m \<Longrightarrow> (\<And>x. preserves P (f x)) \<Longrightarrow>
    preserves P (case opt of None \<Rightarrow> m | Some x \<Rightarrow> f x)"
  by (cases opt) simp_all

lemma preserves_sum [preserve_rules]:
  "(\<And>x. preserves P (f x)) \<Longrightarrow> (\<And>x. preserves P (g x)) \<Longrightarrow>
    preserves P (case r of Inl x \<Rightarrow> f x | Inr x \<Rightarrow> g x)"
  by (cases r) simp_all

lemma preserves_prod [preserve_rules]:
  "(\<And>x y. preserves P (f x y)) \<Longrightarrow> preserves P (case p of (x, y) \<Rightarrow> f x y)"
  by (cases p) simp

lemma preserves_Let [preserve_rules]: "preserves P (f t) \<Longrightarrow> preserves P (Let t f)"
  by simp

lemma preserves_list [preserve_rules]:
  "preserves P m \<Longrightarrow> (\<And>x xs. preserves P (f x xs)) \<Longrightarrow>
    preserves P (case l of [] \<Rightarrow> m | x # xs \<Rightarrow> f x xs)"
  by (cases l) simp_all

lemma preserves_for_each [preserve_rules]:
  "(\<And>x. x \<in> set xs \<Longrightarrow> preserves P (f x)) \<Longrightarrow> preserves P (for_each xs f)"
  by (induction xs) (auto intro: preserve_rules)

lemma preserves_modify: "(\<And>s. P s \<Longrightarrow> P (f s)) \<Longrightarrow> preserves P (modify f)"
  by (simp add: preserves_def)

subsection \<open>Lists\<close>

text \<open>\<open>hist[len(hist)-n:]\<close> where the list is longer than \<open>n\<close>: the last \<open>n\<close> elements.\<close>

definition last_n :: "nat \<Rightarrow> 'a list \<Rightarrow> 'a list" where
  "last_n n xs = drop (length xs - n) xs"

lemma length_last_n [simp]: "length (last_n n xs) = min n (length xs)"
  by (simp add: last_n_def)

lemma last_n_all: "length xs \<le> n \<Longrightarrow> last_n n xs = xs"
  by (simp add: last_n_def)

lemma last_n_append_last_n: "last_n n (last_n n xs @ ys) = last_n n (xs @ ys)"
proof (cases "length xs \<le> n")
  case True
  then show ?thesis by (simp add: last_n_all)
next
  case False
  then show ?thesis by (simp add: last_n_def add.commute)
qed

lemma set_last_n: "set (last_n n xs) \<subseteq> set xs"
  by (simp add: last_n_def set_drop_subset)

end
