(* ===== verification/Go_Strings.thy ===== *)
theory Go_Strings
  imports Prelude "HOL-Library.Sublist" "HOL-Library.Char_ord" "HOL-Library.List_Lexorder"
begin

text \<open>
  Go strings and what the program uses of the package \<open>strings\<close>. A Go string is a sequence
  of bytes and so is a HOL \<open>string\<close>: \<open>length\<close> counts bytes, the order of \<open>List_Lexorder\<close> over
  \<open>Char_ord\<close> is Go's byte-wise comparison, and a rune outside ASCII is its UTF-8 bytes.
  \<open>strings.HasPrefix(s, p)\<close> is \<open>prefix p s\<close>, \<open>strings.HasSuffix(s, p)\<close> is \<open>suffix p s\<close> and
  \<open>strings.Contains(s, t)\<close> is \<open>sublist t s\<close>, all from the theory \<open>Sublist\<close>.
\<close>

subsection \<open>Prefixes and suffixes\<close>

definition strings_TrimPrefix :: "string \<Rightarrow> string \<Rightarrow> string" where
  "strings_TrimPrefix s p = (if prefix p s then drop (length p) s else s)"

definition strings_TrimSuffix :: "string \<Rightarrow> string \<Rightarrow> string" where
  "strings_TrimSuffix s p = (if suffix p s then take (length s - length p) s else s)"

lemma TrimPrefix_append [simp]: "strings_TrimPrefix (p @ s) p = s"
  by (simp add: strings_TrimPrefix_def)

lemma TrimPrefix_not: "\<not> prefix p s \<Longrightarrow> strings_TrimPrefix s p = s"
  by (simp add: strings_TrimPrefix_def)

lemma TrimSuffix_append [simp]: "strings_TrimSuffix (s @ p) p = s"
  by (simp add: strings_TrimSuffix_def suffix_def)

lemma TrimSuffix_not: "\<not> suffix p s \<Longrightarrow> strings_TrimSuffix s p = s"
  by (simp add: strings_TrimSuffix_def)

lemma prefix_single: "prefix [c] s \<longleftrightarrow> s \<noteq> [] \<and> hd s = c"
  by (cases s) auto

lemma suffix_single: "suffix [c] s \<longleftrightarrow> s \<noteq> [] \<and> last s = c"
  by (cases s rule: rev_cases) auto

subsection \<open>Split, Join and Cut at a one-byte separator\<close>

fun strings_Split :: "char \<Rightarrow> string \<Rightarrow> string list" where
  "strings_Split c [] = [[]]"
| "strings_Split c (x # xs) =
     (if x = c then [] # strings_Split c xs
      else case strings_Split c xs of [] \<Rightarrow> [[x]] | p # ps \<Rightarrow> (x # p) # ps)"

fun strings_Join :: "string list \<Rightarrow> string \<Rightarrow> string" where
  "strings_Join [] sep = []"
| "strings_Join [x] sep = x"
| "strings_Join (x # y # zs) sep = x @ sep @ strings_Join (y # zs) sep"

text \<open>\<open>strings.Cut\<close>: the text before and after the first separator, or \<open>None\<close>.\<close>

fun strings_Cut :: "char \<Rightarrow> string \<Rightarrow> (string \<times> string) option" where
  "strings_Cut c [] = None"
| "strings_Cut c (x # xs) =
     (if x = c then Some ([], xs)
      else map_option (\<lambda>(a, b). (x # a, b)) (strings_Cut c xs))"

lemma Split_not_Nil [simp]: "strings_Split c s \<noteq> []"
  by (induction s) (auto split: list.splits)

lemma Split_no_sep: "p \<in> set (strings_Split c s) \<Longrightarrow> c \<notin> set p"
proof (induction s arbitrary: p)
  case Nil
  then show ?case by simp
next
  case (Cons x s)
  then show ?case
    by (cases "strings_Split c s") (auto split: if_splits)
qed

lemma Split_absent [simp]: "c \<notin> set s \<Longrightarrow> strings_Split c s = [s]"
  by (induction s) auto

lemma Split_append_sep:
  "c \<notin> set x \<Longrightarrow> strings_Split c (x @ c # s) = x # strings_Split c s"
  by (induction x) auto

lemma hd_Split: "hd (strings_Split c s) = takeWhile (\<lambda>x. x \<noteq> c) s"
proof (induction s)
  case Nil
  then show ?case by simp
next
  case (Cons x s)
  then show ?case by (cases "strings_Split c s") auto
qed

lemma Split_Join:
  assumes "xs \<noteq> []" and "\<And>x. x \<in> set xs \<Longrightarrow> c \<notin> set x"
  shows "strings_Split c (strings_Join xs [c]) = xs"
  using assms
  by (induction xs "[c]" rule: strings_Join.induct) (auto simp: Split_append_sep)

lemma Join_Split [simp]: "strings_Join (strings_Split c s) [c] = s"
proof (induction s)
  case Nil
  then show ?case by simp
next
  case (Cons x s)
  obtain p ps where ps: "strings_Split c s = p # ps"
    by (cases "strings_Split c s") auto
  with Cons.IH show ?case by (cases ps) auto
qed

lemma Cut_absent: "c \<notin> set s \<Longrightarrow> strings_Cut c s = None"
  by (induction s) auto

lemma Cut_append: "c \<notin> set a \<Longrightarrow> strings_Cut c (a @ c # b) = Some (a, b)"
  by (induction a) auto

lemma Cut_Some: "strings_Cut c s = Some (a, b) \<Longrightarrow> s = a @ c # b \<and> c \<notin> set a"
  by (induction s arbitrary: a) (auto split: if_splits)

subsection \<open>Byte classes\<close>

definition byte :: "char \<Rightarrow> nat" where
  "byte c = of_char c"

definition chr :: "nat \<Rightarrow> char" where
  "chr n = char_of n"

lemma byte_chr [simp]: "n < 256 \<Longrightarrow> byte (chr n) = n"
  by (simp add: byte_def chr_def)

lemma chr_byte [simp]: "chr (byte c) = c"
  by (simp add: byte_def chr_def)

lemma byte_less [simp]: "byte c < 256"
  by (simp add: byte_def)

lemma byte_eq_iff: "byte c = byte d \<longleftrightarrow> c = d"
  by (simp add: byte_def)

definition is_digit :: "char \<Rightarrow> bool" where
  "is_digit c \<longleftrightarrow> 48 \<le> byte c \<and> byte c \<le> 57"

definition to_lower_byte :: "char \<Rightarrow> char" where
  "to_lower_byte c = (if 65 \<le> byte c \<and> byte c \<le> 90 then chr (byte c + 32) else c)"

text \<open>
  \<open>strings.ToLower\<close> on the ASCII letters. Bytes outside ASCII stay as they are: the program
  compares its results with ASCII words only, and no rune outside ASCII has a letter of
  those words as its lower case.
\<close>

definition strings_ToLower :: "string \<Rightarrow> string" where
  "strings_ToLower s = List.map to_lower_byte s"

text \<open>
  \<open>strings.EqualFold(s, t)\<close> for an ASCII \<open>t\<close>: besides the two cases of a letter, simple
  folding identifies U+017F (bytes C5 BF) with \<open>s\<close> and U+212A (bytes E2 84 AA) with \<open>k\<close>.
\<close>

fun fold_norm :: "string \<Rightarrow> string" where
  "fold_norm [] = []"
| "fold_norm (c # s) =
     (if byte c = 0xC5 \<and> s \<noteq> [] \<and> byte (hd s) = 0xBF then CHR ''s'' # fold_norm (tl s)
      else if byte c = 0xE2 \<and> 2 \<le> length s \<and> byte (s ! 0) = 0x84 \<and> byte (s ! 1) = 0xAA
           then CHR ''k'' # fold_norm (drop 2 s)
      else to_lower_byte c # fold_norm s)"

definition strings_EqualFold :: "string \<Rightarrow> string \<Rightarrow> bool" where
  "strings_EqualFold s t \<longleftrightarrow> fold_norm s = fold_norm t"

subsection \<open>TrimSpace\<close>

text \<open>
  The encodings of the runes for which \<open>unicode.IsSpace\<close> holds. \<open>TrimSpace\<close> removes them at
  both ends.
\<close>

definition space_runes :: "string list" where
  "space_runes =
     [[CHR 0x09], [CHR 0x0A], [CHR 0x0B], [CHR 0x0C], [CHR 0x0D], [CHR 0x20],
      [CHR 0xC2, CHR 0x85], [CHR 0xC2, CHR 0xA0], [CHR 0xE1, CHR 0x9A, CHR 0x80],
      [CHR 0xE2, CHR 0x80, CHR 0x80], [CHR 0xE2, CHR 0x80, CHR 0x81],
      [CHR 0xE2, CHR 0x80, CHR 0x82], [CHR 0xE2, CHR 0x80, CHR 0x83],
      [CHR 0xE2, CHR 0x80, CHR 0x84], [CHR 0xE2, CHR 0x80, CHR 0x85],
      [CHR 0xE2, CHR 0x80, CHR 0x86], [CHR 0xE2, CHR 0x80, CHR 0x87],
      [CHR 0xE2, CHR 0x80, CHR 0x88], [CHR 0xE2, CHR 0x80, CHR 0x89],
      [CHR 0xE2, CHR 0x80, CHR 0x8A], [CHR 0xE2, CHR 0x80, CHR 0xA8],
      [CHR 0xE2, CHR 0x80, CHR 0xA9], [CHR 0xE2, CHR 0x80, CHR 0xAF],
      [CHR 0xE2, CHR 0x81, CHR 0x9F], [CHR 0xE3, CHR 0x80, CHR 0x80]]"

definition strip_one :: "string list \<Rightarrow> string \<Rightarrow> string option" where
  "strip_one ws s =
     (case find (\<lambda>w. w \<noteq> [] \<and> prefix w s) ws of None \<Rightarrow> None | Some w \<Rightarrow> Some (drop (length w) s))"

lemma strip_one_shorter: "strip_one ws s = Some t \<Longrightarrow> length t < length s"
proof -
  assume "strip_one ws s = Some t"
  then obtain w where w: "find (\<lambda>w. w \<noteq> [] \<and> prefix w s) ws = Some w" and t: "t = drop (length w) s"
    by (auto simp: strip_one_def split: option.splits)
  from w have "w \<noteq> []" and "prefix w s"
    by (auto simp: find_Some_iff)
  with t show ?thesis by (auto simp: prefix_def)
qed

function trim_left :: "string list \<Rightarrow> string \<Rightarrow> string" where
  "trim_left ws s = (case strip_one ws s of None \<Rightarrow> s | Some t \<Rightarrow> trim_left ws t)"
  by pat_completeness auto
termination
  by (relation "measure (\<lambda>(ws, s). length s)") (auto dest: strip_one_shorter)

declare trim_left.simps [simp del]

definition strings_TrimSpace :: "string \<Rightarrow> string" where
  "strings_TrimSpace s =
     rev (trim_left (List.map rev space_runes) (rev (trim_left space_runes s)))"

text \<open>A string that starts with no space rune is left alone by \<open>trim_left\<close>.\<close>

lemma trim_left_id: "strip_one ws s = None \<Longrightarrow> trim_left ws s = s"
  by (subst trim_left.simps) simp

lemma trim_left_stripped: "strip_one ws (trim_left ws s) = None"
proof (induction ws s rule: trim_left.induct)
  case (1 ws s)
  show ?case
  proof (cases "strip_one ws s")
    case None
    then show ?thesis by (simp add: trim_left_id)
  next
    case (Some t)
    with "1.IH" [OF Some] show ?thesis by (simp add: trim_left.simps [of ws s])
  qed
qed

lemma trim_left_idem: "trim_left ws (trim_left ws s) = trim_left ws s"
  by (simp add: trim_left_id trim_left_stripped)

text \<open>A text between two visible ASCII characters is left alone by \<open>TrimSpace\<close>.\<close>

definition visible :: "char \<Rightarrow> bool" where
  "visible c \<longleftrightarrow> 33 \<le> byte c \<and> byte c \<le> 126"

lemma space_runes_invisible:
  "\<forall>w \<in> set space_runes. w \<noteq> [] \<and> \<not> visible (hd w) \<and> \<not> visible (last w)"
  by (simp add: space_runes_def visible_def byte_def)

lemma strip_one_visible:
  assumes "\<forall>w \<in> set ws. w \<noteq> [] \<and> \<not> visible (hd w)" "s \<noteq> []" "visible (hd s)"
  shows "strip_one ws s = None"
proof -
  have "\<not> prefix w s" if "w \<in> set ws" for w
    using assms that by (cases w; cases s) auto
  then show ?thesis by (auto simp: strip_one_def find_None_iff split: option.splits dest: find_Some_iff [THEN iffD1])
qed

lemma TrimSpace_visible:
  assumes "s \<noteq> []" "visible (hd s)" "visible (last s)"
  shows "strings_TrimSpace s = s"
proof -
  have "trim_left space_runes s = s"
    using space_runes_invisible assms by (intro trim_left_id strip_one_visible) auto
  moreover have "trim_left (List.map rev space_runes) (rev s) = rev s"
    using space_runes_invisible assms
    by (intro trim_left_id strip_one_visible) (auto simp: hd_rev)
  ultimately show ?thesis by (simp add: strings_TrimSpace_def)
qed

lemma TrimSpace_Nil [simp]: "strings_TrimSpace [] = []"
proof -
  have "strip_one ws [] = None" for ws
    by (auto simp: strip_one_def find_Some_iff split: option.splits)
  then show ?thesis by (simp add: strings_TrimSpace_def trim_left_id)
qed

subsection \<open>Decimal numerals\<close>

definition digit :: "nat \<Rightarrow> char" where
  "digit d = ''0123456789'' ! d"

fun show_nat :: "nat \<Rightarrow> string" where
  "show_nat n = (if n < 10 then [digit n] else show_nat (n div 10) @ [digit (n mod 10)])"

declare show_nat.simps [simp del]

text \<open>The equations that evaluate a numeral (and leave a variable alone).\<close>

lemma show_nat_eval [go_simps]:
  "show_nat 0 = [digit 0]"
  "show_nat (Suc 0) = [digit 1]"
  "show_nat (numeral k) =
     (if (numeral k :: nat) < 10 then [digit (numeral k)]
      else show_nat (numeral k div 10) @ [digit (numeral k mod 10)])"
  by (subst show_nat.simps; simp)+

definition show_int :: "int \<Rightarrow> string" where
  "show_int i = (if i < 0 then CHR ''-'' # show_nat (nat (- i)) else show_nat (nat i))"

definition digits_val :: "string \<Rightarrow> nat" where
  "digits_val s = foldl (\<lambda>n c. 10 * n + (byte c - 48)) 0 s"

lemma less_10_cases:
  "(d::nat) < 10 \<Longrightarrow> d = 0 \<or> d = 1 \<or> d = 2 \<or> d = 3 \<or> d = 4 \<or> d = 5 \<or> d = 6 \<or> d = 7 \<or> d = 8 \<or> d = 9"
  by arith

lemma byte_digit [simp]: "d < 10 \<Longrightarrow> byte (digit d) = 48 + d"
  by (drule less_10_cases) (auto simp: byte_def digit_def)

lemma is_digit_digit [simp]: "d < 10 \<Longrightarrow> is_digit (digit d)"
  by (simp add: is_digit_def)

lemma show_nat_digits: "\<forall>c \<in> set (show_nat n). is_digit c"
proof (induction n rule: show_nat.induct)
  case (1 n)
  then show ?case by (subst show_nat.simps) auto
qed

lemma show_nat_not_Nil [simp]: "show_nat n \<noteq> []"
  by (subst show_nat.simps) simp

lemma digits_val_append [simp]:
  "digits_val (s @ [c]) = 10 * digits_val s + (byte c - 48)"
  by (simp add: digits_val_def)

lemma digits_val_show_nat [simp]: "digits_val (show_nat n) = n"
proof (induction n rule: show_nat.induct)
  case (1 n)
  show ?case
  proof (cases "n < 10")
    case True
    then show ?thesis by (simp add: show_nat.simps [of n] digits_val_def)
  next
    case False
    with 1 show ?thesis by (simp add: show_nat.simps [of n])
  qed
qed

text \<open>\<open>strconv.Itoa\<close>\<close>

definition strconv_Itoa :: "int \<Rightarrow> string" where
  "strconv_Itoa i = show_int i"

text \<open>
  \<open>strconv.Atoi\<close> on a 64-bit platform: an optional sign and one or more decimal digits whose
  value fits a 64-bit \<open>int\<close>; \<open>None\<close> is the error.
\<close>

definition atoi_body :: "string \<Rightarrow> nat option" where
  "atoi_body s = (if s \<noteq> [] \<and> list_all is_digit s then Some (digits_val s) else None)"

definition strconv_Atoi :: "string \<Rightarrow> int option" where
  "strconv_Atoi s =
     (let neg = prefix ''-'' s;
          body = (if prefix ''-'' s \<or> prefix ''+'' s then tl s else s)
      in case atoi_body body of
           None \<Rightarrow> None
         | Some n \<Rightarrow>
             (let i = (if neg then - int n else int n)
              in if - (2 ^ 63) \<le> i \<and> i < 2 ^ 63 then Some i else None))"

lemma atoi_body_show_nat [simp]: "atoi_body (show_nat n) = Some n"
  using show_nat_digits by (auto simp: atoi_body_def list_all_iff)

lemma show_nat_no_sign:
  "\<not> prefix ''-'' (show_nat n)" "\<not> prefix ''+'' (show_nat n)"
proof -
  have "is_digit (hd (show_nat n))"
    using show_nat_digits by (metis show_nat_not_Nil hd_in_set)
  then have "hd (show_nat n) \<noteq> CHR ''-''" and "hd (show_nat n) \<noteq> CHR ''+''"
    by (auto simp: is_digit_def byte_def)
  then show "\<not> prefix ''-'' (show_nat n)" "\<not> prefix ''+'' (show_nat n)"
    by (simp_all add: prefix_single)
qed

lemma Atoi_Itoa: "- (2 ^ 63) \<le> i \<Longrightarrow> i < 2 ^ 63 \<Longrightarrow> strconv_Atoi (strconv_Itoa i) = Some i"
  by (simp add: strconv_Atoi_def strconv_Itoa_def show_int_def show_nat_no_sign)

lemma Atoi_range: "strconv_Atoi s = Some i \<Longrightarrow> - (2 ^ 63) \<le> i \<and> i < 2 ^ 63"
  by (auto simp: strconv_Atoi_def Let_def split: option.splits if_splits)

end
