(* ===== verification/Go_Encoding.thy ===== *)
theory Go_Encoding
  imports Go_Strings "HOL-Library.Word"
begin

text \<open>
  What the program uses of \<open>encoding/base64\<close>, \<open>crypto/sha256\<close>, \<open>crypto/subtle\<close> and
  \<open>net/url\<close>: the standard encoding with padding (Basic authentication), the unpadded URL
  encoding (session tokens), the SHA-256 digest (credentials), the constant-time comparison
  and \<open>url.QueryEscape\<close>. The round trip of base64 and the meaning of the comparison are proved.
\<close>

subsection \<open>base64\<close>

definition std_alphabet :: string where
  "std_alphabet = ''ABCDEFGHIJKLMNOPQRSTUVWXYZabcdefghijklmnopqrstuvwxyz0123456789+/''"

definition url_alphabet :: string where
  "url_alphabet = ''ABCDEFGHIJKLMNOPQRSTUVWXYZabcdefghijklmnopqrstuvwxyz0123456789-_''"

fun b64_encode :: "string \<Rightarrow> bool \<Rightarrow> string \<Rightarrow> string" where
  "b64_encode al pad [] = []"
| "b64_encode al pad [a] =
     (let n = byte a * 16
      in [al ! (n div 64), al ! (n mod 64)] @ (if pad then ''=='' else []))"
| "b64_encode al pad [a, b] =
     (let n = (byte a * 256 + byte b) * 4
      in [al ! (n div 4096), al ! (n div 64 mod 64), al ! (n mod 64)] @ (if pad then ''='' else []))"
| "b64_encode al pad (a # b # c # r) =
     (let n = byte a * 65536 + byte b * 256 + byte c
      in [al ! (n div 262144), al ! (n div 4096 mod 64), al ! (n div 64 mod 64), al ! (n mod 64)]
         @ b64_encode al pad r)"

definition index_of :: "string \<Rightarrow> char \<Rightarrow> nat option" where
  "index_of al c =
     (let i = length (takeWhile (\<lambda>x. x \<noteq> c) al) in if i < length al then Some i else None)"

text \<open>The decoder works on groups of four; a padded group must be the last.\<close>

fun b64_quads :: "string \<Rightarrow> string \<Rightarrow> string option" where
  "b64_quads al [] = Some []"
| "b64_quads al (a # b # c # d # r) =
     (if c = CHR ''='' \<and> d = CHR ''='' \<and> r = [] then
        case (index_of al a, index_of al b) of
          (Some x, Some y) \<Rightarrow> Some [chr ((x * 64 + y) div 16)]
        | _ \<Rightarrow> None
      else if d = CHR ''='' \<and> r = [] then
        case (index_of al a, index_of al b, index_of al c) of
          (Some x, Some y, Some z) \<Rightarrow>
            (let n = (x * 4096 + y * 64 + z) div 4 in Some [chr (n div 256), chr (n mod 256)])
        | _ \<Rightarrow> None
      else
        case (index_of al a, index_of al b, index_of al c, index_of al d, b64_quads al r) of
          (Some x, Some y, Some z, Some w, Some rest) \<Rightarrow>
            (let n = x * 262144 + y * 4096 + z * 64 + w
             in Some (chr (n div 65536) # chr (n div 256 mod 256) # chr (n mod 256) # rest))
        | _ \<Rightarrow> None)"
| "b64_quads al _ = None"

text \<open>\<open>base64.StdEncoding.DecodeString\<close>: carriage returns and line feeds are skipped.\<close>

definition std_DecodeString :: "string \<Rightarrow> string option" where
  "std_DecodeString s =
     b64_quads std_alphabet (filter (\<lambda>c. c \<noteq> CHR 0x0A \<and> c \<noteq> CHR 0x0D) s)"

definition std_EncodeToString :: "string \<Rightarrow> string" where
  "std_EncodeToString s = b64_encode std_alphabet True s"

definition rawurl_EncodeToString :: "string \<Rightarrow> string" where
  "rawurl_EncodeToString s = b64_encode url_alphabet False s"

lemma index_of_nth: "distinct al \<Longrightarrow> n < length al \<Longrightarrow> index_of al (al ! n) = Some n"
proof (induction al arbitrary: n)
  case (Cons x al)
  show ?case
  proof (cases n)
    case (Suc m)
    with Cons have "index_of al (al ! m) = Some m" and "al ! m \<noteq> x"
      by auto
    with Suc show ?thesis by (auto simp: index_of_def Let_def split: if_splits)
  qed (simp add: index_of_def)
qed simp

lemma std_alphabet_facts:
  "distinct std_alphabet" "length std_alphabet = 64" "CHR ''='' \<notin> set std_alphabet"
  "CHR 0x0A \<notin> set std_alphabet" "CHR 0x0D \<notin> set std_alphabet"
  by (simp_all add: std_alphabet_def)

lemma url_alphabet_facts:
  "distinct url_alphabet" "length url_alphabet = 64"
  by (simp_all add: url_alphabet_def)

lemma std_index: "n < 64 \<Longrightarrow> index_of std_alphabet (std_alphabet ! n) = Some n"
  by (rule index_of_nth) (simp_all add: std_alphabet_facts)

lemma std_nth: "n < 64 \<Longrightarrow> std_alphabet ! n \<in> set std_alphabet"
  by (rule nth_mem) (simp add: std_alphabet_facts)

lemma std_nth_neq:
  assumes "n < 64"
  shows "std_alphabet ! n \<noteq> CHR ''=''" "std_alphabet ! n \<noteq> CHR 0x0A" "std_alphabet ! n \<noteq> CHR 0x0D"
  using std_nth [OF assms] std_alphabet_facts by metis+

lemma split_24:
  fixes n :: nat
  shows "n div 262144 * 262144 + n div 4096 mod 64 * 4096 + n div 64 mod 64 * 64 + n mod 64 = n"
proof -
  have "n = n div 64 * 64 + n mod 64" by simp
  moreover have "n div 64 = n div 4096 * 64 + n div 64 mod 64"
    using div_mult_mod_eq [of "n div 64" 64] by (simp add: div_mult2_eq [symmetric])
  moreover have "n div 4096 = n div 262144 * 64 + n div 4096 mod 64"
    using div_mult_mod_eq [of "n div 4096" 64] by (simp add: div_mult2_eq [symmetric])
  ultimately show ?thesis by linarith
qed

lemma bytes_24:
  fixes a b c :: nat
  assumes "a < 256" "b < 256" "c < 256"
  shows "(a * 65536 + b * 256 + c) div 65536 = a"
    "(a * 65536 + b * 256 + c) div 256 mod 256 = b"
    "(a * 65536 + b * 256 + c) mod 256 = c"
proof -
  have n: "a * 65536 + b * 256 + c = (a * 256 + b) * 256 + c" by simp
  show "(a * 65536 + b * 256 + c) mod 256 = c" using n assms(3) by (metis mod_mult_self3 mod_less)
  have d: "(a * 65536 + b * 256 + c) div 256 = a * 256 + b"
    using n assms(3) by (metis div_mult_self3 div_less add_0_right zero_neq_numeral)
  then show "(a * 65536 + b * 256 + c) div 256 mod 256 = b"
    using assms(2) by (metis mod_mult_self3 mod_less)
  have "(a * 65536 + b * 256 + c) div 65536 = (a * 65536 + b * 256 + c) div 256 div 256"
    by (simp add: div_mult2_eq [symmetric])
  also have "\<dots> = (a * 256 + b) div 256" by (simp only: d)
  also have "\<dots> = a" using assms(2) by simp
  finally show "(a * 65536 + b * 256 + c) div 65536 = a" .
qed

text \<open>The shapes of an encoded group, with the value its digits stand for.\<close>

lemma encode_3:
  obtains x y z w where "x < 64" "y < 64" "z < 64" "w < 64"
    and "b64_encode al pad (a # b # c # r) = al ! x # al ! y # al ! z # al ! w # b64_encode al pad r"
    and "x * 262144 + y * 4096 + z * 64 + w = byte a * 65536 + byte b * 256 + byte c"
proof -
  define n where "n = byte a * 65536 + byte b * 256 + byte c"
  have "n < 64 * 262144"
    using byte_less [of a] byte_less [of b] byte_less [of c] unfolding n_def by linarith
  then have "n div 262144 < 64" by (simp add: less_mult_imp_div_less)
  then show thesis
    by (intro that [of "n div 262144" "n div 4096 mod 64" "n div 64 mod 64" "n mod 64"])
       (simp_all add: n_def [symmetric] split_24 Let_def)
qed

lemma encode_2:
  obtains x y z where "x < 64" "y < 64" "z < 64"
    and "b64_encode al pad [a, b] = [al ! x, al ! y, al ! z] @ (if pad then ''='' else [])"
    and "x * 4096 + y * 64 + z = (byte a * 256 + byte b) * 4"
proof -
  define n where "n = (byte a * 256 + byte b) * 4"
  have "n < 64 * 4096"
    using byte_less [of a] byte_less [of b] by (simp add: n_def less_eq_Suc_le)
  then have small: "n div 4096 < 64" by (simp add: less_mult_imp_div_less)
  have "n = n div 64 * 64 + n mod 64" by simp
  moreover have "n div 64 = n div 4096 * 64 + n div 64 mod 64"
    using div_mult_mod_eq [of "n div 64" 64] by (simp add: div_mult2_eq [symmetric])
  ultimately have "n div 4096 * 4096 + n div 64 mod 64 * 64 + n mod 64 = n" by linarith
  with small show thesis
    by (intro that [of "n div 4096" "n div 64 mod 64" "n mod 64"]) (simp_all add: n_def Let_def)
qed

lemma encode_1:
  obtains x y where "x < 64" "y < 64"
    and "b64_encode al pad [a] = [al ! x, al ! y] @ (if pad then ''=='' else [])"
    and "x * 64 + y = byte a * 16"
proof -
  define n where "n = byte a * 16"
  have "n < 64 * 64" using byte_less [of a] unfolding n_def by linarith
  then have "n div 64 < 64" by (simp add: less_mult_imp_div_less)
  then show thesis
    by (intro that [of "n div 64" "n mod 64"]) (simp_all add: n_def [symmetric] Let_def)
qed

lemma quads_encode: "b64_quads std_alphabet (b64_encode std_alphabet True s) = Some s"
proof (induction std_alphabet True s rule: b64_encode.induct)
  case (2 a)
  obtain x y where "x < 64" "y < 64"
    and "b64_encode std_alphabet True [a] = [std_alphabet ! x, std_alphabet ! y] @ ''==''"
    and "x * 64 + y = byte a * 16"
    using encode_1 [of std_alphabet True a] by auto
  then show ?case by (simp add: std_index)
next
  case (3 a b)
  obtain x y z where "x < 64" "y < 64" "z < 64"
    and "b64_encode std_alphabet True [a, b] = [std_alphabet ! x, std_alphabet ! y, std_alphabet ! z] @ ''=''"
    and v: "x * 4096 + y * 64 + z = (byte a * 256 + byte b) * 4"
    using encode_2 [of std_alphabet True a b] by auto
  moreover have "(x * 4096 + y * 64 + z) div 4 = byte a * 256 + byte b" using v by simp
  moreover have "(byte a * 256 + byte b) div 256 = byte a" by simp
  moreover have "(byte a * 256 + byte b) mod 256 = byte b" by simp
  ultimately show ?case by (simp add: std_index std_nth_neq Let_def)
next
  case (4 a b c r)
  obtain x y z w where "x < 64" "y < 64" "z < 64" "w < 64"
    and "b64_encode std_alphabet True (a # b # c # r) = std_alphabet ! x # std_alphabet ! y #
      std_alphabet ! z # std_alphabet ! w # b64_encode std_alphabet True r"
    and v: "x * 262144 + y * 4096 + z * 64 + w = byte a * 65536 + byte b * 256 + byte c"
    by (rule encode_3 [of std_alphabet True a b c r])
  with 4 show ?case
    by (simp add: std_index std_nth_neq bytes_24 Let_def del: b64_encode.simps)
qed simp

lemma encode_no_newline:
  "filter (\<lambda>c. c \<noteq> CHR 0x0A \<and> c \<noteq> CHR 0x0D) (b64_encode std_alphabet True s)
     = b64_encode std_alphabet True s"
proof (induction std_alphabet True s rule: b64_encode.induct)
  case (2 a)
  then show ?case
    by (rule encode_1 [of std_alphabet True a]) (simp add: std_nth_neq del: b64_encode.simps)
next
  case (3 a b)
  then show ?case
    by (rule encode_2 [of std_alphabet True a b]) (simp add: std_nth_neq del: b64_encode.simps)
next
  case (4 a b c r)
  obtain x y z w where "x < 64" "y < 64" "z < 64" "w < 64"
    and "b64_encode std_alphabet True (a # b # c # r) = std_alphabet ! x # std_alphabet ! y #
      std_alphabet ! z # std_alphabet ! w # b64_encode std_alphabet True r"
    and v: "x * 262144 + y * 4096 + z * 64 + w = byte a * 65536 + byte b * 256 + byte c"
    by (rule encode_3 [of std_alphabet True a b c r])
  with 4 show ?case by (simp add: std_nth_neq del: b64_encode.simps)
qed simp

lemma std_Decode_Encode [simp]: "std_DecodeString (std_EncodeToString s) = Some s"
  by (simp add: std_DecodeString_def std_EncodeToString_def encode_no_newline quads_encode)

text \<open>A token of 32 random bytes has 43 characters.\<close>

lemma length_encode_Cons3:
  "length (b64_encode al pad (a # b # c # r)) = 4 + length (b64_encode al pad r)"
  by (simp add: Let_def)

lemma length_rawurl:
  "length (b64_encode al False s) =
    4 * (length s div 3) + (if length s mod 3 = 0 then 0 else length s mod 3 + 1)"
proof (induction al False s rule: b64_encode.induct)
  case (4 al a b c r)
  have "length (a # b # c # r) div 3 = Suc (length r div 3)"
    and "length (a # b # c # r) mod 3 = length r mod 3"
    by simp_all
  with 4 show ?case by (simp add: length_encode_Cons3 del: b64_encode.simps list.size)
qed (simp_all add: Let_def)

lemma length_rawurl_32: "length s = 32 \<Longrightarrow> length (rawurl_EncodeToString s) = 43"
  by (simp add: rawurl_EncodeToString_def length_rawurl)

subsection \<open>Constant-time comparison\<close>

unbundle bit_operations_syntax

fun compare_bytes :: "8 word \<Rightarrow> string \<Rightarrow> string \<Rightarrow> 8 word" where
  "compare_bytes v (x # xs) (y # ys) =
     compare_bytes (v OR (of_nat (byte x) XOR of_nat (byte y))) xs ys"
| "compare_bytes v _ _ = v"

definition ConstantTimeCompare :: "string \<Rightarrow> string \<Rightarrow> int" where
  "ConstantTimeCompare x y =
     (if length x \<noteq> length y then 0 else if compare_bytes 0 x y = 0 then 1 else 0)"

lemma byte_word_eq: "(of_nat (byte x) :: 8 word) = of_nat (byte y) \<longleftrightarrow> x = y"
proof -
  have "unat (of_nat (byte c) :: 8 word) = byte c" for c
    using byte_less [of c] by (simp add: unat_of_nat)
  then show ?thesis by (metis byte_eq_iff)
qed

lemma or_zero_iff: "(v :: 8 word) OR w = 0 \<longleftrightarrow> v = 0 \<and> w = 0"
  by (simp add: or_eq_0_iff)

lemma xor_zero_iff: "(v :: 8 word) XOR w = 0 \<longleftrightarrow> v = w"
proof
  assume "v XOR w = 0"
  then have "v XOR (v XOR w) = v" by simp
  then show "v = w" by (simp add: xor.assoc [symmetric])
qed simp

lemma compare_bytes_zero:
  "length x = length y \<Longrightarrow> compare_bytes v x y = 0 \<longleftrightarrow> v = 0 \<and> x = y"
proof (induction v x y rule: compare_bytes.induct)
  case (1 v x xs y ys)
  then show ?case
    by (simp add: or_zero_iff xor_zero_iff byte_word_eq del: or_eq_0_iff)
qed simp_all

lemma ConstantTimeCompare_1 [simp]: "ConstantTimeCompare x y = 1 \<longleftrightarrow> x = y"
  by (auto simp: ConstantTimeCompare_def compare_bytes_zero)

subsection \<open>SHA-256\<close>

type_synonym u32 = "32 word"
type_synonym sha_state = "u32 \<times> u32 \<times> u32 \<times> u32 \<times> u32 \<times> u32 \<times> u32 \<times> u32"

text \<open>The round constants and the initial state, in decimal.\<close>

definition sha_K :: "u32 list" where
  "sha_K =
     [1116352408, 1899447441, 3049323471, 3921009573, 961987163, 1508970993, 2453635748,
      2870763221, 3624381080, 310598401, 607225278, 1426881987, 1925078388, 2162078206,
      2614888103, 3248222580, 3835390401, 4022224774, 264347078, 604807628, 770255983,
      1249150122, 1555081692, 1996064986, 2554220882, 2821834349, 2952996808, 3210313671,
      3336571891, 3584528711, 113926993, 338241895, 666307205, 773529912, 1294757372,
      1396182291, 1695183700, 1986661051, 2177026350, 2456956037, 2730485921, 2820302411,
      3259730800, 3345764771, 3516065817, 3600352804, 4094571909, 275423344, 430227734,
      506948616, 659060556, 883997877, 958139571, 1322822218, 1537002063, 1747873779,
      1955562222, 2024104815, 2227730452, 2361852424, 2428436474, 2756734187, 3204031479,
      3329325298]"

definition sha_init :: sha_state where
  "sha_init = (1779033703, 3144134277, 1013904242, 2773480762,
               1359893119, 2600822924, 528734635, 1541459225)"

primrec be_bytes :: "nat \<Rightarrow> nat \<Rightarrow> nat list" where
  "be_bytes 0 n = []"
| "be_bytes (Suc k) n = be_bytes k (n div 256) @ [n mod 256]"

definition sha_pad :: "nat list \<Rightarrow> nat list" where
  "sha_pad bs =
     bs @ [128] @ replicate ((119 - length bs mod 64) mod 64) 0 @ be_bytes 8 (8 * length bs)"

fun be_words :: "nat list \<Rightarrow> u32 list" where
  "be_words (a # b # c # d # r) =
     (((of_nat a * 256 + of_nat b) * 256 + of_nat c) * 256 + of_nat d) # be_words r"
| "be_words _ = []"

primrec sha_blocks :: "nat \<Rightarrow> u32 list \<Rightarrow> u32 list list" where
  "sha_blocks 0 ws = []"
| "sha_blocks (Suc k) ws = take 16 ws # sha_blocks k (drop 16 ws)"

definition sha_sigma0 :: "u32 \<Rightarrow> u32" where
  "sha_sigma0 x = word_rotr 7 x XOR word_rotr 18 x XOR drop_bit 3 x"

definition sha_sigma1 :: "u32 \<Rightarrow> u32" where
  "sha_sigma1 x = word_rotr 17 x XOR word_rotr 19 x XOR drop_bit 10 x"

primrec sha_schedule :: "nat \<Rightarrow> u32 list \<Rightarrow> u32 list" where
  "sha_schedule 0 ws = ws"
| "sha_schedule (Suc k) ws =
     (let n = length ws;
          w = sha_sigma1 (ws ! (n - 2)) + ws ! (n - 7) + sha_sigma0 (ws ! (n - 15)) + ws ! (n - 16)
      in sha_schedule k (ws @ [w]))"

fun sha_round :: "sha_state \<Rightarrow> u32 \<times> u32 \<Rightarrow> sha_state" where
  "sha_round (a, b, c, d, e, f, g, h) (k, w) =
     (let S1 = word_rotr 6 e XOR word_rotr 11 e XOR word_rotr 25 e;
          ch = (e AND f) XOR (NOT e AND g);
          t1 = h + S1 + ch + k + w;
          S0 = word_rotr 2 a XOR word_rotr 13 a XOR word_rotr 22 a;
          maj = (a AND b) XOR (a AND c) XOR (b AND c);
          t2 = S0 + maj
      in (t1 + t2, a, b, c, d + t1, e, f, g))"

fun sha_add :: "sha_state \<Rightarrow> sha_state \<Rightarrow> sha_state" where
  "sha_add (a, b, c, d, e, f, g, h) (a', b', c', d', e', f', g', h') =
     (a + a', b + b', c + c', d + d', e + e', f + f', g + g', h + h')"

definition sha_compress :: "sha_state \<Rightarrow> u32 list \<Rightarrow> sha_state" where
  "sha_compress st block = sha_add st (foldl sha_round st (zip sha_K (sha_schedule 48 block)))"

definition word_bytes :: "u32 \<Rightarrow> nat list" where
  "word_bytes w =
     [unat (drop_bit 24 w), unat (drop_bit 16 w AND 255), unat (drop_bit 8 w AND 255), unat (w AND 255)]"

fun sha_digest :: "sha_state \<Rightarrow> string" where
  "sha_digest (a, b, c, d, e, f, g, h) =
     List.map chr (concat (List.map word_bytes [a, b, c, d, e, f, g, h]))"

text \<open>\<open>sha256.Sum256\<close>\<close>

definition sha256_Sum256 :: "string \<Rightarrow> string" where
  "sha256_Sum256 s =
     (let bs = sha_pad (List.map byte s)
      in sha_digest (foldl sha_compress sha_init (sha_blocks (length bs div 64) (be_words bs))))"

lemma length_sha_digest: "length (sha_digest st) = 32"
  by (cases st rule: sha_digest.cases) (simp add: word_bytes_def)

lemma length_sha256 [simp]: "length (sha256_Sum256 s) = 32"
  by (simp add: sha256_Sum256_def Let_def length_sha_digest)

subsection \<open>url.QueryEscape\<close>

definition hex_upper :: "nat \<Rightarrow> char" where
  "hex_upper n = ''0123456789ABCDEF'' ! n"

definition query_unreserved :: "char \<Rightarrow> bool" where
  "query_unreserved c \<longleftrightarrow>
     (65 \<le> byte c \<and> byte c \<le> 90) \<or> (97 \<le> byte c \<and> byte c \<le> 122) \<or> is_digit c \<or>
     c \<in> set ''-_.~''"

definition url_QueryEscape :: "string \<Rightarrow> string" where
  "url_QueryEscape s =
     concat (List.map (\<lambda>c. if query_unreserved c then [c]
                           else if c = CHR '' '' then ''+''
                           else [CHR ''%'', hex_upper (byte c div 16), hex_upper (byte c mod 16)]) s)"

end
