(* ===== verification/Go_Net.thy ===== *)
theory Go_Net
  imports Go_Encoding
begin

text \<open>
  What the program uses of the package \<open>net\<close>: \<open>ParseIP\<close>, \<open>ParseCIDR\<close>, \<open>IPNet.Contains\<close>,
  \<open>SplitHostPort\<close> and \<open>JoinHostPort\<close>, on byte lists as Go has them. An address that \<open>ParseIP\<close>
  returns has 16 bytes (an IPv4 address in the form \<open>::ffff:a.b.c.d\<close>), a network has an address
  and a mask of 4 bytes each or of 16 bytes each. \<open>None\<close> is Go's \<open>nil\<close> or error.
\<close>

type_synonym ip = "8 word list"

record ipnet =
  net_ip :: ip
  net_mask :: ip

definition v4_in_v6_prefix :: ip where
  "v4_in_v6_prefix = replicate 10 0 @ [255, 255]"

subsection \<open>ParseIP\<close>

text \<open>A decimal field: digits without a leading zero, at most 255.\<close>

definition parse_octet :: "string \<Rightarrow> (8 word) option" where
  "parse_octet s =
     (if s \<noteq> [] \<and> list_all is_digit s \<and> \<not> (hd s = CHR ''0'' \<and> 1 < length s) \<and> digits_val s \<le> 255
      then Some (of_nat (digits_val s)) else None)"

definition parse_ipv4 :: "string \<Rightarrow> ip option" where
  "parse_ipv4 s =
     (case List.map parse_octet (strings_Split CHR ''.'' s) of
        [Some a, Some b, Some c, Some d] \<Rightarrow> Some [a, b, c, d]
      | _ \<Rightarrow> None)"

definition hex_val :: "char \<Rightarrow> nat option" where
  "hex_val c =
     (if is_digit c then Some (byte c - 48)
      else if 97 \<le> byte c \<and> byte c \<le> 102 then Some (byte c - 87)
      else if 65 \<le> byte c \<and> byte c \<le> 70 then Some (byte c - 55)
      else None)"

definition is_hex :: "char \<Rightarrow> bool" where
  "is_hex c \<longleftrightarrow> hex_val c \<noteq> None"

definition hex_group :: "string \<Rightarrow> nat" where
  "hex_group s = foldl (\<lambda>n c. 16 * n + (case hex_val c of None \<Rightarrow> 0 | Some d \<Rightarrow> d)) 0 s"

text \<open>
  The loop of \<open>parseIPv6\<close>. The first argument counts the groups of two bytes still to fill;
  the others are the text, the bytes so far and the position of the ellipsis. The result is
  what the loop leaves: the rest of the text, the bytes and the ellipsis.
\<close>

fun ipv6_loop :: "nat \<Rightarrow> string \<Rightarrow> ip \<Rightarrow> nat option \<Rightarrow> (string \<times> ip \<times> nat option) option" where
  "ipv6_loop 0 s bs ell = Some (s, bs, ell)"
| "ipv6_loop (Suc k) s bs ell =
     (let h = takeWhile is_hex s; r = dropWhile is_hex s; v = hex_group h;
          bs' = bs @ [of_nat (v div 256), of_nat (v mod 256)]
      in if h = [] \<or> 4 < length h then None
         else if prefix ''.'' r then
           (if ell = None \<and> length bs \<noteq> 12 then None
            else if 16 < length bs + 4 then None
            else case parse_ipv4 s of None \<Rightarrow> None | Some q \<Rightarrow> Some ([], bs @ q, ell))
         else if r = [] then Some ([], bs', ell)
         else if hd r \<noteq> CHR '':'' \<or> length r = 1 then None
         else if prefix '':'' (tl r) then
           (if ell \<noteq> None then None
            else let s' = tl (tl r)
                 in if s' = [] then Some ([], bs', Some (length bs'))
                    else ipv6_loop k s' bs' (Some (length bs')))
         else ipv6_loop k (tl r) bs' ell)"

text \<open>\<open>parseIPv6\<close> for a text without a zone (\<open>net.ParseIP\<close> rejects zones).\<close>

definition parse_ipv6 :: "string \<Rightarrow> ip option" where
  "parse_ipv6 s =
     (let lead = prefix ''::'' s; s0 = (if lead then drop 2 s else s)
      in if CHR ''%'' \<in> set s then None
         else if lead \<and> s0 = [] then Some (replicate 16 0)
         else case ipv6_loop 8 s0 [] (if lead then Some 0 else None) of
           None \<Rightarrow> None
         | Some (r, bs, ell) \<Rightarrow>
             if r \<noteq> [] then None
             else if length bs < 16 then
               (case ell of
                  None \<Rightarrow> None
                | Some e \<Rightarrow> Some (take e bs @ replicate (16 - length bs) 0 @ drop e bs))
             else if ell \<noteq> None then None
             else Some bs)"

text \<open>\<open>netip.ParseAddr\<close>: the first of \<open>.\<close>, \<open>:\<close>, \<open>%\<close> decides the family.\<close>

datatype family = V4 | V6

definition addr_family :: "string \<Rightarrow> family option" where
  "addr_family s =
     (case dropWhile (\<lambda>c. c \<notin> set ''.:%'') s of
        [] \<Rightarrow> None
      | c # _ \<Rightarrow> if c = CHR ''.'' then Some V4 else if c = CHR '':'' then Some V6 else None)"

definition parse_addr :: "string \<Rightarrow> (family \<times> ip) option" where
  "parse_addr s =
     (case addr_family s of
        None \<Rightarrow> None
      | Some V4 \<Rightarrow> map_option (\<lambda>q. (V4, q)) (parse_ipv4 s)
      | Some V6 \<Rightarrow> map_option (\<lambda>q. (V6, q)) (parse_ipv6 s))"

definition as16 :: "family \<times> ip \<Rightarrow> ip" where
  "as16 a = (case a of (V4, q) \<Rightarrow> v4_in_v6_prefix @ q | (V6, q) \<Rightarrow> q)"

definition net_ParseIP :: "string \<Rightarrow> ip option" where
  "net_ParseIP s = map_option as16 (parse_addr s)"

subsection \<open>Networks\<close>

definition To4 :: "ip \<Rightarrow> ip option" where
  "To4 a =
     (if length a = 4 then Some a
      else if length a = 16 \<and> take 12 a = v4_in_v6_prefix then Some (drop 12 a)
      else None)"

definition bitlen_of :: "family \<Rightarrow> nat" where
  "bitlen_of f = (case f of V4 \<Rightarrow> 32 | V6 \<Rightarrow> 128)"

text \<open>\<open>CIDRMask(ones, bits)\<close>, byte by byte.\<close>

primrec mask_bytes :: "nat \<Rightarrow> nat \<Rightarrow> ip" where
  "mask_bytes 0 ones = []"
| "mask_bytes (Suc k) ones =
     (if 8 \<le> ones then 255 # mask_bytes k (ones - 8)
      else of_nat (256 - 2 ^ (8 - ones)) # mask_bytes k 0)"

definition CIDRMask :: "nat \<Rightarrow> nat \<Rightarrow> ip" where
  "CIDRMask ones bts = mask_bytes (bts div 8) ones"

definition and_bytes :: "ip \<Rightarrow> ip \<Rightarrow> ip" where
  "and_bytes a m = map2 (AND) a m"

definition ip_Mask :: "ip \<Rightarrow> ip \<Rightarrow> ip" where
  "ip_Mask a m =
     (let a' = (if length m = 4 \<and> length a = 16 \<and> take 12 a = v4_in_v6_prefix then drop 12 a else a)
      in and_bytes a' m)"

text \<open>The mask text is digits only, with a value below the package's bound 0xFFFFFF.\<close>

definition net_ParseCIDR :: "string \<Rightarrow> ipnet option" where
  "net_ParseCIDR s =
     (case strings_Cut CHR ''/'' s of
        None \<Rightarrow> None
      | Some (addr, m) \<Rightarrow>
          (case parse_addr addr of
             None \<Rightarrow> None
           | Some (f, q) \<Rightarrow>
               if m = [] \<or> \<not> list_all is_digit m \<or> 0xFFFFFF \<le> digits_val m \<or> bitlen_of f < digits_val m
               then None
               else let msk = CIDRMask (digits_val m) (bitlen_of f)
                    in Some \<lparr>net_ip = ip_Mask (as16 (f, q)) msk, net_mask = msk\<rparr>))"

definition networkNumberAndMask :: "ipnet \<Rightarrow> (ip \<times> ip) option" where
  "networkNumberAndMask n =
     (case To4 (net_ip n) of
        Some a \<Rightarrow>
          (if length (net_mask n) = 4 then Some (a, net_mask n)
           else if length (net_mask n) = 16 then Some (a, drop 12 (net_mask n))
           else None)
      | None \<Rightarrow>
          (if length (net_ip n) \<noteq> 16 then None
           else if length (net_mask n) = 16 then Some (net_ip n, net_mask n)
           else None))"

definition ipnet_Contains :: "ipnet \<Rightarrow> ip \<Rightarrow> bool" where
  "ipnet_Contains n a =
     (case networkNumberAndMask n of
        None \<Rightarrow> False
      | Some (nn, m) \<Rightarrow>
          let x = (case To4 a of Some q \<Rightarrow> q | None \<Rightarrow> a)
          in length x = length nn \<and> and_bytes nn m = and_bytes x m)"

subsection \<open>Host and port\<close>

definition net_JoinHostPort :: "string \<Rightarrow> string \<Rightarrow> string" where
  "net_JoinHostPort host port =
     (if CHR '':'' \<in> set host then ''['' @ host @ '']:'' @ port else host @ '':'' @ port)"

definition last_index :: "char \<Rightarrow> string \<Rightarrow> nat option" where
  "last_index c s =
     (if c \<in> set s then Some (length s - 1 - length (takeWhile (\<lambda>x. x \<noteq> c) (rev s))) else None)"

definition first_index :: "char \<Rightarrow> string \<Rightarrow> nat option" where
  "first_index c s = (if c \<in> set s then Some (length (takeWhile (\<lambda>x. x \<noteq> c) s)) else None)"

definition net_SplitHostPort :: "string \<Rightarrow> (string \<times> string) option" where
  "net_SplitHostPort hp =
     (case last_index CHR '':'' hp of
        None \<Rightarrow> None
      | Some i \<Rightarrow>
          if prefix ''['' hp then
            (case first_index CHR '']'' hp of
               None \<Rightarrow> None
             | Some e \<Rightarrow>
                 if e + 1 \<noteq> i then None
                 else if CHR ''['' \<in> set (drop 1 hp) \<or> CHR '']'' \<in> set (drop (e + 1) hp) then None
                 else Some (take (e - 1) (drop 1 hp), drop (i + 1) hp))
          else
            (let host = take i hp
             in if CHR '':'' \<in> set host then None
                else if CHR ''['' \<in> set hp \<or> CHR '']'' \<in> set hp then None
                else Some (host, drop (i + 1) hp)))"

lemmas net_eval =
  net_ParseIP_def parse_addr_def addr_family_def parse_ipv4_def parse_octet_def is_digit_def byte_def

end
