(* ===== verification/Subdomain.thy ===== *)
theory Subdomain
  imports Go_Net
begin

text \<open>
  \<open>subdomain.go\<close>: the routing key of a request, taken from its \<open>Host\<close> header.
  \<open>host_trimmed\<close> names the local variable \<open>host\<close> after the port and the brackets are gone.
\<close>

definition host_trimmed :: "string \<Rightarrow> string" where
  "host_trimmed host =
     strings_TrimSuffix (strings_TrimPrefix (hd (strings_Split CHR '':'' host)) ''['') '']''"

definition extractSubdomain :: "string \<Rightarrow> int \<Rightarrow> string" where
  "extractSubdomain host0 tldCount0 =
     (let host = host_trimmed host0
      in if host = [] \<or> net_ParseIP host \<noteq> None then []
         else let parts = strings_Split CHR ''.'' host;
                  tldCount = (if tldCount0 < 1 then 1 else tldCount0)
              in if int (length parts) \<le> tldCount then []
                 else let subParts = take (nat (int (length parts) - tldCount)) parts
                      in strings_Join subParts ''.'')"

text \<open>The number of trailing labels that are dropped.\<close>

abbreviation tld_labels :: "int \<Rightarrow> nat" where
  "tld_labels n \<equiv> nat (max 1 n)"

subsection \<open>Lemmas\<close>

lemma strings_Join_append:
  "xs \<noteq> [] \<Longrightarrow> ys \<noteq> [] \<Longrightarrow> strings_Join (xs @ ys) sep = strings_Join xs sep @ sep @ strings_Join ys sep"
proof (induction xs)
  case (Cons x xs)
  then show ?case
    by (cases xs; cases ys) auto
qed simp

lemma strings_Join_Cons:
  "xs \<noteq> [] \<Longrightarrow> strings_Join (x # xs) sep = x @ sep @ strings_Join xs sep"
  by (cases xs) auto

lemma set_strings_Join: "set (strings_Join xs sep) \<subseteq> \<Union> (set ` set xs) \<union> set sep"
  by (induction xs sep rule: strings_Join.induct) auto

lemma host_trimmed_plain:
  assumes "CHR '':'' \<notin> set h" "CHR ''['' \<notin> set h" "CHR '']'' \<notin> set h"
    and "port = [] \<or> hd port = CHR '':''"
  shows "host_trimmed (h @ port) = h"
proof -
  have "hd (strings_Split CHR '':'' (h @ port)) = h"
  proof (cases port)
    case (Cons c p)
    with assms show ?thesis by (simp add: Split_append_sep)
  qed (use assms in simp)
  moreover have "\<not> prefix ''['' h" and "\<not> suffix '']'' h"
    using assms(2,3) hd_in_set last_in_set by (fastforce simp: prefix_single suffix_single)+
  ultimately show ?thesis
    by (simp add: host_trimmed_def TrimPrefix_not TrimSuffix_not)
qed

lemma extractSubdomain_parts:
  assumes "host_trimmed host = h" "h \<noteq> []" "net_ParseIP h = None"
    and "strings_Split CHR ''.'' h = ls @ ts" "length ts = tld_labels n"
  shows "extractSubdomain host n = strings_Join ls ''.''"
proof -
  have len: "int (length ts) = (if n < 1 then 1 else n)" using assms(5) by auto
  show ?thesis
  proof (cases "ls = []")
    case True
    then show ?thesis
      using assms len by (simp add: extractSubdomain_def Let_def)
  next
    case False
    then have "0 < length ls" by simp
    then show ?thesis
      using assms len by (auto simp: extractSubdomain_def Let_def nat_add_distrib)
  qed
qed

subsection \<open>Properties\<close>

text \<open>C29: Routing key of a well-formed host. A host that is made of the labels \<open>ls\<close> followed by
  as many labels \<open>ts\<close> as the configured TLD count (counts below 1 act as 1), none of them with
  a dot, colon or bracket, and that is not an IP address, with or without a port, is routed to
  \<open>ls\<close> joined by dots: exactly the trailing labels are dropped and nothing else.\<close>

theorem extractSubdomain_labels:
  assumes "\<And>l. l \<in> set (ls @ ts) \<Longrightarrow> set l \<inter> set ''.:[]'' = {}"
    and "length ts = tld_labels n" and "ls \<noteq> []"
    and "port = [] \<or> hd port = CHR '':''"
    and "net_ParseIP (strings_Join (ls @ ts) ''.'') = None"
  shows "extractSubdomain (strings_Join (ls @ ts) ''.'' @ port) n = strings_Join ls ''.''"
proof -
  let ?h = "strings_Join (ls @ ts) ''.''"
  have ts: "ts \<noteq> []" using assms(2) by auto
  have chars: "set ?h \<inter> set '':[]'' = {}"
    using set_strings_Join [of "ls @ ts" "''.''"] assms(1) by fastforce
  have trim: "host_trimmed (?h @ port) = ?h"
    using chars assms(4) by (intro host_trimmed_plain) auto
  have ne: "?h \<noteq> []"
    using assms(3) ts by (simp add: strings_Join_append)
  have split: "strings_Split CHR ''.'' ?h = ls @ ts"
    using assms(1,3) by (intro Split_Join) fastforce+
  show ?thesis
    by (rule extractSubdomain_parts [OF trim ne assms(5) split assms(2)])
qed

theorem extractSubdomain_labels_witness:
  "extractSubdomain (strings_Join ([''myapp'', ''staging''] @ [''internal'']) ''.'' @ '':8000'') 1
     = strings_Join [''myapp'', ''staging''] ''.''"
  by (rule extractSubdomain_labels)
     (auto simp: net_eval)

text \<open>A routing key is always a proper prefix of the host. Whenever the result is not empty,
  the host without port and brackets is the result, a dot, and exactly as many dot-free labels
  as the TLD count; so no request is routed by a key that its host does not carry, and an IP
  address never yields a key.\<close>

theorem extractSubdomain_sound:
  assumes "extractSubdomain host n \<noteq> []"
  shows "net_ParseIP (host_trimmed host) = None \<and>
    (\<exists>ts. length ts = tld_labels n \<and> (\<forall>t \<in> set ts. CHR ''.'' \<notin> set t) \<and>
      host_trimmed host = extractSubdomain host n @ ''.'' @ strings_Join ts ''.'')"
proof -
  define h where "h = host_trimmed host"
  define parts where "parts = strings_Split CHR ''.'' h"
  define k where "k = length parts - tld_labels n"
  from assms have ip: "net_ParseIP h = None" and h: "h \<noteq> []"
    and long: "tld_labels n < length parts"
    by (auto simp: extractSubdomain_def h_def [symmetric] parts_def [symmetric] Let_def split: if_splits)
  have split: "strings_Split CHR ''.'' h = take k parts @ drop k parts"
    by (simp add: parts_def)
  have len: "length (drop k parts) = tld_labels n"
    using long by (simp add: k_def)
  have eq: "extractSubdomain host n = strings_Join (take k parts) ''.''"
    by (rule extractSubdomain_parts [OF h_def [symmetric] h ip split len])
  have "take k parts \<noteq> []" and "drop k parts \<noteq> []"
    using long by (auto simp: k_def)
  then have "h = strings_Join (take k parts) ''.'' @ ''.'' @ strings_Join (drop k parts) ''.''"
    using strings_Join_append [of "take k parts" "drop k parts" "''.''"]
      Join_Split [of "CHR ''.''" h] by (simp add: parts_def)
  moreover have "\<forall>t \<in> set (drop k parts). CHR ''.'' \<notin> set t"
    using Split_no_sep parts_def in_set_dropD by fastforce
  ultimately have "length (drop k parts) = tld_labels n \<and> (\<forall>t \<in> set (drop k parts). CHR ''.'' \<notin> set t)
      \<and> h = extractSubdomain host n @ ''.'' @ strings_Join (drop k parts) ''.''"
    using len eq by simp
  with ip show ?thesis
    unfolding h_def [symmetric] by blast
qed

theorem extractSubdomain_sound_witness:
  "extractSubdomain ''app.example.com:80'' 2 \<noteq> [] \<and>
   net_ParseIP (host_trimmed ''app.example.com:80'') = None"
proof -
  have "extractSubdomain ''app.example.com:80'' 2 \<noteq> []"
    by (simp add: extractSubdomain_def host_trimmed_def strings_TrimPrefix_def strings_TrimSuffix_def
        suffix_single net_eval)
  from this extractSubdomain_sound [OF this] show ?thesis by simp
qed

text \<open>The TLD count of the documentation's example. With a count of 2 the host
  \<open>myapp.staging.internal\<close> is routed to \<open>myapp\<close>, and it takes a count of 1 to route it to
  \<open>myapp.staging\<close> (README, section Routing, and the changelog of 0.2.0 say that a count of 2
  does).\<close>

theorem extractSubdomain_tld_example:
  "extractSubdomain ''myapp.staging.internal'' 2 = ''myapp''
   \<and> extractSubdomain ''myapp.staging.internal'' 1 = ''myapp.staging''"
  by (simp add: extractSubdomain_def host_trimmed_def strings_TrimPrefix_def strings_TrimSuffix_def
      suffix_single net_eval)

end
