(* ===== verification/Go_Time.thy ===== *)
theory Go_Time
  imports Go_Strings Complex_Main
begin

text \<open>
  Go's clock values, durations and floating-point numbers, as far as the program uses them.

  \<^item> A \<open>time.Time\<close> is the integer number of nanoseconds since the zero time (1 January of
    year 1, UTC), so \<open>IsZero\<close> is equality with 0.
  \<^item> A \<open>time.Duration\<close> is a signed 64-bit number of nanoseconds. It is an \<open>int\<close> here, and the
    operations write out where Go wraps (\<open>wrap64\<close>) or saturates (\<open>time_Sub\<close>).
  \<^item> A \<open>float64\<close> is the rational number it stands for; every operation rounds its exact result
    to 53 significant bits, ties to even (\<open>f64_round\<close>). Infinities, NaN and subnormal results
    do not occur in the program's uses (counts, seconds and their sums) and are left out.
  \<^item> \<open>time.ParseDuration\<close> and \<open>Duration.String\<close> follow the code of the package \<open>time\<close>.
\<close>

type_synonym time = int
type_synonym duration = int
type_synonym f64 = rat

definition wrap64 :: "int \<Rightarrow> int" where
  "wrap64 i = (i + 2 ^ 63) mod 2 ^ 64 - 2 ^ 63"

definition sat64 :: "int \<Rightarrow> int" where
  "sat64 i = max (- (2 ^ 63)) (min (2 ^ 63 - 1) i)"

definition in_int64 :: "int \<Rightarrow> bool" where
  "in_int64 i \<longleftrightarrow> - (2 ^ 63) \<le> i \<and> i < 2 ^ 63"

lemma wrap64_id: "in_int64 i \<Longrightarrow> wrap64 i = i"
  by (simp add: in_int64_def wrap64_def)

lemma wrap64_range [simp]: "in_int64 (wrap64 i)"
  by (simp add: in_int64_def wrap64_def)

lemma sat64_id: "in_int64 i \<Longrightarrow> sat64 i = i"
  by (simp add: in_int64_def sat64_def)

lemma sat64_mono: "i \<le> j \<Longrightarrow> sat64 i \<le> sat64 j"
  by (auto simp: sat64_def)

lemma sat64_less_iff: "in_int64 w \<Longrightarrow> w < sat64 i \<longleftrightarrow> w < i \<and> w < 2 ^ 63 - 1"
  by (auto simp: sat64_def in_int64_def)

subsection \<open>Times and durations\<close>

definition Nanosecond :: duration where "Nanosecond = 1"
definition Microsecond :: duration where "Microsecond = 1000"
definition Millisecond :: duration where "Millisecond = 1000000"
definition Second :: duration where "Second = 1000000000"
definition Minute :: duration where "Minute = 60000000000"
definition Hour :: duration where "Hour = 3600000000000"

lemmas duration_units =
  Nanosecond_def Microsecond_def Millisecond_def Second_def Minute_def Hour_def

definition time_IsZero :: "time \<Rightarrow> bool" where
  "time_IsZero t \<longleftrightarrow> t = 0"

definition time_Sub :: "time \<Rightarrow> time \<Rightarrow> duration" where
  "time_Sub t u = sat64 (t - u)"

definition time_Add :: "time \<Rightarrow> duration \<Rightarrow> time" where
  "time_Add t d = t + d"

definition time_After :: "time \<Rightarrow> time \<Rightarrow> bool" where
  "time_After t u \<longleftrightarrow> u < t"

text \<open>Go's integer division truncates towards zero.\<close>

definition tdiv :: "int \<Rightarrow> int \<Rightarrow> int" where
  "tdiv a b = sgn a * sgn b * (\<bar>a\<bar> div \<bar>b\<bar>)"

definition tmod :: "int \<Rightarrow> int \<Rightarrow> int" where
  "tmod a b = a - tdiv a b * b"

definition duration_Milliseconds :: "duration \<Rightarrow> int" where
  "duration_Milliseconds d = tdiv d Millisecond"

subsection \<open>float64\<close>

fun bits :: "nat \<Rightarrow> nat" where
  "bits n = (if n = 0 then 0 else Suc (bits (n div 2)))"

declare bits.simps [simp del]

definition pow2 :: "int \<Rightarrow> rat" where
  "pow2 e = (if 0 \<le> e then 2 ^ nat e else 1 / 2 ^ nat (- e))"

text \<open>The exponent \<open>e\<close> with \<open>2^e \<le> x < 2^(e+1)\<close>, for positive \<open>x\<close>.\<close>

definition ilog2 :: "rat \<Rightarrow> int" where
  "ilog2 x =
     (let (p, q) = quotient_of x; e = int (bits (nat p)) - int (bits (nat q))
      in if pow2 e \<le> x then e else e - 1)"

definition round_half_even :: "rat \<Rightarrow> int" where
  "round_half_even x =
     (let f = \<lfloor>x\<rfloor>; r = x - of_int f
      in if r < 1 / 2 then f else if 1 / 2 < r then f + 1 else if even f then f else f + 1)"

definition f64_round :: "rat \<Rightarrow> f64" where
  "f64_round x =
     (if x = 0 then 0
      else let e = ilog2 \<bar>x\<bar> - 52
           in sgn x * (of_int (round_half_even (\<bar>x\<bar> / pow2 e)) * pow2 e))"

definition f64_add :: "f64 \<Rightarrow> f64 \<Rightarrow> f64" where
  "f64_add x y = f64_round (x + y)"

definition f64_mul :: "f64 \<Rightarrow> f64 \<Rightarrow> f64" where
  "f64_mul x y = f64_round (x * y)"

definition f64_div :: "f64 \<Rightarrow> f64 \<Rightarrow> f64" where
  "f64_div x y = f64_round (x / y)"

definition f64_of_int :: "int \<Rightarrow> f64" where
  "f64_of_int i = f64_round (of_int i)"

text \<open>The conversion \<open>int(x)\<close> drops the fraction.\<close>

definition f64_to_int :: "f64 \<Rightarrow> int" where
  "f64_to_int x = (if x < 0 then - \<lfloor>- x\<rfloor> else \<lfloor>x\<rfloor>)"

definition duration_Seconds :: "duration \<Rightarrow> f64" where
  "duration_Seconds d =
     f64_add (f64_of_int (tdiv d Second)) (f64_div (f64_of_int (tmod d Second)) 1000000000)"

lemma bits_bounds: "0 < n \<Longrightarrow> 2 ^ (bits n - 1) \<le> n \<and> n < 2 ^ bits n"
proof (induction n rule: bits.induct)
  case (1 n)
  show ?case
  proof (cases "n = 1")
    case True
    then show ?thesis by (simp add: bits.simps)
  next
    case False
    with 1 have IH: "2 ^ (bits (n div 2) - 1) \<le> n div 2" "n div 2 < 2 ^ bits (n div 2)"
      by (auto simp: div_greater_zero_iff)
    from False 1(2) have pos: "0 < bits (n div 2)"
      by (subst bits.simps) (auto simp: div_greater_zero_iff)
    then have p: "(2::nat) ^ bits (n div 2) = 2 * 2 ^ (bits (n div 2) - 1)"
      by (metis power_eq_if less_irrefl)
    from IH p have "2 ^ bits (n div 2) \<le> n" and "n < 2 * 2 ^ bits (n div 2)"
      by linarith+
    with 1(2) show ?thesis by (simp add: bits.simps [of n])
  qed
qed

lemma bits_le: "0 < n \<Longrightarrow> n < 2 ^ k \<Longrightarrow> bits n \<le> k"
proof (rule ccontr)
  assume n: "0 < n" "n < 2 ^ k" and "\<not> bits n \<le> k"
  then have "k \<le> bits n - 1" by simp
  then have "(2::nat) ^ k \<le> 2 ^ (bits n - 1)" by simp
  with n bits_bounds [OF n(1)] show False by linarith
qed

lemma ilog2_of_nat: "0 < n \<Longrightarrow> ilog2 (of_nat n) = int (bits n) - 1"
proof -
  assume n: "0 < n"
  have q: "quotient_of (of_nat n) = (int n, 1)"
    by (simp add: of_nat_rat quotient_of_Fract)
  have b1: "bits (Suc 0) = 1" by (simp add: bits.simps)
  have pos: "0 < bits n" using n by (simp add: bits.simps [of n])
  have "pow2 (int (bits n) - 1) = of_nat (2 ^ (bits n - 1))"
  proof -
    have "nat (int (bits n) - 1) = bits n - 1" using pos by simp
    then show ?thesis using pos by (simp add: pow2_def)
  qed
  also have "\<dots> \<le> of_nat n"
    using bits_bounds [OF n] by (simp only: of_nat_le_iff)
  finally have "pow2 (int (bits n) - 1) \<le> of_nat n" .
  then show ?thesis by (simp add: ilog2_def q b1 Let_def)
qed

lemma round_half_even_of_int [simp]: "round_half_even (of_int i) = i"
  by (simp add: round_half_even_def)

lemma pow2_pos [simp]: "0 < pow2 e"
  by (simp add: pow2_def)

text \<open>Whole numbers up to \<open>2^53\<close> are exact.\<close>

lemma f64_round_of_nat:
  assumes "n \<le> 2 ^ 53"
  shows "f64_round (of_nat n) = of_nat n"
proof (cases "n = 0")
  case False
  define e where "e = ilog2 (of_nat n) - 52"
  have e: "e = int (bits n) - 53"
    using False by (simp add: e_def ilog2_of_nat)
  have "\<exists>i. (of_nat n :: rat) / pow2 e = of_int i"
  proof (cases "e \<le> 0")
    case True
    then have "(of_nat n :: rat) / pow2 e = of_nat n * 2 ^ nat (- e)"
      by (cases "e = 0") (simp_all add: pow2_def)
    then show ?thesis
      by (intro exI [of _ "int n * 2 ^ nat (- e)"]) simp
  next
    case e_pos: False
    have "n = 2 ^ 53"
    proof (rule ccontr)
      assume "n \<noteq> 2 ^ 53"
      then have "bits n \<le> 53" using assms False by (intro bits_le) auto
      with e e_pos show False by simp
    qed
    moreover have "bits (2 ^ 53) \<le> 54" by (rule bits_le) simp_all
    ultimately have "e = 1" using e e_pos by simp
    with \<open>n = 2 ^ 53\<close> have "(of_nat n :: rat) / pow2 e = of_int (2 ^ 52)"
      by (simp add: pow2_def)
    then show ?thesis by blast
  qed
  then obtain i where i: "(of_nat n :: rat) / pow2 e = of_int i" by blast
  then have "of_int i * pow2 e = (of_nat n :: rat)"
    by (metis nonzero_eq_divide_eq pow2_pos less_irrefl)
  with False i show ?thesis
    by (simp add: f64_round_def Let_def e_def [symmetric])
qed (simp add: f64_round_def)

lemma f64_round_0 [simp]: "f64_round 0 = 0"
  by (simp add: f64_round_def)

lemma f64_add_of_nat:
  "a + b \<le> 2 ^ 53 \<Longrightarrow> f64_add (of_nat a) (of_nat b) = of_nat (a + b)"
  using f64_round_of_nat [of "a + b"] by (simp add: f64_add_def)

subsection \<open>time.ParseDuration\<close>

text \<open>
  \<open>leadingInt\<close> and \<open>leadingFraction\<close> consume the digits before and after the point, with the
  overflow checks of the package; \<open>None\<close> is \<open>errLeadingInt\<close>.
\<close>

fun leadingInt :: "nat \<Rightarrow> string \<Rightarrow> (nat \<times> string) option" where
  "leadingInt x [] = Some (x, [])"
| "leadingInt x (c # s) =
     (if \<not> is_digit c then Some (x, c # s)
      else if 2 ^ 63 div 10 < x then None
      else let x' = x * 10 + (byte c - 48)
           in if 2 ^ 63 < x' then None else leadingInt x' s)"

fun leadingFraction :: "nat \<Rightarrow> f64 \<Rightarrow> bool \<Rightarrow> string \<Rightarrow> nat \<times> f64 \<times> string" where
  "leadingFraction x scale ovf [] = (x, scale, [])"
| "leadingFraction x scale ovf (c # s) =
     (if \<not> is_digit c then (x, scale, c # s)
      else if ovf then leadingFraction x scale True s
      else if (2 ^ 63 - 1) div 10 < x then leadingFraction x scale True s
      else let y = x * 10 + (byte c - 48)
           in if 2 ^ 63 < y then leadingFraction x scale True s
              else leadingFraction y (f64_mul scale 10) False s)"

definition unitMap :: "string \<rightharpoonup> nat" where
  "unitMap = map_of
     [(''ns'', 1),
      ([CHR 0xC2, CHR 0xB5, CHR ''s''], 1000),
      ([CHR 0xCE, CHR 0xBC, CHR ''s''], 1000),
      (''us'', 1000),
      (''ms'', 1000000),
      (''s'', 1000000000),
      (''m'', 60000000000),
      (''h'', 3600000000000)]"

definition is_unit_byte :: "char \<Rightarrow> bool" where
  "is_unit_byte c \<longleftrightarrow> c \<noteq> CHR ''.'' \<and> \<not> is_digit c"

text \<open>One round of the loop: a number and its unit; the value in nanoseconds and the rest.\<close>

definition duration_part :: "string \<Rightarrow> (nat \<times> string) option" where
  "duration_part s =
     (case s of
        [] \<Rightarrow> None
      | c # _ \<Rightarrow>
          if \<not> (c = CHR ''.'' \<or> is_digit c) then None
          else case leadingInt 0 s of
            None \<Rightarrow> None
          | Some (v, s1) \<Rightarrow>
              (let pre = (length s \<noteq> length s1);
                   frac = prefix ''.'' s1;
                   (f, scale, s2) = (if frac then leadingFraction 0 1 False (tl s1) else (0, 1, s1));
                   post = (frac \<and> length (tl s1) \<noteq> length s2);
                   u = takeWhile is_unit_byte s2;
                   s3 = dropWhile is_unit_byte s2
               in if \<not> pre \<and> \<not> post then None
                  else if u = [] then None
                  else case unitMap u of
                    None \<Rightarrow> None
                  | Some unit \<Rightarrow>
                      if 2 ^ 63 div unit < v then None
                      else let v1 = v * unit;
                               v2 = (if 0 < f
                                     then v1 + nat (f64_to_int (f64_mul (f64_of_int (int f))
                                                 (f64_div (of_nat unit) scale)))
                                     else v1)
                           in if 0 < f \<and> 2 ^ 63 < v2 then None else Some (v2, s3)))"

lemma leadingInt_rest: "leadingInt x s = Some (v, t) \<Longrightarrow> length t \<le> length s"
  by (induction x s rule: leadingInt.induct) (auto simp: Let_def intro: le_SucI split: if_splits)

lemma leadingFraction_length: "length (snd (snd (leadingFraction x sc b s))) \<le> length s"
  by (induction x sc b s rule: leadingFraction.induct) (auto simp: Let_def intro: le_SucI)

lemma leadingFraction_rest: "leadingFraction x sc b s = (v, sc', t) \<Longrightarrow> length t \<le> length s"
  using leadingFraction_length [of x sc b s] by simp

lemma duration_part_shorter:
  assumes "duration_part s = Some (v, t)"
  shows "length t < length s"
proof -
  from assms obtain n s1 f sc s2 where 1: "leadingInt 0 s = Some (n, s1)"
    and 2: "(if prefix ''.'' s1 then leadingFraction 0 1 False (tl s1) else (0, 1, s1)) = (f, sc, s2)"
    and 3: "takeWhile is_unit_byte s2 \<noteq> []" and 4: "t = dropWhile is_unit_byte s2"
    by (auto simp: duration_part_def Let_def split: list.splits if_splits option.splits prod.splits)
  from 3 4 have "length t < length s2"
    by (metis length_append length_greater_0_conv less_add_same_cancel2 takeWhile_dropWhile_id)
  also from 2 have "length s2 \<le> length s1"
    by (auto split: if_splits dest!: leadingFraction_rest)
  also from 1 have "length s1 \<le> length s" by (rule leadingInt_rest)
  finally show ?thesis .
qed

function duration_loop :: "nat \<Rightarrow> string \<Rightarrow> nat option" where
  "duration_loop d s =
     (if s = [] then Some d
      else case duration_part s of
        None \<Rightarrow> None
      | Some (v, t) \<Rightarrow>
          let d' = (d + v) mod 2 ^ 64 in if 2 ^ 63 < d' then None else duration_loop d' t)"
  by pat_completeness auto
termination
  by (relation "measure (\<lambda>(d, s). length s)") (auto dest: duration_part_shorter)

declare duration_loop.simps [simp del]

definition time_ParseDuration :: "string \<Rightarrow> duration option" where
  "time_ParseDuration s =
     (let neg = prefix ''-'' s;
          s1 = (if prefix ''-'' s \<or> prefix ''+'' s then tl s else s)
      in if s1 = ''0'' then Some 0
         else if s1 = [] then None
         else case duration_loop 0 s1 of
           None \<Rightarrow> None
         | Some d \<Rightarrow>
             if neg then Some (wrap64 (- wrap64 (int d)))
             else if 2 ^ 63 - 1 < d then None
             else Some (int d))"

lemma time_ParseDuration_range: "time_ParseDuration s = Some d \<Longrightarrow> in_int64 d"
  by (auto simp: time_ParseDuration_def Let_def in_int64_def [of "int _"] in_int64_def [of 0]
        split: if_splits option.splits)

text \<open>A whole number of one unit is read back exactly.\<close>

lemma leadingInt_digits:
  assumes "list_all is_digit ds" and "u = [] \<or> \<not> is_digit (hd u)"
    and "foldl (\<lambda>n c. 10 * n + (byte c - 48)) x ds \<le> 2 ^ 63"
  shows "leadingInt x (ds @ u) = Some (foldl (\<lambda>n c. 10 * n + (byte c - 48)) x ds, u)"
  using assms
proof (induction ds arbitrary: x)
  case Nil
  then show ?case by (cases u) auto
next
  case (Cons c ds)
  have mono: "x \<le> foldl (\<lambda>n c. 10 * n + (byte c - 48)) x ds" for x ds
  proof (induction ds arbitrary: x)
    case (Cons a ds)
    have "x \<le> 10 * x + (byte a - 48)" by simp
    also have "\<dots> \<le> foldl (\<lambda>n c. 10 * n + (byte c - 48)) (10 * x + (byte a - 48)) ds"
      by (rule Cons.IH)
    finally show ?case by simp
  qed simp
  from Cons.prems(3) have le: "10 * x + (byte c - 48) \<le> 2 ^ 63"
    using mono [of "10 * x + (byte c - 48)" ds] by simp
  with Cons show ?case by (simp add: Let_def mult.commute)
qed

lemma leadingInt_show_nat:
  "n \<le> 2 ^ 63 \<Longrightarrow> u = [] \<or> \<not> is_digit (hd u) \<Longrightarrow> leadingInt 0 (show_nat n @ u) = Some (n, u)"
  using leadingInt_digits [of "show_nat n" u 0] show_nat_digits [of n] digits_val_show_nat [of n]
  by (simp add: digits_val_def list_all_iff)

lemma hd_show_nat: "is_digit (hd (show_nat n))"
  using show_nat_digits [of n] by (metis show_nat_not_Nil hd_in_set)

lemma ParseDuration_unit:
  assumes unit: "unitMap u = Some k" and u: "u \<noteq> []" "list_all is_unit_byte u"
    and small: "n * k < 2 ^ 63" and k: "0 < k"
  shows "time_ParseDuration (show_nat n @ u) = Some (int (n * k))"
proof -
  obtain c cs where s: "show_nat n = c # cs" and c: "is_digit c"
    using hd_show_nat [of n] by (cases "show_nat n") auto
  have c': "c \<noteq> CHR ''-''" "c \<noteq> CHR ''+''"
    using c by (auto simp: is_digit_def byte_def)
  have hu: "is_unit_byte (hd u)"
    using u by (cases u) auto
  have "n * 1 \<le> n * k" using k by (intro mult_le_mono) auto
  with small have n: "n \<le> 2 ^ 63" by linarith
  have li: "leadingInt 0 (show_nat n @ u) = Some (n, u)"
    using n hu by (intro leadingInt_show_nat) (auto simp: is_unit_byte_def)
  have tw: "takeWhile is_unit_byte u = u" and dw: "dropWhile is_unit_byte u = []"
    using u(2) by (auto simp: list_all_iff)
  have np: "\<not> prefix ''.'' u"
    using hu by (auto simp: prefix_single is_unit_byte_def)
  have nk: "\<not> 2 ^ 63 div k < n"
    using small k by (simp add: not_less less_eq_div_iff_mult_less_eq)
  have part: "duration_part (show_nat n @ u) = Some (n * k, [])"
    unfolding duration_part_def using li c np unit nk u(1) s
    by (simp add: tw dw del: leadingInt.simps takeWhile_eq_all_conv dropWhile_eq_Nil_conv)
  have loop: "duration_loop 0 (show_nat n @ u) = Some (n * k)"
    using part small by (simp add: duration_loop.simps s Let_def)
  from u(1) show ?thesis
    using loop small c' by (simp add: time_ParseDuration_def s Let_def)
qed

subsection \<open>Duration.String\<close>

definition zero_pad :: "nat \<Rightarrow> nat \<Rightarrow> string" where
  "zero_pad k n = replicate (k - length (show_nat n)) CHR ''0'' @ show_nat n"

text \<open>\<open>fmtFrac\<close>: the fraction \<open>v / 10^prec\<close> without trailing zeros, and \<open>v div 10^prec\<close>.\<close>

definition fmtFrac :: "nat \<Rightarrow> nat \<Rightarrow> string \<times> nat" where
  "fmtFrac v prec =
     (let r = v mod 10 ^ prec;
          ds = rev (dropWhile (\<lambda>c. c = CHR ''0'') (rev (zero_pad prec r)))
      in (if r = 0 then [] else CHR ''.'' # ds, v div 10 ^ prec))"

definition duration_String :: "duration \<Rightarrow> string" where
  "duration_String d =
     (let u = nat \<bar>d\<bar>;
          sign = (if d < 0 then ''-'' else [])
      in sign @
        (if u < 1000000000 then
           (if u = 0 then ''0s''
            else let (prec, unit) =
                   (if u < 1000 then (0, ''ns'')
                    else if u < 1000000 then (3, [CHR 0xC2, CHR 0xB5, CHR ''s''])
                    else (6, ''ms''));
                   (frac, w) = fmtFrac u prec
                 in show_nat w @ frac @ unit)
         else
           let (frac, secs) = fmtFrac u 9;
               mins = secs div 60; hours = mins div 60
           in (if 0 < mins
               then (if 0 < hours then show_nat hours @ ''h'' else []) @ show_nat (mins mod 60) @ ''m''
               else [])
              @ show_nat (secs mod 60) @ frac @ ''s''))"

end
