(* ===== verification/Config.thy ===== *)
theory Config
  imports Go_Time
begin

text \<open>
  \<open>config.go\<close>: the configuration of a service as \<open>parseLabels\<close> reads it from the Docker labels
  of a container. A label map is a partial function; reading a missing label gives the empty
  string, as Go's map index does. The fields of \<open>config\<close> are those of the struct \<open>Config\<close>, in
  its order. The two defaults of the receiver (\<open>s.idleDefault\<close>, \<open>s.startTimeoutDefault\<close>) are
  arguments.
\<close>

type_synonym labels = "string \<rightharpoonup> string"

record config =
  Subdomain :: string
  Container :: string
  TargetPort :: int
  IdleTimeout :: duration
  StartupTimeout :: duration
  Title :: string
  Subtitle :: string
  Icon :: string
  Theme :: string
  ShowLogs :: bool
  ShowStats :: bool
  LiveLogs :: bool
  HealthPath :: string
  BootMessages :: "string list"
  DisableIdle :: bool
  Strategy :: string

record theme =
  BG :: string
  FG :: string
  Dim :: string
  Accent :: string
  Border :: string

definition themes :: "string \<rightharpoonup> theme" where
  "themes = map_of
    [(''green'', \<lparr>BG = ''#0a0e14'', FG = ''#00ff9c'', Dim = ''#2a4a3a'', Accent = ''#00d4ff'', Border = ''#1a2a22''\<rparr>),
     (''blue'', \<lparr>BG = ''#0a0f1a'', FG = ''#5cc8ff'', Dim = ''#2a3a4a'', Accent = ''#9d7cff'', Border = ''#1a2230''\<rparr>),
     (''amber'', \<lparr>BG = ''#1a1408'', FG = ''#ffb454'', Dim = ''#4a3a2a'', Accent = ''#ffd47c'', Border = ''#302218''\<rparr>),
     (''red'', \<lparr>BG = ''#1a0a0a'', FG = ''#ff5370'', Dim = ''#4a2a2a'', Accent = ''#ff8a9c'', Border = ''#301818''\<rparr>),
     (''purple'', \<lparr>BG = ''#100a1a'', FG = ''#c89cff'', Dim = ''#3a2a4a'', Accent = ''#7c9cff'', Border = ''#221830''\<rparr>)]"

definition defaultBootMessages :: string where
  "defaultBootMessages =
     ''warming up the process...|loading dependencies...|binding sockets...|initializing runtime...|almost there...''"

definition parseStrategy :: "string \<Rightarrow> string" where
  "parseStrategy s = (if s = ''pause'' then ''pause'' else ''stop'')"

text \<open>\<open>splitNonEmpty(s, sep)\<close> for a one-byte separator, as its only call has it; Go's \<open>nil\<close> and
  the empty slice are both \<open>[]\<close>.\<close>

definition splitNonEmpty :: "string \<Rightarrow> char \<Rightarrow> string list" where
  "splitNonEmpty s sep =
     (if s = [] then []
      else let out = filter (\<lambda>p. p \<noteq> []) (strings_Split sep s)
           in if out = [] then [] else out)"

abbreviation label_of :: "labels \<Rightarrow> string \<Rightarrow> string" where
  "label_of labels k \<equiv> lookup_or [] labels k"

text \<open>A timeout label that is present and parses overrides the default.\<close>

definition timeout_label :: "labels \<Rightarrow> string \<Rightarrow> duration \<Rightarrow> duration" where
  "timeout_label labels k dflt =
     (let t = label_of labels k
      in if t \<noteq> [] then (case time_ParseDuration t of Some d \<Rightarrow> d | None \<Rightarrow> dflt) else dflt)"

text \<open>The configuration that \<open>parseLabels\<close> builds once its three checks have passed.\<close>

definition config_of_labels :: "duration \<Rightarrow> duration \<Rightarrow> labels \<Rightarrow> int \<Rightarrow> config" where
  "config_of_labels idleDefault startTimeoutDefault labels port =
     (let theme = label_of labels ''docknap.theme'';
          b = label_of labels ''docknap.boot_messages'';
          boot = (if b \<noteq> [] then b else defaultBootMessages)
      in \<lparr>Subdomain = label_of labels ''docknap.subdomain'',
          Container = [],
          TargetPort = port,
          IdleTimeout = timeout_label labels ''docknap.idle_timeout'' idleDefault,
          StartupTimeout = timeout_label labels ''docknap.startup_timeout'' startTimeoutDefault,
          Title = label_of labels ''docknap.title'',
          Subtitle = label_of labels ''docknap.subtitle'',
          Icon = label_of labels ''docknap.icon'',
          Theme = (if theme = [] then ''green'' else theme),
          ShowLogs = (label_of labels ''docknap.show_logs'' \<noteq> ''false''),
          ShowStats = (label_of labels ''docknap.show_stats'' \<noteq> ''false''),
          LiveLogs = (label_of labels ''docknap.live_logs'' = ''true''),
          HealthPath = label_of labels ''docknap.health_path'',
          BootMessages = splitNonEmpty boot CHR ''|'',
          DisableIdle = (label_of labels ''docknap.disable_idle'' = ''true''),
          Strategy = parseStrategy (label_of labels ''docknap.strategy'')\<rparr>)"

definition parseLabels :: "duration \<Rightarrow> duration \<Rightarrow> labels \<Rightarrow> config option" where
  "parseLabels idleDefault startTimeoutDefault labels =
     (if label_of labels ''docknap.enable'' \<noteq> ''true'' then None
      else if label_of labels ''docknap.subdomain'' = [] then None
      else let portStr = label_of labels ''docknap.target_port''
      in if portStr = [] then None
      else case strconv_Atoi portStr of
        None \<Rightarrow> None
      | Some port \<Rightarrow> Some (config_of_labels idleDefault startTimeoutDefault labels port))"

subsection \<open>Lemmas\<close>

lemma splitNonEmpty_eq: "splitNonEmpty s sep = filter (\<lambda>p. p \<noteq> []) (strings_Split sep s)"
  by (simp add: splitNonEmpty_def Let_def)

lemma splitNonEmpty_Join:
  assumes "xs \<noteq> []" "\<And>x. x \<in> set xs \<Longrightarrow> x \<noteq> [] \<and> c \<notin> set x"
  shows "splitNonEmpty (strings_Join xs [c]) c = xs"
  using assms Split_Join [of xs c] by (simp add: splitNonEmpty_eq filter_id_conv)

lemma timeout_label_range: "in_int64 dflt \<Longrightarrow> in_int64 (timeout_label labels k dflt)"
  by (auto simp: timeout_label_def Let_def dest: time_ParseDuration_range split: option.splits)

lemma Atoi_Nil [simp]: "strconv_Atoi [] = None"
  by (simp add: strconv_Atoi_def atoi_body_def)

lemma parseLabels_eq_Some:
  "parseLabels i st labels = Some c \<longleftrightarrow>
    label_of labels ''docknap.enable'' = ''true'' \<and> label_of labels ''docknap.subdomain'' \<noteq> [] \<and>
    (\<exists>p. strconv_Atoi (label_of labels ''docknap.target_port'') = Some p \<and> c = config_of_labels i st labels p)"
  by (cases "label_of labels ''docknap.target_port''"; cases "strconv_Atoi (label_of labels ''docknap.target_port'')")
     (auto simp: parseLabels_def Let_def)

lemma config_of_labels_sel [simp]:
  "Subdomain (config_of_labels i st labels p) = label_of labels ''docknap.subdomain''"
  "Container (config_of_labels i st labels p) = []"
  "TargetPort (config_of_labels i st labels p) = p"
  "IdleTimeout (config_of_labels i st labels p) = timeout_label labels ''docknap.idle_timeout'' i"
  "StartupTimeout (config_of_labels i st labels p) = timeout_label labels ''docknap.startup_timeout'' st"
  "Strategy (config_of_labels i st labels p) = parseStrategy (label_of labels ''docknap.strategy'')"
  "Theme (config_of_labels i st labels p) \<noteq> []"
  by (simp_all add: config_of_labels_def Let_def)

lemma config_of_labels_BootMessages:
  "m \<in> set (BootMessages (config_of_labels i st labels p)) \<Longrightarrow> m \<noteq> [] \<and> CHR ''|'' \<notin> set m"
  by (auto simp: config_of_labels_def Let_def splitNonEmpty_eq dest: Split_no_sep)

lemma parseLabels_Some:
  "parseLabels i st labels = Some c \<Longrightarrow>
    label_of labels ''docknap.enable'' = ''true'' \<and> Subdomain c = label_of labels ''docknap.subdomain'' \<and>
    Subdomain c \<noteq> [] \<and> Container c = []"
  by (auto simp: parseLabels_eq_Some)

text \<open>What a configuration read from labels always satisfies.\<close>

definition wf_config :: "config \<Rightarrow> bool" where
  "wf_config c \<longleftrightarrow>
     Subdomain c \<noteq> [] \<and> in_int64 (TargetPort c) \<and> in_int64 (IdleTimeout c) \<and>
     in_int64 (StartupTimeout c) \<and> Theme c \<noteq> [] \<and> Strategy c \<in> {''stop'', ''pause''} \<and>
     (\<forall>m \<in> set (BootMessages c). m \<noteq> [] \<and> CHR ''|'' \<notin> set m)"

lemma wf_config_Container [simp]: "wf_config (c\<lparr>Container := n\<rparr>) = wf_config c"
  by (simp add: wf_config_def)

text \<open>A set of labels that describes a given configuration, with durations in nanoseconds.\<close>

definition labels_for :: "config \<Rightarrow> labels" where
  "labels_for c = map_of
     [(''docknap.enable'', ''true''),
      (''docknap.subdomain'', Subdomain c),
      (''docknap.target_port'', strconv_Itoa (TargetPort c)),
      (''docknap.idle_timeout'', show_nat (nat (IdleTimeout c)) @ ''ns''),
      (''docknap.startup_timeout'', show_nat (nat (StartupTimeout c)) @ ''ns''),
      (''docknap.title'', Title c),
      (''docknap.subtitle'', Subtitle c),
      (''docknap.icon'', Icon c),
      (''docknap.theme'', Theme c),
      (''docknap.show_logs'', if ShowLogs c then ''true'' else ''false''),
      (''docknap.show_stats'', if ShowStats c then ''true'' else ''false''),
      (''docknap.live_logs'', if LiveLogs c then ''true'' else ''false''),
      (''docknap.health_path'', HealthPath c),
      (''docknap.boot_messages'', strings_Join (BootMessages c) ''|''),
      (''docknap.disable_idle'', if DisableIdle c then ''true'' else ''false''),
      (''docknap.strategy'', Strategy c)]"

lemma labels_for_lookup:
  "labels_for c ''docknap.enable'' = Some ''true''"
  "labels_for c ''docknap.subdomain'' = Some (Subdomain c)"
  "labels_for c ''docknap.target_port'' = Some (strconv_Itoa (TargetPort c))"
  "labels_for c ''docknap.idle_timeout'' = Some (show_nat (nat (IdleTimeout c)) @ ''ns'')"
  "labels_for c ''docknap.startup_timeout'' = Some (show_nat (nat (StartupTimeout c)) @ ''ns'')"
  "labels_for c ''docknap.title'' = Some (Title c)"
  "labels_for c ''docknap.subtitle'' = Some (Subtitle c)"
  "labels_for c ''docknap.icon'' = Some (Icon c)"
  "labels_for c ''docknap.theme'' = Some (Theme c)"
  "labels_for c ''docknap.show_logs'' = Some (if ShowLogs c then ''true'' else ''false'')"
  "labels_for c ''docknap.show_stats'' = Some (if ShowStats c then ''true'' else ''false'')"
  "labels_for c ''docknap.live_logs'' = Some (if LiveLogs c then ''true'' else ''false'')"
  "labels_for c ''docknap.health_path'' = Some (HealthPath c)"
  "labels_for c ''docknap.boot_messages'' = Some (strings_Join (BootMessages c) ''|'')"
  "labels_for c ''docknap.disable_idle'' = Some (if DisableIdle c then ''true'' else ''false'')"
  "labels_for c ''docknap.strategy'' = Some (Strategy c)"
  unfolding labels_for_def by simp_all

lemma ParseDuration_ns: "0 \<le> d \<Longrightarrow> d < 2 ^ 63 \<Longrightarrow> time_ParseDuration (show_nat (nat d) @ ''ns'') = Some d"
  using ParseDuration_unit [of "''ns''" 1 "nat d"]
  by (simp add: unitMap_def is_unit_byte_def is_digit_def byte_def)

lemma Itoa_not_Nil [simp]: "strconv_Itoa i \<noteq> []"
  by (simp add: strconv_Itoa_def show_int_def)

lemma strings_Join_not_Nil: "xs \<noteq> [] \<Longrightarrow> (\<And>x. x \<in> set xs \<Longrightarrow> x \<noteq> []) \<Longrightarrow> strings_Join xs sep \<noteq> []"
  by (cases xs rule: remdups_adj.cases) auto

lemma timeout_label_ns:
  "labels k = Some (show_nat (nat d) @ ''ns'') \<Longrightarrow> 0 \<le> d \<Longrightarrow> d < 2 ^ 63 \<Longrightarrow>
    timeout_label labels k dflt = d"
  by (simp add: timeout_label_def Let_def ParseDuration_ns)

subsection \<open>Properties\<close>

text \<open>Opt-in. A container is managed exactly when its label \<open>docknap.enable\<close> is \<open>true\<close>, its
  subdomain label is not empty and its port label is a decimal number that fits 64 bits; every
  other malformed label falls back to a default instead of rejecting the container.\<close>

theorem parseLabels_accepts_iff:
  "(\<exists>c. parseLabels i st labels = Some c) \<longleftrightarrow>
    label_of labels ''docknap.enable'' = ''true'' \<and>
    label_of labels ''docknap.subdomain'' \<noteq> [] \<and>
    (\<exists>p. strconv_Atoi (label_of labels ''docknap.target_port'') = Some p)"
  by (auto simp: parseLabels_eq_Some)

text \<open>C23: Normal form. Whatever the labels say, an accepted configuration has a subdomain, a theme
  name, one of the two strategies, 64-bit numbers and boot messages none of which is empty.\<close>

theorem parseLabels_wf:
  assumes "parseLabels i st labels = Some c" "in_int64 i" "in_int64 st"
  shows "wf_config c"
proof -
  from assms(1) obtain p where sub: "label_of labels ''docknap.subdomain'' \<noteq> []"
    and p: "strconv_Atoi (label_of labels ''docknap.target_port'') = Some p"
    and c: "c = config_of_labels i st labels p"
    by (auto simp: parseLabels_eq_Some)
  have "parseStrategy x \<in> {''stop'', ''pause''}" for x by (simp add: parseStrategy_def)
  with sub Atoi_range [OF p] config_of_labels_BootMessages assms(2,3) show ?thesis
    unfolding wf_config_def c by (simp add: timeout_label_range in_int64_def [of p])
qed

theorem parseLabels_wf_witness:
  "\<exists>c. parseLabels Minute Second
     [''docknap.enable'' \<mapsto> ''true'', ''docknap.subdomain'' \<mapsto> ''app'', ''docknap.target_port'' \<mapsto> ''80'',
      ''docknap.boot_messages'' \<mapsto> ''a||b''] = Some c \<and> wf_config c"
proof -
  let ?l = "[''docknap.enable'' \<mapsto> ''true'', ''docknap.subdomain'' \<mapsto> ''app'',
    ''docknap.target_port'' \<mapsto> ''80'', ''docknap.boot_messages'' \<mapsto> ''a||b'']"
  have "strconv_Atoi ''80'' = Some 80"
    by (simp add: strconv_Atoi_def atoi_body_def is_digit_def byte_def digits_val_def)
  then obtain c where c: "parseLabels Minute Second ?l = Some c"
    using parseLabels_accepts_iff [of Minute Second ?l] by (auto simp: lookup_or_def)
  with parseLabels_wf [OF c] show ?thesis
    by (auto simp: in_int64_def Minute_def Second_def)
qed

text \<open>C22: Every configuration can be written as labels. The labels of a well-formed configuration
  with non-negative timeouts and at least one boot message are read back as that
  configuration (with the container name still to be filled in), whatever the defaults.\<close>

theorem parseLabels_labels_for:
  assumes "wf_config c" "0 \<le> IdleTimeout c" "0 \<le> StartupTimeout c" "BootMessages c \<noteq> []"
  shows "parseLabels i st (labels_for c) = Some (c\<lparr>Container := []\<rparr>)"
proof -
  have d: "IdleTimeout c < 2 ^ 63" "StartupTimeout c < 2 ^ 63"
    using assms(1) by (auto simp: wf_config_def in_int64_def)
  have "timeout_label (labels_for c) ''docknap.idle_timeout'' i = IdleTimeout c"
    by (rule timeout_label_ns) (use assms d in \<open>simp_all add: labels_for_lookup\<close>)
  moreover have "timeout_label (labels_for c) ''docknap.startup_timeout'' st = StartupTimeout c"
    by (rule timeout_label_ns) (use assms d in \<open>simp_all add: labels_for_lookup\<close>)
  moreover have "splitNonEmpty (strings_Join (BootMessages c) ''|'') CHR ''|'' = BootMessages c"
    using assms by (intro splitNonEmpty_Join) (auto simp: wf_config_def)
  moreover have "strings_Join (BootMessages c) ''|'' \<noteq> []"
    using assms by (intro strings_Join_not_Nil) (auto simp: wf_config_def)
  moreover have "parseStrategy (Strategy c) = Strategy c" "Theme c \<noteq> []"
    using assms(1) by (auto simp: wf_config_def parseStrategy_def)
  ultimately have "config_of_labels i st (labels_for c) (TargetPort c) = c\<lparr>Container := []\<rparr>"
    by (simp add: config_of_labels_def Let_def lookup_or_def labels_for_lookup)
  moreover have "strconv_Atoi (strconv_Itoa (TargetPort c)) = Some (TargetPort c)"
    using assms(1) by (intro Atoi_Itoa) (auto simp: wf_config_def in_int64_def)
  moreover have "Subdomain c \<noteq> []" using assms(1) by (simp add: wf_config_def)
  ultimately show ?thesis
    by (simp add: parseLabels_eq_Some lookup_or_def labels_for_lookup)
qed

theorem parseLabels_labels_for_witness:
  "parseLabels 0 0 (labels_for \<lparr>Subdomain = ''app'', Container = ''c'', TargetPort = 80, IdleTimeout = 5,
      StartupTimeout = 7, Title = ''t'', Subtitle = [], Icon = [], Theme = ''blue'', ShowLogs = True,
      ShowStats = False, LiveLogs = False, HealthPath = ''/h'', BootMessages = [''a'', ''b''],
      DisableIdle = False, Strategy = ''pause''\<rparr>)
    = Some \<lparr>Subdomain = ''app'', Container = [], TargetPort = 80, IdleTimeout = 5,
      StartupTimeout = 7, Title = ''t'', Subtitle = [], Icon = [], Theme = ''blue'', ShowLogs = True,
      ShowStats = False, LiveLogs = False, HealthPath = ''/h'', BootMessages = [''a'', ''b''],
      DisableIdle = False, Strategy = ''pause''\<rparr>"
  by (subst parseLabels_labels_for) (simp_all add: wf_config_def in_int64_def)

end
