(* ===== verification/Sessions.thy ===== *)
theory Sessions
  imports Go_Time Go_Encoding
begin

text \<open>
  \<open>sessions.go\<close>: the in-memory store of login sessions. The clock readings (\<open>time.Now\<close>,
  \<open>time.Since\<close>) and the outcome of \<open>rand.Read\<close> are arguments of the operations, in the order
  the code takes them; each operation runs under the store's mutex, so a run of the store is a
  sequence of operations (\<open>session_op\<close>). The locale \<open>session_service\<close> states what the login
  code relies on: a session lives from its issue for a fixed lifetime unless it is revoked,
  and collecting garbage is invisible. It is interpreted on the store.
\<close>

record sessionToken =
  createdAt :: time
  lastUsed :: time

record sessionStore =
  tokens :: "(string, sessionToken) gomap"
  ttl :: duration

definition newSessionStore :: "duration \<Rightarrow> sessionStore" where
  "newSessionStore d = \<lparr>tokens = [], ttl = d\<rparr>"

definition session_gcLocked :: "time \<Rightarrow> sessionStore \<Rightarrow> sessionStore" where
  "session_gcLocked now s =
     s\<lparr>tokens := filter (\<lambda>(k, t). \<not> ttl s < time_Sub now (lastUsed t)) (tokens s)\<rparr>"

definition session_issue :: "err + string \<Rightarrow> time \<Rightarrow> sessionStore \<Rightarrow> (err + string) \<times> sessionStore" where
  "session_issue rand now s =
     (case rand of
        Inl e \<Rightarrow> (Inl e, s)
      | Inr b \<Rightarrow>
          let tok = rawurl_EncodeToString b;
              s1 = s\<lparr>tokens := AList.update tok \<lparr>createdAt = now, lastUsed = now\<rparr> (tokens s)\<rparr>
          in (Inr tok, session_gcLocked now s1))"

definition session_valid :: "time \<Rightarrow> time \<Rightarrow> string \<Rightarrow> sessionStore \<Rightarrow> bool \<times> sessionStore" where
  "session_valid now now' tok s =
     (if tok = [] then (False, s)
      else case map_of (tokens s) tok of
        None \<Rightarrow> (False, s)
      | Some t \<Rightarrow>
          if ttl s < time_Sub now (createdAt t)
          then (False, s\<lparr>tokens := AList.delete tok (tokens s)\<rparr>)
          else (True, s\<lparr>tokens := AList.update tok (t\<lparr>lastUsed := now'\<rparr>) (tokens s)\<rparr>))"

definition session_revoke :: "string \<Rightarrow> sessionStore \<Rightarrow> sessionStore" where
  "session_revoke tok s = (if tok = [] then s else s\<lparr>tokens := AList.delete tok (tokens s)\<rparr>)"

definition session_gc :: "time \<Rightarrow> sessionStore \<Rightarrow> sessionStore" where
  "session_gc now s = session_gcLocked now s"

subsection \<open>Runs of the store\<close>

datatype session_op =
    OpIssue "err + string" time
  | OpValid time time string
  | OpRevoke string
  | OpGC time

fun session_step :: "session_op \<Rightarrow> sessionStore \<Rightarrow> sessionStore" where
  "session_step (OpIssue r now) s = snd (session_issue r now s)"
| "session_step (OpValid n n' tok) s = snd (session_valid n n' tok s)"
| "session_step (OpRevoke tok) s = session_revoke tok s"
| "session_step (OpGC now) s = session_gc now s"

text \<open>
  A clock that does not run backwards: every reading is at least the one before, starting at
  \<open>t\<close>. \<open>rand.Read\<close> fills the 32 bytes it is given or fails.
\<close>

fun clocked :: "time \<Rightarrow> session_op list \<Rightarrow> bool" where
  "clocked t [] = True"
| "clocked t (OpIssue r now # ops) =
     (t \<le> now \<and> (case r of Inr b \<Rightarrow> length b = 32 | Inl e \<Rightarrow> True) \<and> clocked now ops)"
| "clocked t (OpValid n n' tok # ops) = (t \<le> n \<and> n \<le> n' \<and> clocked n' ops)"
| "clocked t (OpRevoke tok # ops) = clocked t ops"
| "clocked t (OpGC now # ops) = (t \<le> now \<and> clocked now ops)"

fun end_clock :: "time \<Rightarrow> session_op list \<Rightarrow> time" where
  "end_clock t [] = t"
| "end_clock t (OpIssue r now # ops) = end_clock now ops"
| "end_clock t (OpValid n n' tok # ops) = end_clock n' ops"
| "end_clock t (OpRevoke tok # ops) = end_clock t ops"
| "end_clock t (OpGC now # ops) = end_clock now ops"

text \<open>The operations that change the fate of a given token: issuing it (again), revoking it.\<close>

fun touches :: "string \<Rightarrow> session_op \<Rightarrow> bool" where
  "touches tok (OpIssue (Inr b) now) = (rawurl_EncodeToString b = tok)"
| "touches tok (OpRevoke tok') = (tok' = tok)"
| "touches tok _ = False"

fun issues :: "string \<Rightarrow> session_op \<Rightarrow> bool" where
  "issues tok (OpIssue (Inr b) now) = (rawurl_EncodeToString b = tok)"
| "issues tok _ = False"

lemma touches_iff: "touches tok op \<longleftrightarrow> issues tok op \<or> op = OpRevoke tok"
  by (cases "(tok, op)" rule: touches.cases) auto

lemma clocked_end: "clocked t ops \<Longrightarrow> t \<le> end_clock t ops"
  by (induction t ops rule: clocked.induct) auto

subsection \<open>The contract\<close>

locale session_service =
  fixes step :: "session_op \<Rightarrow> 's \<Rightarrow> 's"
    and ask :: "time \<Rightarrow> time \<Rightarrow> string \<Rightarrow> 's \<Rightarrow> bool"
    and live_at :: "'s \<Rightarrow> time \<Rightarrow> string \<Rightarrow> bool"
    and ok :: "'s \<Rightarrow> time \<Rightarrow> bool"
    and life :: "'s \<Rightarrow> duration"
  assumes ok_step: "ok s u \<Longrightarrow> clocked u [op] \<Longrightarrow> ok (step op s) (end_clock u [op])"
    and life_step: "life (step op s) = life s"
    and ask_live: "ok s u \<Longrightarrow> ask n n' tok s \<longleftrightarrow> tok \<noteq> [] \<and> live_at s n tok"
    and live_issue: "ok s u \<Longrightarrow> u \<le> now \<Longrightarrow> length b = 32 \<Longrightarrow> now \<le> t \<Longrightarrow>
          live_at (step (OpIssue (Inr b) now) s) t tok \<longleftrightarrow>
          (if tok = rawurl_EncodeToString b then t - now \<le> life s else live_at s t tok)"
    and live_revoke: "ok s u \<Longrightarrow> tok' \<noteq> [] \<Longrightarrow>
          live_at (step (OpRevoke tok') s) t tok \<longleftrightarrow> tok \<noteq> tok' \<and> live_at s t tok"
    and live_other: "ok s u \<Longrightarrow> \<not> touches tok op \<Longrightarrow> clocked u [op] \<Longrightarrow> end_clock u [op] \<le> t \<Longrightarrow>
          live_at (step op s) t tok \<longleftrightarrow> live_at s t tok"
begin

lemma clocked_Cons: "clocked t (op # ops) \<longleftrightarrow> clocked t [op] \<and> clocked (end_clock t [op]) ops"
  by (cases op) auto

lemma end_clock_Cons: "end_clock t (op # ops) = end_clock (end_clock t [op]) ops"
  by (cases op) auto

lemma ok_run: "ok s u \<Longrightarrow> clocked u ops \<Longrightarrow> ok (fold step ops s) (end_clock u ops)"
proof (induction ops arbitrary: s u)
  case (Cons op ops)
  then show ?case
    by (simp add: clocked_Cons [of u op ops] end_clock_Cons [of u op ops] ok_step)
qed simp

lemma untouched_run:
  assumes "ok s u" "clocked u ops" "end_clock u ops \<le> t" "\<And>op. op \<in> set ops \<Longrightarrow> \<not> touches tok op"
  shows "live_at (fold step ops s) t tok \<longleftrightarrow> live_at s t tok"
  using assms
proof (induction ops arbitrary: s u)
  case (Cons op ops)
  from Cons.prems(2) have c: "clocked u [op]" "clocked (end_clock u [op]) ops"
    by (simp_all add: clocked_Cons [of u op ops])
  have e: "end_clock (end_clock u [op]) ops \<le> t"
    using Cons.prems(3) by (simp add: end_clock_Cons [of u op ops])
  then have "end_clock u [op] \<le> t" using clocked_end [OF c(2)] by simp
  then have "live_at (step op s) t tok \<longleftrightarrow> live_at s t tok"
    using Cons.prems c(1) by (intro live_other) auto
  moreover have "live_at (fold step ops (step op s)) t tok \<longleftrightarrow> live_at (step op s) t tok"
    by (rule Cons.IH [OF ok_step [OF Cons.prems(1) c(1)] c(2) e]) (simp add: Cons.prems(4))
  ultimately show ?case by simp
qed simp

text \<open>A session lives from its issue for \<open>life\<close>, whatever happens to other sessions.\<close>

lemma lifetime:
  assumes "ok s u" "u \<le> now" "length b = 32" "clocked now ops" "end_clock now ops \<le> t"
    and "\<And>op. op \<in> set ops \<Longrightarrow> \<not> touches (rawurl_EncodeToString b) op"
  shows "ask t t' (rawurl_EncodeToString b) (fold step ops (step (OpIssue (Inr b) now) s)) \<longleftrightarrow>
    t - now \<le> life s"
proof -
  let ?s = "step (OpIssue (Inr b) now) s" and ?tok = "rawurl_EncodeToString b"
  have ok: "ok ?s now" using ok_step [of s u "OpIssue (Inr b) now"] assms(1,2,3) by simp
  have "now \<le> t" using clocked_end [OF assms(4)] assms(5) by simp
  then have "live_at (fold step ops ?s) t ?tok \<longleftrightarrow> t - now \<le> life s"
    using untouched_run [OF ok assms(4,5,6)] live_issue [OF assms(1,2,3)] by auto
  moreover have "?tok \<noteq> []" using length_rawurl_32 [OF assms(3)] by auto
  ultimately show ?thesis
    using ask_live [OF ok_run [OF ok assms(4)]] by simp
qed

text \<open>A revoked session stays dead until it is issued again.\<close>

lemma dead_run:
  assumes "ok s u" "clocked u ops" "end_clock u ops \<le> t" "\<And>op. op \<in> set ops \<Longrightarrow> \<not> issues tok op"
    and "tok \<noteq> []" and "\<And>v. u \<le> v \<Longrightarrow> \<not> live_at s v tok"
  shows "\<not> live_at (fold step ops s) t tok"
  using assms
proof (induction ops arbitrary: s u)
  case (Cons op ops)
  from Cons.prems(2) have c: "clocked u [op]" "clocked (end_clock u [op]) ops"
    by (simp_all add: clocked_Cons [of u op ops])
  have dead: "\<not> live_at (step op s) v tok" if v: "end_clock u [op] \<le> v" for v
  proof (cases "touches tok op")
    case True
    with Cons.prems(4) [of op] have "op = OpRevoke tok"
      by (simp add: touches_iff)
    then show ?thesis using live_revoke Cons.prems(1,5) by simp
  next
    case False
    have "u \<le> v" using clocked_end [OF c(1)] v by simp
    with False Cons.prems(1,6) c(1) v show ?thesis using live_other by blast
  qed
  have e: "end_clock (end_clock u [op]) ops \<le> t"
    using Cons.prems(3) by (simp add: end_clock_Cons [of u op ops])
  have "\<not> live_at (fold step ops (step op s)) t tok"
    by (rule Cons.IH [OF ok_step [OF Cons.prems(1) c(1)] c(2) e])
       (use Cons.prems(4,5) dead in auto)
  then show ?case by simp
qed simp

lemma revoked:
  assumes "ok s u" "clocked u ops" "end_clock u ops \<le> t" "\<And>op. op \<in> set ops \<Longrightarrow> \<not> issues tok op"
  shows "\<not> ask t t' tok (fold step ops (step (OpRevoke tok) s))"
proof (cases "tok = []")
  case False
  have ok: "ok (step (OpRevoke tok) s) u" using ok_step [of s u "OpRevoke tok"] assms(1) by simp
  have "\<not> live_at (fold step ops (step (OpRevoke tok) s)) t tok"
    using live_revoke [OF assms(1) False] False
    by (intro dead_run [OF ok assms(2,3)]) (auto simp: assms(4))
  then show ?thesis using ask_live [OF ok_run [OF ok assms(2)]] by simp
next
  case True
  have "ok (step (OpRevoke tok) s) u" using ok_step [of s u "OpRevoke tok"] assms(1) by simp
  from ask_live [OF ok_run [OF this assms(2)]] True show ?thesis by simp
qed

end

subsection \<open>The store meets the contract\<close>

text \<open>A session of the store is live at a time if it was created at most the lifetime before.\<close>

definition session_live :: "sessionStore \<Rightarrow> time \<Rightarrow> string \<Rightarrow> bool" where
  "session_live s t tok =
     (case map_of (tokens s) tok of None \<Rightarrow> False | Some st \<Rightarrow> t - createdAt st \<le> ttl s)"

text \<open>The invariant: distinct keys, a lifetime below the largest duration (so that the saturating
  subtraction of the code decides correctly), and no session used before it was created or
  created after the clock \<open>u\<close>.\<close>

definition wf_sessions :: "sessionStore \<Rightarrow> time \<Rightarrow> bool" where
  "wf_sessions s u \<longleftrightarrow>
     wf_gomap (tokens s) \<and> in_int64 (ttl s) \<and> ttl s < 2 ^ 63 - 1 \<and>
     (\<forall>k st. map_of (tokens s) k = Some st \<longrightarrow> createdAt st \<le> lastUsed st \<and> lastUsed st \<le> u)"

lemma expired_iff:
  "wf_sessions s u \<Longrightarrow> ttl s < time_Sub t c \<longleftrightarrow> ttl s < t - c"
  by (auto simp: wf_sessions_def time_Sub_def sat64_less_iff)

lemma lookup_gc:
  assumes "wf_sessions s u"
  shows "map_of (tokens (session_gcLocked now s)) k =
    (case map_of (tokens s) k of
       None \<Rightarrow> None
     | Some st \<Rightarrow> if ttl s < now - lastUsed st then None else Some st)"
  using assms
  by (simp add: session_gcLocked_def map_of_filter_wf wf_sessions_def
        expired_iff [OF assms] split: option.splits)

lemma gc_ttl [simp]: "ttl (session_gcLocked now s) = ttl s"
  by (simp add: session_gcLocked_def)

lemma wf_gc: "wf_sessions s u \<Longrightarrow> u \<le> now \<Longrightarrow> wf_sessions (session_gcLocked now s) now"
  using lookup_gc [of s u now]
  by (auto simp: wf_sessions_def session_gcLocked_def split: option.splits if_splits)
     fastforce+

text \<open>Collecting garbage removes only sessions that are dead.\<close>

lemma live_gc:
  assumes "wf_sessions s u" "now \<le> t"
  shows "session_live (session_gcLocked now s) t tok = session_live s t tok"
proof (cases "map_of (tokens s) tok")
  case None
  then show ?thesis using lookup_gc [OF assms(1)] by (simp add: session_live_def)
next
  case (Some st)
  then have "createdAt st \<le> lastUsed st" using assms(1) by (simp add: wf_sessions_def)
  with Some assms(2) show ?thesis
    using lookup_gc [OF assms(1), of now tok] by (auto simp: session_live_def)
qed

lemma wf_sessions_mono: "wf_sessions s u \<Longrightarrow> u \<le> v \<Longrightarrow> wf_sessions s v"
  by (fastforce simp: wf_sessions_def)

lemma wf_put:
  "wf_sessions s u \<Longrightarrow> createdAt st \<le> lastUsed st \<Longrightarrow> lastUsed st \<le> u \<Longrightarrow>
    wf_sessions (s\<lparr>tokens := AList.update k st (tokens s)\<rparr>) u"
  by (auto simp: wf_sessions_def)

lemma wf_drop: "wf_sessions s u \<Longrightarrow> wf_sessions (s\<lparr>tokens := AList.delete k (tokens s)\<rparr>) u"
  by (auto simp: wf_sessions_def split: if_splits)

lemma wf_revoke: "wf_sessions s u \<Longrightarrow> wf_sessions (session_revoke k s) u"
  by (simp add: session_revoke_def wf_drop)

lemma wf_issue:
  "wf_sessions s u \<Longrightarrow> u \<le> now \<Longrightarrow> wf_sessions (snd (session_issue r now s)) now"
  by (auto simp: session_issue_def Let_def split: sum.splits
        intro!: wf_gc [of _ now] wf_put intro: wf_sessions_mono)

lemma wf_valid:
  assumes "wf_sessions s u" "u \<le> n" "n \<le> n'"
  shows "wf_sessions (snd (session_valid n n' tok s)) n'"
proof -
  have w: "wf_sessions s n'" using assms by (auto intro: wf_sessions_mono)
  then show ?thesis
    using assms by (auto simp: session_valid_def wf_drop split: option.splits intro!: wf_put)
       (fastforce simp: wf_sessions_def)
qed

lemma wf_step:
  "wf_sessions s u \<Longrightarrow> clocked u [op] \<Longrightarrow> wf_sessions (session_step op s) (end_clock u [op])"
  by (cases op) (auto simp: wf_issue wf_valid wf_revoke session_gc_def wf_gc)

lemma step_ttl [simp]: "ttl (session_step op s) = ttl s"
  by (cases op)
     (auto simp: session_issue_def session_valid_def session_revoke_def session_gc_def Let_def
       split: sum.splits option.splits)

lemma valid_iff:
  "wf_sessions s u \<Longrightarrow> fst (session_valid n n' tok s) \<longleftrightarrow> tok \<noteq> [] \<and> session_live s n tok"
  by (auto simp: session_valid_def session_live_def expired_iff split: option.splits)

lemma live_put:
  "session_live (s\<lparr>tokens := AList.update k st (tokens s)\<rparr>) t tok =
    (if tok = k then t - createdAt st \<le> ttl s else session_live s t tok)"
  by (simp add: session_live_def split: option.splits)

lemma live_drop:
  "session_live (s\<lparr>tokens := AList.delete k (tokens s)\<rparr>) t tok = (tok \<noteq> k \<and> session_live s t tok)"
  by (simp add: session_live_def split: option.splits)

lemma live_valid:
  assumes "wf_sessions s u" "n \<le> t"
  shows "session_live (snd (session_valid n n' k s)) t tok = session_live s t tok"
proof (cases "k = [] \<or> map_of (tokens s) k = None")
  case False
  then obtain st where "map_of (tokens s) k = Some st" "k \<noteq> []" by auto
  with assms(2) show ?thesis
    by (auto simp: session_valid_def live_put live_drop expired_iff [OF assms(1)])
       (auto simp: session_live_def)
qed (auto simp: session_valid_def)

lemma live_issue_store:
  assumes "wf_sessions s u" "u \<le> now" "now \<le> t"
  shows "session_live (snd (session_issue (Inr b) now s)) t tok =
    (if tok = rawurl_EncodeToString b then t - now \<le> ttl s else session_live s t tok)"
proof -
  let ?s = "s\<lparr>tokens := AList.update (rawurl_EncodeToString b) \<lparr>createdAt = now, lastUsed = now\<rparr> (tokens s)\<rparr>"
  have "wf_sessions ?s now"
    using assms by (auto intro!: wf_put intro: wf_sessions_mono)
  from live_gc [OF this assms(3)] show ?thesis
    by (simp add: session_issue_def Let_def live_put)
qed

interpretation store: session_service session_step "\<lambda>n n' tok s. fst (session_valid n n' tok s)"
  session_live wf_sessions ttl
proof (unfold_locales, goal_cases)
  case (1 s u op)
  then show ?case by (rule wf_step)
next
  case (2 op s)
  show ?case by simp
next
  case (3 s u n n' tok)
  then show ?case by (rule valid_iff)
next
  case (4 s u now b t tok)
  then show ?case by (simp add: live_issue_store)
next
  case (5 s u tok' t tok)
  then show ?case by (simp add: session_revoke_def live_drop)
next
  case (6 s u tok op t)
  show ?case
  proof (cases op)
    case (OpIssue r now)
    with 6 show ?thesis
      by (cases r) (simp add: session_issue_def, simp add: live_issue_store)
  next
    case (OpValid n n' k)
    with 6 show ?thesis by (simp add: live_valid [of s u])
  next
    case (OpRevoke k)
    with 6 show ?thesis by (simp add: session_revoke_def live_drop)
  next
    case (OpGC now)
    with 6 show ?thesis by (simp add: session_gc_def live_gc)
  qed
qed

lemma wf_newSessionStore: "in_int64 d \<Longrightarrow> d < 2 ^ 63 - 1 \<Longrightarrow> wf_sessions (newSessionStore d) u"
  by (simp add: wf_sessions_def newSessionStore_def)

subsection \<open>Properties\<close>

text \<open>C13: Lifetime of a session. After a login at time \<open>now\<close>, and after any further operations on
  the store (logins, requests and logouts of others, uses of this session, garbage
  collections) read from a clock that does not run backwards, the token is accepted at a later
  time exactly when at most the store's lifetime has passed since the login; using a session
  does not extend it and no garbage collection ends it early.\<close>

theorem session_lifetime:
  assumes "wf_sessions s u" "u \<le> now" "length b = 32" "clocked now ops" "end_clock now ops \<le> t"
    and "\<And>op. op \<in> set ops \<Longrightarrow> \<not> touches (rawurl_EncodeToString b) op"
  shows "fst (session_valid t t' (rawurl_EncodeToString b)
            (fold session_step ops (snd (session_issue (Inr b) now s)))) \<longleftrightarrow> t - now \<le> ttl s"
  using store.lifetime [OF assms] by simp

theorem session_lifetime_witness:
  "fst (session_valid 90 90 (rawurl_EncodeToString (replicate 32 CHR ''a''))
      (fold session_step [OpValid 20 20 (rawurl_EncodeToString (replicate 32 CHR ''a'')), OpGC 85]
        (snd (session_issue (Inr (replicate 32 CHR ''a'')) 10 (newSessionStore 100)))))
   \<and> \<not> fst (session_valid 111 111 (rawurl_EncodeToString (replicate 32 CHR ''a''))
      (fold session_step [OpValid 20 20 (rawurl_EncodeToString (replicate 32 CHR ''a'')), OpGC 85]
        (snd (session_issue (Inr (replicate 32 CHR ''a'')) 10 (newSessionStore 100)))))"
proof -
  let ?b = "replicate 32 CHR ''a''"
  let ?ops = "[OpValid 20 20 (rawurl_EncodeToString ?b), OpGC 85]"
  have w: "wf_sessions (newSessionStore 100) 10"
    by (rule wf_newSessionStore) (simp_all add: in_int64_def)
  have "fst (session_valid t t (rawurl_EncodeToString ?b)
      (fold session_step ?ops (snd (session_issue (Inr ?b) 10 (newSessionStore 100))))) \<longleftrightarrow>
      t - 10 \<le> ttl (newSessionStore 100)" if "85 \<le> t" for t
    using that by (intro session_lifetime [OF w]) auto
  from this [of 90] this [of 111] show ?thesis by (simp add: newSessionStore_def)
qed

text \<open>Logout is final. Once a token has been revoked it is rejected, whatever happens to the
  store afterwards, until a login happens to draw the same 32 random bytes again.\<close>

theorem session_revoked:
  assumes "wf_sessions s u" "clocked u ops" "end_clock u ops \<le> t"
    and "\<And>op. op \<in> set ops \<Longrightarrow> \<not> issues tok op"
  shows "\<not> fst (session_valid t t' tok (fold session_step ops (session_revoke tok s)))"
  using store.revoked [OF assms] by simp

theorem session_revoked_witness:
  "fst (session_valid 20 20 (rawurl_EncodeToString (replicate 32 CHR ''a''))
      (snd (session_issue (Inr (replicate 32 CHR ''a'')) 10 (newSessionStore 100))))
   \<and> \<not> fst (session_valid 30 30 (rawurl_EncodeToString (replicate 32 CHR ''a''))
      (fold session_step [OpGC 25, OpValid 26 26 ''x''] (session_revoke (rawurl_EncodeToString (replicate 32 CHR ''a''))
      (snd (session_issue (Inr (replicate 32 CHR ''a'')) 10 (newSessionStore 100))))))"
proof -
  let ?b = "replicate 32 CHR ''a''"
  let ?s = "snd (session_issue (Inr ?b) 10 (newSessionStore 100))"
  have w: "wf_sessions (newSessionStore 100) 10"
    by (rule wf_newSessionStore) (simp_all add: in_int64_def)
  have ws: "wf_sessions ?s 10" by (rule wf_issue [OF w]) simp
  have "rawurl_EncodeToString ?b \<noteq> []" using length_rawurl_32 [of ?b] by auto
  then have "fst (session_valid 20 20 (rawurl_EncodeToString ?b) ?s)"
    using valid_iff [OF ws] live_issue_store [OF w, of 10 20 ?b] by (simp add: newSessionStore_def)
  moreover have "\<not> fst (session_valid 30 30 (rawurl_EncodeToString ?b)
      (fold session_step [OpGC 25, OpValid 26 26 ''x''] (session_revoke (rawurl_EncodeToString ?b) ?s)))"
    by (rule session_revoked [OF ws]) auto
  ultimately show ?thesis by blast
qed

text \<open>The store does not grow without bound. Right after a garbage collection (every login and
  every five minutes) each remaining token was used within the lifetime, and every session
  that is still live is remaining.\<close>

theorem session_gc_bound:
  assumes "wf_sessions s u" "u \<le> now"
  shows "(\<forall>k st. map_of (tokens (session_gc now s)) k = Some st \<longrightarrow> now - lastUsed st \<le> ttl s)
    \<and> (\<forall>k. session_live s now k \<longrightarrow> map_of (tokens (session_gc now s)) k = map_of (tokens s) k)"
  using assms lookup_gc [OF assms(1), of now]
  by (fastforce simp: session_gc_def session_live_def wf_sessions_def split: option.splits if_splits)

theorem session_gc_bound_witness:
  "map_of (tokens (session_gc 20 (newSessionStore 100\<lparr>tokens := [(''a'', \<lparr>createdAt = 1, lastUsed = 2\<rparr>)]\<rparr>))) ''a''
     = Some \<lparr>createdAt = 1, lastUsed = 2\<rparr>"
proof -
  let ?s = "newSessionStore 100\<lparr>tokens := [(''a'', \<lparr>createdAt = 1, lastUsed = 2\<rparr>)]\<rparr>"
  have "wf_sessions ?s 10"
    by (simp add: wf_sessions_def newSessionStore_def in_int64_def wf_gomap_def keys_of_def)
  from session_gc_bound [OF this, of 20] show ?thesis
    by (simp add: session_live_def newSessionStore_def)
qed

end
