(* ===== verification/Ratelimit.thy ===== *)
theory Ratelimit
  imports Go_Time
begin

text \<open>
  \<open>ratelimit.go\<close>: the sliding-window limiter of login attempts. \<open>rate_allow\<close> is the method
  \<open>allow\<close> with the clock reading as an argument; a nil limiter is \<open>None\<close>. The locale
  \<open>rate_limiting\<close> states what the login code relies on (a decision by the grants of the last
  window, one list of grants per key), and its lemmas bound the grants in every window of a
  whole run; it is interpreted on \<open>rate_allow\<close>.
\<close>

record loginRateLimiter =
  hits :: "string \<rightharpoonup> time list"
  limit :: int
  window :: duration

definition newLoginRateLimiter :: "int \<Rightarrow> duration \<Rightarrow> loginRateLimiter" where
  "newLoginRateLimiter n w = \<lparr>hits = Map.empty, limit = n, window = w\<rparr>"

definition rate_allow_locked :: "string \<Rightarrow> time \<Rightarrow> loginRateLimiter \<Rightarrow> bool \<times> loginRateLimiter" where
  "rate_allow_locked key now r =
     (let cutoff = time_Add now (wrap64 (- window r));
          hs = dropWhile (\<lambda>h. \<not> time_After h cutoff) (lookup_or [] (hits r) key)
      in if limit r \<le> int (length hs)
         then (False, r\<lparr>hits := (hits r)(key \<mapsto> hs)\<rparr>)
         else (True, r\<lparr>hits := (hits r)(key \<mapsto> hs @ [now])\<rparr>))"

definition rate_allow ::
  "string \<Rightarrow> time \<Rightarrow> loginRateLimiter option \<Rightarrow> bool \<times> loginRateLimiter option" where
  "rate_allow key now rl =
     (case rl of
        None \<Rightarrow> (True, None)
      | Some r \<Rightarrow> (case rate_allow_locked key now r of (b, r') \<Rightarrow> (b, Some r')))"

text \<open>The attempts of a run (key and time) that were granted, in order.\<close>

fun grants :: "(string \<Rightarrow> time \<Rightarrow> 's \<Rightarrow> bool \<times> 's) \<Rightarrow> (string \<times> time) list \<Rightarrow> 's \<Rightarrow> (string \<times> time) list" where
  "grants allow [] s = []"
| "grants allow ((k, t) # as) s =
     (if fst (allow k t s) then (k, t) # grants allow as (snd (allow k t s))
      else grants allow as (snd (allow k t s)))"

definition times_of :: "string \<Rightarrow> (string \<times> time) list \<Rightarrow> time list" where
  "times_of k gs = List.map snd (filter (\<lambda>(k', t). k' = k) gs)"

text \<open>How many of some times lie in the half-open window \<open>(a, a + w]\<close>.\<close>

definition in_window :: "duration \<Rightarrow> time \<Rightarrow> time list \<Rightarrow> nat" where
  "in_window w a ts = length (filter (\<lambda>t. a < t \<and> t \<le> a + w) ts)"

lemma in_window_append [simp]: "in_window w a (xs @ ys) = in_window w a xs + in_window w a ys"
  by (simp add: in_window_def)

lemma in_window_le: "in_window w a xs \<le> length xs"
  by (simp add: in_window_def)

lemma in_window_filter: "in_window w a (filter P xs) \<le> in_window w a xs"
  by (induction xs) (auto simp: in_window_def)

lemma in_window_none: "(\<And>t. t \<in> set xs \<Longrightarrow> a + w < t) \<Longrightarrow> in_window w a xs = 0"
  by (fastforce simp: in_window_def filter_empty_conv)

lemma times_of_simps [simp]:
  "times_of k [] = []"
  "times_of k ((k', t) # gs) = (if k' = k then t # times_of k gs else times_of k gs)"
  by (simp_all add: times_of_def)

lemma set_times_grants: "set (times_of k (grants allow as s)) \<subseteq> snd ` set as"
  by (induction allow as s rule: grants.induct) auto

subsection \<open>The contract\<close>

locale rate_limiting =
  fixes allow :: "string \<Rightarrow> time \<Rightarrow> 's \<Rightarrow> bool \<times> 's"
    and recent :: "'s \<Rightarrow> string \<Rightarrow> time list"
    and ok :: "'s \<Rightarrow> time \<Rightarrow> bool"
    and lim :: "'s \<Rightarrow> int"
    and win :: "'s \<Rightarrow> duration"
  assumes allow_ok: "ok s u \<Longrightarrow> u \<le> t \<Longrightarrow> ok (snd (allow k t s)) t"
    and allow_lim: "lim (snd (allow k t s)) = lim s"
    and allow_win: "win (snd (allow k t s)) = win s"
    and allow_iff: "ok s u \<Longrightarrow> u \<le> t \<Longrightarrow>
          fst (allow k t s) \<longleftrightarrow> int (length (filter (\<lambda>x. t - win s < x) (recent s k))) < lim s"
    and allow_recent: "ok s u \<Longrightarrow> u \<le> t \<Longrightarrow>
          recent (snd (allow k t s)) k' =
            (if k' = k then filter (\<lambda>x. t - win s < x) (recent s k) @ (if fst (allow k t s) then [t] else [])
             else recent s k')"
    and recent_le: "ok s u \<Longrightarrow> x \<in> set (recent s k) \<Longrightarrow> x \<le> u"
begin

lemma step_bound:
  assumes "ok s u" "u \<le> t" "\<And>a. int (in_window (win s) a (recent s k)) \<le> lim s"
  shows "int (in_window (win s) a (recent (snd (allow k' t s)) k)) \<le> lim s"
proof (cases "k = k'")
  case True
  let ?f = "filter (\<lambda>x. t - win s < x) (recent s k)"
  have sub: "in_window (win s) a ?f \<le> in_window (win s) a (recent s k)"
    by (rule in_window_filter)
  show ?thesis
  proof (cases "fst (allow k' t s)")
    case granted: True
    then have "int (length ?f) < lim s" using allow_iff [OF assms(1,2)] True by simp
    moreover have "in_window (win s) a ?f \<le> length ?f" by (rule in_window_le)
    moreover have "in_window (win s) a [t] \<le> 1" using in_window_le [of "win s" a "[t]"] by simp
    ultimately show ?thesis
      using allow_recent [OF assms(1,2), of k' k] True granted by simp
  next
    case False
    with sub assms(3) [of a] True show ?thesis
      using allow_recent [OF assms(1,2), of k' k] by simp
  qed
next
  case False
  then show ?thesis using allow_recent [OF assms(1,2), of k' k] assms(3) by simp
qed

text \<open>No window of the run holds more grants of one key than the limit.\<close>

lemma window_bound:
  assumes "ok s u" "sorted (u # List.map snd as)"
    and "\<And>a. int (in_window (win s) a (recent s k)) \<le> lim s"
  shows "int (in_window (win s) a (recent s k @ times_of k (grants allow as s))) \<le> lim s"
  using assms
proof (induction as arbitrary: s u a)
  case (Cons p as)
  obtain k' t where p: "p = (k', t)" by force
  define s' where "s' = snd (allow k' t s)"
  from Cons.prems(2) p have ut: "u \<le> t" and srt: "sorted (t # List.map snd as)" by auto
  have same: "win s' = win s" "lim s' = lim s" by (simp_all add: s'_def allow_win allow_lim)
  have ok': "ok s' t" using allow_ok [OF Cons.prems(1) ut] by (simp add: s'_def)
  have b': "int (in_window (win s') b (recent s' k)) \<le> lim s'" for b
    using step_bound [OF Cons.prems(1) ut Cons.prems(3)] same by (simp add: s'_def)
  have IH: "int (in_window (win s) a (recent s' k @ times_of k (grants allow as s'))) \<le> lim s"
    using Cons.IH [OF ok' srt b', of a] same by simp
  have later: "t \<le> x" if "x \<in> set (times_of k (grants allow (p # as) s))" for x
  proof -
    have "x \<in> snd ` set (p # as)" using that set_times_grants [of k allow "p # as" s] by blast
    then show ?thesis using srt p by auto
  qed
  show ?case
  proof (cases "a + win s < t")
    case True
    then have "in_window (win s) a (times_of k (grants allow (p # as) s)) = 0"
      by (intro in_window_none) (use later in \<open>meson order_less_le_trans\<close>)
    then show ?thesis using Cons.prems(3) [of a] by simp
  next
    case False
    then have keep: "in_window (win s) a (filter (\<lambda>x. t - win s < x) (recent s k)) = in_window (win s) a (recent s k)"
      unfolding in_window_def filter_filter by (intro arg_cong [of _ _ length] filter_cong) auto
    have "in_window (win s) a (recent s k @ times_of k (grants allow (p # as) s)) =
        in_window (win s) a (recent s' k @ times_of k (grants allow as s'))"
    proof (cases "k = k'")
      case True
      with keep have "in_window (win s) a (recent s' k) =
          in_window (win s) a (recent s k) + (if fst (allow k t s) then in_window (win s) a [t] else 0)"
        using allow_recent [OF Cons.prems(1) ut, of k' k] by (simp add: s'_def in_window_def)
      moreover have "times_of k (grants allow (p # as) s) =
          (if fst (allow k t s) then [t] else []) @ times_of k (grants allow as s')"
        using True by (simp add: p s'_def)
      ultimately show ?thesis by (simp only: in_window_append) (simp add: in_window_def)
    next
      case False
      then show ?thesis
        using allow_recent [OF Cons.prems(1) ut, of k' k] by (simp add: p s'_def)
    qed
    with IH show ?thesis by simp
  qed
qed simp

text \<open>Once a whole window has passed, an attempt is granted again.\<close>

lemma granted_after_window:
  assumes "ok s u" "0 \<le> win s" "u + win s \<le> t" "0 < lim s"
  shows "fst (allow k t s)"
proof -
  have "filter (\<lambda>x. t - win s < x) (recent s k) = []"
    using recent_le [OF assms(1)] assms(3) by (fastforce simp: filter_empty_conv)
  with allow_iff [OF assms(1), of t k] assms(2,3,4) show ?thesis by simp
qed

end

subsection \<open>The limiter meets the contract\<close>

definition recent_hits :: "loginRateLimiter \<Rightarrow> string \<Rightarrow> time list" where
  "recent_hits r k = lookup_or [] (hits r) k"

definition wf_limiter :: "loginRateLimiter \<Rightarrow> time \<Rightarrow> bool" where
  "wf_limiter r u \<longleftrightarrow>
     0 \<le> window r \<and> in_int64 (window r) \<and>
     (\<forall>k. sorted (recent_hits r k) \<and> (\<forall>x \<in> set (recent_hits r k). x \<le> u))"

lemma dropWhile_sorted:
  "sorted xs \<Longrightarrow> dropWhile (\<lambda>h. \<not> c < h) xs = filter (\<lambda>h. c < h) (xs :: int list)"
proof (induction xs)
  case (Cons x xs)
  then have "filter (\<lambda>h. c < h) xs = xs" if "c < x"
    using that by (intro filter_True) auto
  with Cons show ?case by simp
qed simp

lemma rate_hs:
  "wf_limiter r u \<Longrightarrow>
    dropWhile (\<lambda>h. \<not> time_After h (time_Add t (wrap64 (- window r)))) (recent_hits r k) =
    filter (\<lambda>x. t - window r < x) (recent_hits r k)"
  by (simp add: wf_limiter_def time_After_def time_Add_def wrap64_id in_int64_def dropWhile_sorted)

lemma rate_allow_eq:
  assumes "wf_limiter r u"
  shows "rate_allow_locked k t r =
    (let hs = filter (\<lambda>x. t - window r < x) (recent_hits r k); b = int (length hs) < limit r
     in (b, r\<lparr>hits := (hits r)(k \<mapsto> hs @ (if b then [t] else []))\<rparr>))"
  using rate_hs [OF assms, of t k]
  by (auto simp: rate_allow_locked_def recent_hits_def Let_def)

interpretation login_limiter: rate_limiting rate_allow_locked recent_hits wf_limiter limit window
proof (unfold_locales, goal_cases)
  case (1 s u t k)
  have le: "x \<le> t" if "x \<in> set (recent_hits s k')" for x k'
    using 1 that by (fastforce simp: wf_limiter_def)
  show ?case
    unfolding wf_limiter_def
  proof (intro conjI allI)
    fix k'
    have "recent_hits (snd (rate_allow_locked k t s)) k' =
        (if k' = k then filter (\<lambda>x. t - window s < x) (recent_hits s k) @
           (if fst (rate_allow_locked k t s) then [t] else []) else recent_hits s k')"
      by (simp add: rate_allow_eq [OF 1(1)] Let_def recent_hits_def lookup_or_upd)
    then show "sorted (recent_hits (snd (rate_allow_locked k t s)) k')"
      and "\<forall>x \<in> set (recent_hits (snd (rate_allow_locked k t s)) k'). x \<le> t"
      using 1(1) le by (auto simp: wf_limiter_def sorted_append intro: sorted_wrt_filter)
  qed (use 1(1) in \<open>auto simp: wf_limiter_def rate_allow_locked_def Let_def\<close>)
next
  case (5 s u t k k')
  then show ?case by (simp add: rate_allow_eq Let_def recent_hits_def lookup_or_upd)
next
  case (6 s u x k)
  then show ?case by (simp add: wf_limiter_def)
qed (simp_all add: rate_allow_eq Let_def, simp_all add: rate_allow_locked_def Let_def)

lemma wf_newLoginRateLimiter: "0 \<le> w \<Longrightarrow> in_int64 w \<Longrightarrow> wf_limiter (newLoginRateLimiter n w) u"
  by (simp add: wf_limiter_def newLoginRateLimiter_def recent_hits_def)

lemma wf_limiter_run:
  "wf_limiter r u \<Longrightarrow> u \<le> t \<Longrightarrow> wf_limiter (snd (rate_allow_locked k t r)) t"
  by (rule login_limiter.allow_ok)

subsection \<open>Properties\<close>

text \<open>C16: The rate limit holds in every window. For any sequence of login attempts from any keys at
  non-decreasing times, at most \<open>limit\<close> attempts of one key are granted in any interval
  \<open>(a, a + window]\<close>, not only in intervals that start at an attempt.\<close>

theorem rate_limit_window:
  assumes "0 \<le> w" "in_int64 w" "0 \<le> n" "sorted (List.map snd as)"
  shows "int (in_window w a (times_of k (grants rate_allow_locked as (newLoginRateLimiter n w)))) \<le> n"
proof (cases as)
  case Nil
  then show ?thesis using assms by (simp add: in_window_def)
next
  case (Cons p as')
  let ?r = "newLoginRateLimiter n w"
  have "wf_limiter ?r (snd p)" using assms by (intro wf_newLoginRateLimiter)
  from login_limiter.window_bound [OF this, of as k a] assms Cons show ?thesis
    by (simp add: newLoginRateLimiter_def recent_hits_def in_window_def)
qed

theorem rate_limit_window_witness:
  "int (in_window Minute 0 (times_of ''ip'' (grants rate_allow_locked
      [(''ip'', 1), (''ip'', 2), (''other'', 2), (''ip'', 3), (''ip'', Minute + 1)] (newLoginRateLimiter 2 Minute)))) \<le> 2"
  by (rule rate_limit_window) (simp_all add: Minute_def in_int64_def)

text \<open>No lockout beyond the window. However many attempts were made up to time \<open>u\<close>, an attempt
  at least one window later is granted, and an attempt of a key changes nothing for other keys.\<close>

theorem rate_limit_recovers:
  assumes "wf_limiter r u" "u + window r \<le> t" "0 < limit r"
  shows "fst (rate_allow_locked k t r)
    \<and> (\<forall>k'. k' \<noteq> k \<longrightarrow> recent_hits (snd (rate_allow_locked k t r)) k' = recent_hits r k')"
proof -
  have w: "0 \<le> window r" using assms(1) by (simp add: wf_limiter_def)
  then have "u \<le> t" using assms(2) by simp
  then show ?thesis
    using login_limiter.granted_after_window [OF assms(1) w assms(2,3)]
      login_limiter.allow_recent [OF assms(1)] by simp
qed

theorem rate_limit_recovers_witness:
  "\<not> fst (rate_allow_locked ''ip'' 3 (newLoginRateLimiter 1 10\<lparr>hits := [''ip'' \<mapsto> [2]]\<rparr>))
   \<and> fst (rate_allow_locked ''ip'' 12 (newLoginRateLimiter 1 10\<lparr>hits := [''ip'' \<mapsto> [2]]\<rparr>))"
proof -
  have "wf_limiter (newLoginRateLimiter 1 10\<lparr>hits := [''ip'' \<mapsto> [2]]\<rparr>) 2"
    by (simp add: wf_limiter_def newLoginRateLimiter_def recent_hits_def in_int64_def lookup_or_def)
  from rate_limit_recovers [OF this, of 12 "''ip''"] show ?thesis
    by (simp add: newLoginRateLimiter_def rate_allow_locked_def time_After_def time_Add_def
        wrap64_def lookup_or_def)
qed

end
