(* ===== verification/Http.thy ===== *)
theory Http
  imports Go_Time Go_Encoding
begin

text \<open>
  The part of \<open>net/http\<close> that the handlers use. A request is its parsed parts (method, path,
  host, headers, cookies, query and form values); header names are those the code writes, up
  to canonicalisation. A response writer keeps the header to be sent, what has been sent, and
  the body as a list of pieces: text, a JSON value given to the encoder, or a page (template
  name and data) given to the template engine. \<open>http_Error\<close> and \<open>http_Redirect\<close> are the two
  helpers of the library the code calls.
\<close>

subsection \<open>Values\<close>

text \<open>The dynamic values of event fields, log fields and JSON replies.\<close>

datatype jval =
    JNull
  | JBool bool
  | JInt int
  | JFloat f64
  | JStr string
  | JArr "jval list"
  | JObj "(string \<times> jval) list"

type_synonym fields = "(string, jval) gomap"

subsection \<open>Requests\<close>

record request =
  rq_Method :: string
  rq_Host :: string
  rq_Path :: string
  rq_RemoteAddr :: string
  rq_TLS :: bool
  rq_Header :: "string \<rightharpoonup> string"
  rq_Cookies :: "(string \<times> string) list"
  rq_Query :: "string \<rightharpoonup> string"
  rq_ParseForm :: "err option"
  rq_PostForm :: "string \<rightharpoonup> string"
  rq_PostFormValue :: "string \<rightharpoonup> string"

abbreviation header_Get :: "request \<Rightarrow> string \<Rightarrow> string" where
  "header_Get r k \<equiv> lookup_or [] (rq_Header r) k"

abbreviation query_Get :: "request \<Rightarrow> string \<Rightarrow> string" where
  "query_Get r k \<equiv> lookup_or [] (rq_Query r) k"

definition request_Cookie :: "request \<Rightarrow> string \<Rightarrow> string option" where
  "request_Cookie r name = map_of (rq_Cookies r) name"

text \<open>A plain request, for examples.\<close>

definition get_request :: "string \<Rightarrow> string \<Rightarrow> request" where
  "get_request host path =
     \<lparr>rq_Method = ''GET'', rq_Host = host, rq_Path = path, rq_RemoteAddr = ''192.0.2.1:4711'',
      rq_TLS = False, rq_Header = Map.empty, rq_Cookies = [], rq_Query = Map.empty,
      rq_ParseForm = None, rq_PostForm = Map.empty, rq_PostFormValue = Map.empty\<rparr>"

subsection \<open>Responses\<close>

record cookie =
  ck_Name :: string
  ck_Value :: string
  ck_Path :: string
  ck_HttpOnly :: bool
  ck_Secure :: bool
  ck_SameSite :: string
  ck_MaxAge :: int

datatype chunk =
    Text string
  | JsonBody jval
  | Page string "(string \<times> jval) list"

record response =
  rw_header :: "(string, string) gomap"
  rw_cookies :: "cookie list"
  rw_wrote :: bool
  rw_status :: int
  rw_sent :: "(string, string) gomap \<times> cookie list"
  rw_info :: "int list"
  rw_body :: "chunk list"

definition new_response :: response where
  "new_response =
     \<lparr>rw_header = [], rw_cookies = [], rw_wrote = False, rw_status = 0, rw_sent = ([], []),
      rw_info = [], rw_body = []\<rparr>"

definition rw_Set :: "string \<Rightarrow> string \<Rightarrow> response \<Rightarrow> response" where
  "rw_Set k v w = w\<lparr>rw_header := AList.update k v (rw_header w)\<rparr>"

definition rw_SetCookie :: "cookie \<Rightarrow> response \<Rightarrow> response" where
  "rw_SetCookie c w = w\<lparr>rw_cookies := rw_cookies w @ [c]\<rparr>"

text \<open>1xx codes other than 101 are informational: they are sent and more headers may follow.\<close>

definition informational :: "int \<Rightarrow> bool" where
  "informational c \<longleftrightarrow> 100 \<le> c \<and> c \<le> 199 \<and> c \<noteq> 101"

definition rw_WriteHeader :: "int \<Rightarrow> response \<Rightarrow> response" where
  "rw_WriteHeader c w =
     (if rw_wrote w then w
      else if informational c then w\<lparr>rw_info := rw_info w @ [c]\<rparr>
      else w\<lparr>rw_wrote := True, rw_status := c, rw_sent := (rw_header w, rw_cookies w)\<rparr>)"

definition rw_Write :: "chunk \<Rightarrow> response \<Rightarrow> response" where
  "rw_Write b w =
     (let w1 = (if rw_wrote w then w else rw_WriteHeader 200 w)
      in w1\<lparr>rw_body := rw_body w1 @ [b]\<rparr>)"

definition rw_Flush :: "response \<Rightarrow> response" where
  "rw_Flush w = (if rw_wrote w then w else rw_WriteHeader 200 w)"

text \<open>What the client gets to see once the handler returns (an unwritten header is a 200).\<close>

definition rw_final :: "response \<Rightarrow> response" where
  "rw_final w = rw_Flush w"

definition http_Error :: "string \<Rightarrow> int \<Rightarrow> response \<Rightarrow> response" where
  "http_Error msg code w =
     rw_Write (Text (msg @ [chr 10]))
       (rw_WriteHeader code
         (rw_Set ''X-Content-Type-Options'' ''nosniff''
           (rw_Set ''Content-Type'' ''text/plain; charset=utf-8''
             (w\<lparr>rw_header := AList.delete ''Content-Length'' (rw_header w)\<rparr>))))"

definition http_NotFound :: "response \<Rightarrow> response" where
  "http_NotFound w = http_Error ''404 page not found'' 404 w"

subsection \<open>Redirects\<close>

text \<open>\<open>path.Clean\<close> of a rooted path: the components with \<open>.\<close> and empty ones dropped and \<open>..\<close>
  taking its predecessor away.\<close>

definition clean_step :: "string list \<Rightarrow> string \<Rightarrow> string list" where
  "clean_step stack c =
     (if c = [] \<or> c = ''.'' then stack
      else if c = ''..'' then (if stack = [] then [] else butlast stack)
      else stack @ [c])"

definition path_Clean :: "string \<Rightarrow> string" where
  "path_Clean p = CHR ''/'' # strings_Join (foldl clean_step [] (strings_Split CHR ''/'' p)) ''/''"

definition is_hexdigit :: "char \<Rightarrow> bool" where
  "is_hexdigit c \<longleftrightarrow> is_digit c \<or> 97 \<le> byte c \<and> byte c \<le> 102 \<or> 65 \<le> byte c \<and> byte c \<le> 70"

fun percent_ok :: "string \<Rightarrow> bool" where
  "percent_ok [] = True"
| "percent_ok (c # s) =
     (if c = CHR ''%''
      then (case s of a # b # t \<Rightarrow> is_hexdigit a \<and> is_hexdigit b \<and> percent_ok t | _ \<Rightarrow> False)
      else percent_ok s)"

text \<open>
  \<open>url.Parse\<close> of a reference that begins with one slash finds neither scheme nor host, and
  fails on a control byte before the fragment and on a broken percent escape in the path or in
  the fragment.
\<close>

definition rooted_url_ok :: "string \<Rightarrow> bool" where
  "rooted_url_ok u \<longleftrightarrow>
     (let main = takeWhile (\<lambda>c. c \<noteq> CHR ''#'') u
      in \<not> list_ex (\<lambda>c. byte c < 32 \<or> byte c = 127) main
         \<and> percent_ok (takeWhile (\<lambda>c. c \<noteq> CHR ''?'') main)
         \<and> percent_ok (drop (length main + 1) u))"

definition hexEscapeNonASCII :: "string \<Rightarrow> string" where
  "hexEscapeNonASCII s =
     List.concat (List.map (\<lambda>c. if 128 \<le> byte c
        then [CHR ''%'', ''0123456789ABCDEF'' ! (byte c div 16), ''0123456789ABCDEF'' ! (byte c mod 16)]
        else [c]) s)"

definition redirect_location :: "string \<Rightarrow> string" where
  "redirect_location u =
     (if prefix ''/'' u \<and> \<not> prefix ''//'' u \<and> rooted_url_ok u
      then let p = takeWhile (\<lambda>c. c \<noteq> CHR ''?'') u; q = dropWhile (\<lambda>c. c \<noteq> CHR ''?'') u;
               cl = path_Clean p
           in (if suffix ''/'' p \<and> \<not> suffix ''/'' cl then cl @ ''/'' else cl) @ q
      else u)"

text \<open>The note with a link that a GET request gets is kept as text around the target.\<close>

definition http_Redirect :: "request \<Rightarrow> string \<Rightarrow> int \<Rightarrow> response \<Rightarrow> response" where
  "http_Redirect r u code w =
     (let loc = redirect_location u;
          hadCT = (map_of (rw_header w) ''Content-Type'' \<noteq> None);
          w1 = rw_Set ''Location'' (hexEscapeNonASCII loc) w;
          w2 = (if \<not> hadCT \<and> (rq_Method r = ''GET'' \<or> rq_Method r = ''HEAD'')
                then rw_Set ''Content-Type'' ''text/html; charset=utf-8'' w1 else w1);
          w3 = rw_WriteHeader code w2
      in if \<not> hadCT \<and> rq_Method r = ''GET'' then rw_Write (Page ''redirect'' [(''url'', JStr loc)]) w3 else w3)"

subsection \<open>Lemmas\<close>

lemma rw_simps [simp]:
  "rw_wrote (rw_Set k v w) = rw_wrote w"
  "rw_status (rw_Set k v w) = rw_status w"
  "rw_body (rw_Set k v w) = rw_body w"
  "rw_header (rw_Set k v w) = AList.update k v (rw_header w)"
  "rw_cookies (rw_Set k v w) = rw_cookies w"
  "rw_info (rw_Set k v w) = rw_info w"
  "rw_sent (rw_Set k v w) = rw_sent w"
  "rw_wrote (rw_SetCookie c w) = rw_wrote w"
  "rw_status (rw_SetCookie c w) = rw_status w"
  "rw_body (rw_SetCookie c w) = rw_body w"
  "rw_header (rw_SetCookie c w) = rw_header w"
  "rw_cookies (rw_SetCookie c w) = rw_cookies w @ [c]"
  by (simp_all add: rw_Set_def rw_SetCookie_def)

lemma rw_WriteHeader_sent: "rw_wrote w \<Longrightarrow> rw_WriteHeader c w = w"
  by (simp add: rw_WriteHeader_def)

lemma rw_WriteHeader_final [simp]:
  "\<not> informational c \<Longrightarrow> rw_wrote (rw_WriteHeader c w)"
  "\<not> informational c \<Longrightarrow> \<not> rw_wrote w \<Longrightarrow> rw_status (rw_WriteHeader c w) = c"
  "\<not> informational c \<Longrightarrow> \<not> rw_wrote w \<Longrightarrow> rw_sent (rw_WriteHeader c w) = (rw_header w, rw_cookies w)"
  "rw_body (rw_WriteHeader c w) = rw_body w"
  by (simp_all add: rw_WriteHeader_def)

lemma not_informational [simp]:
  "\<not> informational 200" "\<not> informational 302" "\<not> informational 400" "\<not> informational 401"
  "\<not> informational 403" "\<not> informational 404" "\<not> informational 405" "\<not> informational 500"
  "\<not> informational 502" "\<not> informational 503"
  by (simp_all add: informational_def)

lemma rw_Write_simps [simp]:
  "rw_wrote (rw_Write b w)"
  "rw_wrote w \<Longrightarrow> rw_status (rw_Write b w) = rw_status w"
  "\<not> rw_wrote w \<Longrightarrow> rw_status (rw_Write b w) = 200"
  "rw_wrote w \<Longrightarrow> rw_sent (rw_Write b w) = rw_sent w"
  "rw_body (rw_Write b w) = rw_body w @ [b]"
  by (simp_all add: rw_Write_def Let_def)

lemma http_Error_simps [simp]:
  "rw_wrote (http_Error msg c w)"
  "\<not> rw_wrote w \<Longrightarrow> \<not> informational c \<Longrightarrow> rw_status (http_Error msg c w) = c"
  "rw_wrote w \<Longrightarrow> rw_status (http_Error msg c w) = rw_status w"
  "rw_body (http_Error msg c w) = rw_body w @ [Text (msg @ [chr 10])]"
  by (simp_all add: http_Error_def rw_WriteHeader_sent)

lemma http_Redirect_simps:
  assumes "\<not> rw_wrote w" "\<not> informational c"
  shows "rw_status (http_Redirect r u c w) = c"
    and "map_of (fst (rw_sent (http_Redirect r u c w))) ''Location'' =
           Some (hexEscapeNonASCII (redirect_location u))"
    and "snd (rw_sent (http_Redirect r u c w)) = rw_cookies w"
    and "rw_wrote (http_Redirect r u c w)"
  using assms by (simp_all add: http_Redirect_def Let_def)

end
