(* ===== verification/Recorder.thy ===== *)
theory Recorder
  imports Http
begin

text \<open>
  The wrappers around the response writer: \<open>statusRecorder\<close> (\<open>proxy.go\<close>), which remembers the
  status for the metrics, and \<open>recoverMiddleware\<close> with \<open>anyToString\<close> (\<open>middleware.go\<close>). The
  locale \<open>response_writer\<close> is the contract of a writer: the first final header call or write
  decides the status, once. It is interpreted on the server's writer and on the recorder,
  which differ in which codes they take for final.
\<close>

record statusRecorder =
  rec_status :: int
  rec_wroteHeader :: bool

definition rec_WriteHeader :: "int \<Rightarrow> statusRecorder \<times> response \<Rightarrow> statusRecorder \<times> response" where
  "rec_WriteHeader code x =
     (case x of (s, w) \<Rightarrow>
       ((if \<not> rec_wroteHeader s then s\<lparr>rec_status := code, rec_wroteHeader := True\<rparr> else s),
        rw_WriteHeader code w))"

definition rec_Write :: "chunk \<Rightarrow> statusRecorder \<times> response \<Rightarrow> statusRecorder \<times> response" where
  "rec_Write b x =
     (case x of (s, w) \<Rightarrow>
       ((if \<not> rec_wroteHeader s then s\<lparr>rec_status := 200, rec_wroteHeader := True\<rparr> else s),
        rw_Write b w))"

text \<open>The server's writer is an \<open>http.Flusher\<close>.\<close>

definition rec_Flush :: "statusRecorder \<times> response \<Rightarrow> statusRecorder \<times> response" where
  "rec_Flush x = (case x of (s, w) \<Rightarrow> (s, rw_Flush w))"

text \<open>\<open>Hijack\<close>: the connection of the wrapped writer, if it is an \<open>http.Hijacker\<close>.\<close>

definition rec_Hijack :: "(err + 'conn) option \<Rightarrow> err + 'conn" where
  "rec_Hijack hijacker =
     (case hijacker of
        None \<Rightarrow> Inl ''response writer does not support hijacking''
      | Some r \<Rightarrow> r)"

definition headersSent :: "statusRecorder \<Rightarrow> bool" where
  "headersSent s = rec_wroteHeader s"

definition new_recorder :: statusRecorder where
  "new_recorder = \<lparr>rec_status = 200, rec_wroteHeader = False\<rparr>"

subsection \<open>The contract of a response writer\<close>

datatype wcall = WHeader int | WBody chunk

fun first_status :: "(int \<Rightarrow> bool) \<Rightarrow> wcall list \<Rightarrow> int option" where
  "first_status final [] = None"
| "first_status final (WHeader c # cs) = (if final c then Some c else first_status final cs)"
| "first_status final (WBody b # cs) = Some 200"

lemma first_status_cong:
  "(\<And>c. WHeader c \<in> set cs \<Longrightarrow> final c = final' c) \<Longrightarrow> first_status final cs = first_status final' cs"
  by (induction final cs rule: first_status.induct) auto

locale response_writer =
  fixes call :: "wcall \<Rightarrow> 's \<Rightarrow> 's"
    and status_of :: "'s \<Rightarrow> int option"
    and final :: "int \<Rightarrow> bool"
  assumes sent: "status_of s = Some c \<Longrightarrow> status_of (call x s) = Some c"
    and header: "status_of s = None \<Longrightarrow>
          status_of (call (WHeader c) s) = (if final c then Some c else None)"
    and body: "status_of s = None \<Longrightarrow> status_of (call (WBody b) s) = Some 200"
begin

lemma sent_stays: "status_of s = Some c \<Longrightarrow> status_of (fold call cs s) = Some c"
  by (induction cs arbitrary: s) (simp_all add: sent)

lemma status_run: "status_of s = None \<Longrightarrow> status_of (fold call cs s) = first_status final cs"
proof (induction cs arbitrary: s)
  case (Cons x cs)
  then show ?case
    by (cases x) (simp_all add: header body sent_stays)
qed simp

end

fun raw_call :: "wcall \<Rightarrow> response \<Rightarrow> response" where
  "raw_call (WHeader c) w = rw_WriteHeader c w"
| "raw_call (WBody b) w = rw_Write b w"

fun rec_call :: "wcall \<Rightarrow> statusRecorder \<times> response \<Rightarrow> statusRecorder \<times> response" where
  "rec_call (WHeader c) x = rec_WriteHeader c x"
| "rec_call (WBody b) x = rec_Write b x"

definition raw_status :: "response \<Rightarrow> int option" where
  "raw_status w = (if rw_wrote w then Some (rw_status w) else None)"

definition recorded_status :: "statusRecorder \<times> response \<Rightarrow> int option" where
  "recorded_status x = (if rec_wroteHeader (fst x) then Some (rec_status (fst x)) else None)"

interpretation server_writer: response_writer raw_call raw_status "\<lambda>c. \<not> informational c"
proof (unfold_locales, goal_cases)
  case (1 s c x)
  then show ?case by (cases x) (auto simp: raw_status_def rw_WriteHeader_def split: if_splits)
qed (auto simp: raw_status_def rw_WriteHeader_def rw_Write_def informational_def split: if_splits)

interpretation recording_writer: response_writer rec_call recorded_status "\<lambda>_. True"
proof (unfold_locales, goal_cases)
  case (1 s c x)
  then show ?case
    by (cases x; cases s) (auto simp: recorded_status_def rec_WriteHeader_def rec_Write_def split: if_splits)
qed (auto simp: recorded_status_def rec_WriteHeader_def rec_Write_def split: if_splits prod.splits)

lemma snd_rec_call [simp]: "snd (rec_call x p) = raw_call x (snd p)"
  by (cases x; cases p) (simp_all add: rec_WriteHeader_def rec_Write_def)

lemma snd_rec_run: "snd (fold rec_call cs p) = fold raw_call cs (snd p)"
  by (induction cs arbitrary: p) simp_all

lemma rec_status_run:
  "rec_status (fst (fold rec_call cs (new_recorder, w))) =
    (case first_status (\<lambda>_. True) cs of None \<Rightarrow> 200 | Some c \<Rightarrow> c)"
proof -
  have keep: "rec_status (fst (fold rec_call cs p)) = rec_status (fst p)"
    if "\<not> rec_wroteHeader (fst (fold rec_call cs p))" for cs p
    using that
  proof (induction cs arbitrary: p)
    case (Cons x cs)
    have "rec_wroteHeader (fst (rec_call x p))"
      by (cases x; cases p) (simp_all add: rec_WriteHeader_def rec_Write_def)
    then have "recorded_status (rec_call x p) \<noteq> None"
      by (simp add: recorded_status_def)
    then have "recorded_status (fold rec_call cs (rec_call x p)) \<noteq> None"
      using recording_writer.sent_stays by fastforce
    with Cons.prems show ?case by (simp add: recorded_status_def split: if_splits)
  qed simp
  have "recorded_status (fold rec_call cs (new_recorder, w)) = first_status (\<lambda>_. True) cs"
    by (rule recording_writer.status_run) (simp add: recorded_status_def new_recorder_def)
  then show ?thesis
    using keep [of cs "(new_recorder, w)"]
    by (auto simp: recorded_status_def new_recorder_def split: if_splits option.splits)
qed

subsection \<open>Panics\<close>

datatype panic = PanicString string | PanicError string | PanicOther

definition anyToString :: "panic \<Rightarrow> string" where
  "anyToString v =
     (case v of
        PanicString s \<Rightarrow> s
      | PanicError e \<Rightarrow> e
      | PanicOther \<Rightarrow> ''non-string panic'')"

text \<open>A handler ends with a response, normally or in a panic. The result is the response and
  the entry for the error log, if there is one (its stack trace is left out).\<close>

type_synonym handler = "request \<Rightarrow> response \<Rightarrow> response \<times> panic option"

definition recoverMiddleware ::
  "handler \<Rightarrow> request \<Rightarrow> response \<Rightarrow> response \<times> (string \<times> (string \<times> string) list) option" where
  "recoverMiddleware next r w =
     (case next r w of
        (w', None) \<Rightarrow> (w', None)
      | (w', Some rc) \<Rightarrow>
          (rw_Write (Text ''internal server error'') (rw_WriteHeader 500 w'),
           Some (''panic in handler'',
             [(''path'', rq_Path r), (''method'', rq_Method r), (''err'', anyToString rc)])))"

subsection \<open>Properties\<close>

text \<open>The recorded status is the status the client gets. Whatever a handler does through the
  recorder, if it sends no informational (1xx) header then the status in the recorder, which
  goes into the request counter, is the status of the response.\<close>

theorem recorded_status_is_sent:
  assumes "\<And>c. WHeader c \<in> set cs \<Longrightarrow> \<not> informational c"
  shows "rec_status (fst (fold rec_call cs (new_recorder, new_response))) =
    rw_status (rw_final (snd (fold rec_call cs (new_recorder, new_response))))"
proof -
  have "raw_status (fold raw_call cs new_response) = first_status (\<lambda>c. \<not> informational c) cs"
    by (rule server_writer.status_run) (simp add: raw_status_def new_response_def)
  also have "\<dots> = first_status (\<lambda>_. True) cs"
    by (rule first_status_cong) (simp add: assms)
  finally show ?thesis
    by (simp add: rec_status_run snd_rec_run)
       (auto simp: raw_status_def rw_final_def rw_Flush_def split: if_splits option.splits)
qed

theorem recorded_status_is_sent_witness:
  "rec_status (fst (fold rec_call [WHeader 404, WHeader 500, WBody (Text ''x'')] (new_recorder, new_response))) =
   rw_status (rw_final (snd (fold rec_call [WHeader 404, WHeader 500, WBody (Text ''x'')] (new_recorder, new_response))))"
  by (rule recorded_status_is_sent) (auto simp: informational_def)

text \<open>The recorder counts an informational header as the final status. After 103 (early
  hints) and 200 the client has a 200 and the recorder says 103.\<close>

theorem recorder_keeps_early_hints:
  "rec_status (fst (fold rec_call [WHeader 103, WHeader 200] (new_recorder, new_response))) = 103
   \<and> rw_status (rw_final (snd (fold rec_call [WHeader 103, WHeader 200] (new_recorder, new_response)))) = 200"
  by (simp add: rec_WriteHeader_def new_recorder_def new_response_def rw_WriteHeader_def
      informational_def rw_final_def rw_Flush_def)

text \<open>A panic never escapes and never rewrites a response. If the handler panics before it has
  sent a header, the client gets status 500 with the error text; if it had sent one, the
  status and headers stay and only the text is added. The panic is logged.\<close>

theorem recover_serves_500:
  assumes "next r w = (w', Some rc)"
  shows "snd (recoverMiddleware next r w) \<noteq> None
    \<and> (\<not> rw_wrote w' \<longrightarrow> rw_status (fst (recoverMiddleware next r w)) = 500)
    \<and> (rw_wrote w' \<longrightarrow> rw_status (fst (recoverMiddleware next r w)) = rw_status w'
         \<and> rw_sent (fst (recoverMiddleware next r w)) = rw_sent w')
    \<and> rw_body (fst (recoverMiddleware next r w)) = rw_body w' @ [Text ''internal server error'']"
  using assms by (simp add: recoverMiddleware_def rw_WriteHeader_sent)

theorem recover_serves_500_witness:
  "rw_status (fst (recoverMiddleware (\<lambda>r w. (w, Some (PanicError ''boom''))) (get_request ''h'' ''/'') new_response)) = 500"
  using recover_serves_500 [of "\<lambda>r w. (w, Some (PanicError ''boom''))" "get_request ''h'' ''/''" new_response
      new_response "PanicError ''boom''"]
  by (simp add: new_response_def)

end
