(* ===== verification/Cidr.thy ===== *)
theory Cidr
  imports Go_Net Http
begin

text \<open>
  \<open>cidr.go\<close>: the trusted proxies, a list of networks from the environment, and the test
  whether the peer of a request is one of them. Entries that do not parse are skipped with a
  warning on standard error; \<open>parseTrustedProxies\<close> returns the networks, \<open>ignored_entries\<close> the
  entries that were warned about.
\<close>

record cidr =
  cidr_net :: ipnet

text \<open>One entry of the list: trimmed, with \<open>/32\<close> added where there is no prefix length.\<close>

definition proxy_entry :: "string \<Rightarrow> string option" where
  "proxy_entry raw0 =
     (let raw = strings_TrimSpace raw0
      in if raw = [] then None
         else Some (if CHR ''/'' \<notin> set raw then raw @ ''/32'' else raw))"

fun parse_entries :: "string list \<Rightarrow> cidr list \<times> string list" where
  "parse_entries [] = ([], [])"
| "parse_entries (e # es) =
     (case proxy_entry e of
        None \<Rightarrow> parse_entries es
      | Some raw \<Rightarrow>
          (case net_ParseCIDR raw of
             None \<Rightarrow> (case parse_entries es of (out, warn) \<Rightarrow> (out, raw # warn))
           | Some n \<Rightarrow> (case parse_entries es of (out, warn) \<Rightarrow> (\<lparr>cidr_net = n\<rparr> # out, warn))))"

definition parseTrustedProxies :: "string \<Rightarrow> cidr list" where
  "parseTrustedProxies env0 =
     (let env = strings_TrimSpace env0
      in if env = [] then [] else fst (parse_entries (strings_Split CHR '','' env)))"

definition ignored_entries :: "string \<Rightarrow> string list" where
  "ignored_entries env0 =
     (let env = strings_TrimSpace env0
      in if env = [] then [] else snd (parse_entries (strings_Split CHR '','' env)))"

definition cidr_contains :: "cidr option \<Rightarrow> ip \<Rightarrow> bool" where
  "cidr_contains c a = (case c of None \<Rightarrow> False | Some n \<Rightarrow> ipnet_Contains (cidr_net n) a)"

text \<open>The address part of \<open>RemoteAddr\<close>, or all of it where it has no port.\<close>

definition remote_host :: "request \<Rightarrow> string" where
  "remote_host r =
     (case net_SplitHostPort (rq_RemoteAddr r) of Some (h, p) \<Rightarrow> h | None \<Rightarrow> rq_RemoteAddr r)"

definition trustedProxy :: "cidr list \<Rightarrow> request \<Rightarrow> bool" where
  "trustedProxy trusted r =
     (if trusted = [] then False
      else case net_ParseIP (remote_host r) of
        None \<Rightarrow> False
      | Some a \<Rightarrow> list_ex (\<lambda>c. cidr_contains (Some c) a) trusted)"

subsection \<open>Masks and prefixes\<close>

fun bytes_val :: "ip \<Rightarrow> nat" where
  "bytes_val [] = 0"
| "bytes_val (x # xs) = unat x * 256 ^ length xs + bytes_val xs"

lemma bytes_val_less: "bytes_val xs < 256 ^ length xs"
proof (induction xs)
  case (Cons x xs)
  have "unat x < 2 ^ LENGTH(8)" by (rule unsigned_less)
  then have "unat x \<le> 255" by simp
  then have "unat x * 256 ^ length xs \<le> 255 * 256 ^ length xs" by (rule mult_right_mono) simp
  with Cons have "unat x * 256 ^ length xs + bytes_val xs < 255 * 256 ^ length xs + 256 ^ length xs"
    by (rule add_le_less_mono [rotated])
  then show ?case by simp
qed simp

lemma byte_mask:
  assumes "k \<le> 8"
  shows "(of_nat (256 - 2 ^ k) :: 8 word) = NOT (mask k)"
proof -
  have "k = 0 \<or> k = 1 \<or> k = 2 \<or> k = 3 \<or> k = 4 \<or> k = 5 \<or> k = 6 \<or> k = 7 \<or> k = 8"
    using assms by linarith
  then show ?thesis by (elim disjE) (simp_all add: mask_eq_exp_minus_1)
qed

lemma masked_byte_eq:
  assumes "k \<le> 8"
  shows "(x AND of_nat (256 - 2 ^ k) = y AND of_nat (256 - 2 ^ k)) \<longleftrightarrow> unat x div 2 ^ k = unat (y :: 8 word) div 2 ^ k"
proof -
  have "z AND NOT (mask k) = push_bit k (drop_bit k z)" for z :: "8 word"
    by (rule bit_word_eqI) (auto simp: bit_simps)
  moreover have "drop_bit k (z AND NOT (mask k)) = drop_bit k z" for z :: "8 word"
    by (rule bit_word_eqI) (auto simp: bit_simps dest: bit_imp_le_length)
  ultimately have "x AND NOT (mask k) = y AND NOT (mask k) \<longleftrightarrow> drop_bit k x = drop_bit k y"
    by metis
  moreover have "drop_bit k x = drop_bit k y \<longleftrightarrow> unat (drop_bit k x) = unat (drop_bit k y)"
    by (rule word_eq_iff_unsigned)
  moreover have "unat (drop_bit k z) = unat z div 2 ^ k" for z :: "8 word"
  proof -
    have "unat z < 2 ^ LENGTH(8)" by (rule unsigned_less)
    then have "take_bit LENGTH(8) (unat z) = unat z" by (rule take_bit_nat_eq_self)
    then show ?thesis by (simp only: unsigned_drop_bit_eq) (simp add: drop_bit_eq_div)
  qed
  ultimately show ?thesis by (simp only: byte_mask [OF assms])
qed

lemma and_bytes_Cons [simp]: "and_bytes (x # xs) (m # ms) = (x AND m) # and_bytes xs ms"
  by (simp add: and_bytes_def)

lemma and_bytes_zero: "length xs = k \<Longrightarrow> and_bytes xs (mask_bytes k 0) = replicate k 0"
  by (induction xs arbitrary: k) (auto simp: and_bytes_def)

text \<open>Two addresses agree under a mask exactly when the numbers agree above the masked bits.\<close>

lemma masked_eq_iff:
  assumes "length a = k" "length b = k" "n \<le> 8 * k"
  shows "and_bytes a (mask_bytes k n) = and_bytes b (mask_bytes k n) \<longleftrightarrow>
    bytes_val a div 2 ^ (8 * k - n) = bytes_val b div 2 ^ (8 * k - n)"
  using assms
proof (induction k arbitrary: a b n)
  case 0
  then show ?case by simp
next
  case (Suc k)
  obtain x xs y ys where ab: "a = x # xs" "b = y # ys" and len: "length xs = k" "length ys = k"
    using Suc.prems by (auto simp: length_Suc_conv)
  have pow: "(256 :: nat) ^ k = 2 ^ (8 * k)" by (simp add: power_mult)
  show ?case
  proof (cases "8 \<le> n")
    case True
    have xm: "(255 :: 8 word) = NOT (mask 0)" by simp
    have all_ones: "z AND 255 = z" for z :: "8 word" by (simp only: xm) simp
    have le: "n - 8 \<le> 8 * k" using Suc.prems by simp
    define m where "m = 8 * k - (n - 8)"
    have e: "8 + 8 * k - n = m" using True by (simp add: m_def)
    have m: "m \<le> 8 * k" by (simp add: m_def)
    have split: "(unat z * 256 ^ k + v) div 2 ^ m = unat z * 2 ^ (8 * k - m) + v div 2 ^ m" for z :: "8 word" and v
    proof -
      have "unat z * 256 ^ k = unat z * 2 ^ (8 * k - m) * 2 ^ m"
        using m by (simp add: pow mult.assoc flip: power_add)
      then show ?thesis by (simp only: div_mult_self3 [of "2 ^ m"] power_not_zero) simp
    qed
    have small: "bytes_val zs div 2 ^ m < 2 ^ (8 * k - m)" if "length zs = k" for zs
    proof -
      have "bytes_val zs < 2 ^ (8 * k - m) * 2 ^ m"
        using bytes_val_less [of zs] that m by (simp add: pow flip: power_add)
      then show ?thesis by (simp add: less_mult_imp_div_less)
    qed
    have uniq: "unat x * 2 ^ (8 * k - m) + u = unat y * 2 ^ (8 * k - m) + v \<longleftrightarrow> x = y \<and> u = v"
      if "u < 2 ^ (8 * k - m)" "v < 2 ^ (8 * k - m)" for u v
    proof
      let ?p = "2 ^ (8 * k - m) :: nat"
      assume eq: "unat x * ?p + u = unat y * ?p + v"
      have "(unat x * ?p + u) div ?p = unat x" "(unat y * ?p + v) div ?p = unat y"
        using that by simp_all
      with eq have "unat x = unat y" by metis
      then have "x = y" by (simp only: word_eq_iff_unsigned [where ?'a = nat])
      with eq show "x = y \<and> u = v" by simp
    qed simp
    show ?thesis
      using Suc.IH [OF len le] True uniq [OF small [OF len(1)] small [OF len(2)]]
      by (simp add: ab len e all_ones split) (simp add: m_def)
  next
    case False
    define j where "j = 8 - n"
    have e: "8 * Suc k - n = 8 * k + j" and j8: "j \<le> 8" using False by (simp_all add: j_def)
    have top: "(unat z * 256 ^ k + v) div 2 ^ (8 * k + j) = unat z div 2 ^ j"
      if "v < 256 ^ k" for z :: "8 word" and v
    proof -
      have "(unat z * 2 ^ (8 * k) + v) div 2 ^ (8 * k) = unat z"
        using that by (simp add: pow)
      then show ?thesis by (simp only: power_add pow div_mult2_eq)
    qed
    have "bytes_val xs < 256 ^ k" "bytes_val ys < 256 ^ k"
      using bytes_val_less [of xs] bytes_val_less [of ys] len by simp_all
    with False masked_byte_eq [OF j8, of x y] show ?thesis
      unfolding e ab by (simp add: len top and_bytes_zero flip: j_def)
  qed
qed

subsection \<open>Dotted quads\<close>

definition format_v4 :: "ip \<Rightarrow> string" where
  "format_v4 q = strings_Join (List.map (\<lambda>b. show_nat (unat b)) q) ''.''"

lemma show_nat_no_char: "\<not> is_digit c \<Longrightarrow> c \<notin> set (show_nat n)"
  using show_nat_digits by auto

lemma show_nat_first: "hd (show_nat n) = CHR ''0'' \<Longrightarrow> length (show_nat n) \<le> 1"
proof (induction n rule: show_nat.induct)
  case (1 n)
  have nz: "digit d \<noteq> CHR ''0''" if "0 < d" "d < 10" for d
    using that less_10_cases [OF that(2)] by (auto simp: digit_def)
  show ?case
  proof (cases "n < 10")
    case True
    then show ?thesis by (simp add: show_nat.simps [of n])
  next
    case False
    then have h: "hd (show_nat n) = hd (show_nat (n div 10))"
      by (simp add: show_nat.simps [of n])
    with 1 False have "length (show_nat (n div 10)) \<le> 1" by simp
    then have small: "n div 10 < 10"
      by (cases "n div 10 < 10") (auto simp: show_nat.simps [of "n div 10"] show_nat.simps [of "n div 10 div 10"] le_Suc_eq split: if_splits)
    with False have "hd (show_nat (n div 10)) = digit (n div 10)" "0 < n div 10"
      by (auto simp: show_nat.simps [of "n div 10"])
    with nz [of "n div 10"] small h 1(2) show ?thesis by simp
  qed
qed

lemma parse_octet_show: "parse_octet (show_nat (unat b)) = Some (b :: 8 word)"
proof -
  have "unat b < 2 ^ LENGTH(8)" by (rule unsigned_less)
  then show ?thesis
    using show_nat_first [of "unat b"]
    by (auto simp: parse_octet_def list_all_iff show_nat_digits)
qed

lemma format_v4_eq:
  "format_v4 [a, b, c, d] = show_nat (unat a) @ ''.'' @ show_nat (unat b) @ ''.'' @ show_nat (unat c) @ ''.'' @ show_nat (unat d)"
  by (simp add: format_v4_def)

lemma length4: "length q = 4 \<longleftrightarrow> (\<exists>a b c d. q = [a, b, c, d])"
  by (auto simp: length_Suc_conv numeral_eq_Suc)

lemma parse_ipv4_format: "length q = 4 \<Longrightarrow> parse_ipv4 (format_v4 q) = Some q"
proof -
  assume len: "length q = 4"
  have "strings_Split CHR ''.'' (format_v4 q) = List.map (\<lambda>b. show_nat (unat b)) q"
    unfolding format_v4_def
    by (rule Split_Join) (use len in \<open>auto simp: is_digit_def byte_def dest: show_nat_no_char [THEN notE, rotated]\<close>)
  with len show ?thesis by (auto simp: length4 parse_ipv4_def parse_octet_show)
qed

lemma set_format_v4:
  "length q = 4 \<Longrightarrow> c \<in> set (format_v4 q) \<Longrightarrow> is_digit c \<or> c = CHR ''.''"
  using show_nat_digits by (auto simp: length4 format_v4_eq)

lemma format_v4_absent: "length q = 4 \<Longrightarrow> \<not> is_digit c \<Longrightarrow> c \<noteq> CHR ''.'' \<Longrightarrow> c \<notin> set (format_v4 q)"
  using set_format_v4 by blast

lemma parse_addr_format: "length q = 4 \<Longrightarrow> parse_addr (format_v4 q) = Some (V4, q)"
proof -
  assume len: "length q = 4"
  obtain a b c d where q: "q = [a, b, c, d]" using len length4 [of q] by auto
  have "dropWhile (\<lambda>c. c \<notin> set ''.:%'') (show_nat n @ ''.'' @ r) = ''.'' @ r" for n r
  proof -
    have "c \<notin> set ''.:%''" if "c \<in> set (show_nat n)" for c
      using that show_nat_digits [of n] by (auto simp: is_digit_def byte_def)
    then show ?thesis by (subst dropWhile_append2) auto
  qed
  then have "addr_family (format_v4 q) = Some V4"
    by (simp add: addr_family_def q format_v4_eq)
  with len show ?thesis by (simp add: parse_addr_def parse_ipv4_format)
qed

subsection \<open>An entry for an IPv4 network\<close>

lemma parse_cidr_v4:
  assumes "length q = 4" "n \<le> 32"
  shows "net_ParseCIDR (format_v4 q @ ''/'' @ show_nat n) =
    Some \<lparr>net_ip = and_bytes q (mask_bytes 4 n), net_mask = mask_bytes 4 n\<rparr>"
proof -
  have "CHR ''/'' \<notin> set (format_v4 q)"
    by (rule format_v4_absent [OF assms(1)]) (simp_all add: is_digit_def byte_def)
  moreover have "ip_Mask (v4_in_v6_prefix @ q) (mask_bytes 4 n) = and_bytes q (mask_bytes 4 n)"
    using assms(1) by (simp add: ip_Mask_def v4_in_v6_prefix_def numeral_eq_Suc)
  ultimately show ?thesis
    using assms
    by (simp add: net_ParseCIDR_def Cut_append parse_addr_format list_all_iff show_nat_digits
        bitlen_of_def CIDRMask_def as16_def Let_def)
qed

lemma length_mask_bytes [simp]: "length (mask_bytes k n) = k"
  by (induction k arbitrary: n) simp_all

lemma length_and_bytes [simp]: "length (and_bytes a b) = min (length a) (length b)"
  by (simp add: and_bytes_def)

lemma and_bytes_twice: "length a = length m \<Longrightarrow> and_bytes (and_bytes a m) m = and_bytes a m"
  by (induction a m rule: list_induct2) (simp_all add: and_bytes_def and.assoc)

lemma Contains_v4:
  assumes "length q = 4" "length a = 4" "n \<le> 32"
  shows "ipnet_Contains \<lparr>net_ip = and_bytes q (mask_bytes 4 n), net_mask = mask_bytes 4 n\<rparr>
      (v4_in_v6_prefix @ a) \<longleftrightarrow> bytes_val a div 2 ^ (32 - n) = bytes_val q div 2 ^ (32 - n)"
proof -
  have "To4 (v4_in_v6_prefix @ a) = Some a"
    using assms by (simp add: To4_def v4_in_v6_prefix_def)
  then show ?thesis
    using assms masked_eq_iff [of q 4 a n]
    by (auto simp: ipnet_Contains_def networkNumberAndMask_def To4_def and_bytes_twice)
qed

lemma visible_format:
  assumes "length q = 4"
  shows "format_v4 q \<noteq> []" "visible (hd (format_v4 q))"
proof -
  obtain a b c d where q: "q = [a, b, c, d]" using assms length4 [of q] by auto
  show "format_v4 q \<noteq> []" by (simp add: q format_v4_eq)
  have "is_digit (hd (show_nat (unat a)))"
    using show_nat_digits [of "unat a"] hd_in_set [OF show_nat_not_Nil] by blast
  then show "visible (hd (format_v4 q))"
    by (simp add: q format_v4_eq is_digit_def visible_def)
qed

lemma trim_entry:
  assumes "length q = 4"
  shows "strings_TrimSpace (format_v4 q @ ''/'' @ show_nat n) = format_v4 q @ ''/'' @ show_nat n"
proof (rule TrimSpace_visible)
  have "is_digit (last (show_nat n))"
    using show_nat_digits [of n] last_in_set [OF show_nat_not_Nil] by blast
  then show "visible (last (format_v4 q @ ''/'' @ show_nat n))"
    by (simp add: is_digit_def visible_def)
qed (use visible_format [OF assms] in auto)

lemma parseTrustedProxies_v4:
  assumes "length q = 4" "n \<le> 32"
  shows "parseTrustedProxies (format_v4 q @ ''/'' @ show_nat n) =
    [\<lparr>cidr_net = \<lparr>net_ip = and_bytes q (mask_bytes 4 n), net_mask = mask_bytes 4 n\<rparr>\<rparr>]"
proof -
  have "CHR '','' \<notin> set (format_v4 q @ ''/'' @ show_nat n)"
    using format_v4_absent [OF assms(1), of "CHR '',''"] show_nat_no_char [of "CHR '',''" n]
    by (simp add: is_digit_def byte_def)
  then have "strings_Split CHR '','' (format_v4 q @ ''/'' @ show_nat n) = [format_v4 q @ ''/'' @ show_nat n]"
    by (rule Split_absent)
  then show ?thesis
    by (simp add: parseTrustedProxies_def trim_entry [OF assms(1), simplified] proxy_entry_def
        parse_cidr_v4 [OF assms, simplified])
qed

lemma SplitHostPort_plain:
  assumes "CHR '':'' \<notin> set h \<union> set p" "CHR ''['' \<notin> set h \<union> set p" "CHR '']'' \<notin> set h \<union> set p"
  shows "net_SplitHostPort (h @ '':'' @ p) = Some (h, p)"
proof -
  have "x \<noteq> CHR '':''" if "x \<in> set (rev p)" for x using that assms by auto
  then have "takeWhile (\<lambda>x. x \<noteq> CHR '':'') (rev p @ CHR '':'' # rev h) = rev p"
    by (subst takeWhile_append2) auto
  then have "takeWhile (\<lambda>x. x \<noteq> CHR '':'') (rev (h @ '':'' @ p)) = rev p" by simp
  then have "last_index CHR '':'' (h @ '':'' @ p) = Some (length h)"
    by (simp add: last_index_def)
  moreover have "\<not> prefix ''['' (h @ '':'' @ p)"
    using assms by (cases h) auto
  ultimately show ?thesis
    using assms by (simp add: net_SplitHostPort_def)
qed

subsection \<open>Properties\<close>

text \<open>C25: A trusted IPv4 network is exactly its prefix. With one entry \<open>q/n\<close> in the environment, a
  request is taken to come from a trusted proxy exactly when the top \<open>n\<close> bits of its peer
  address are those of \<open>q\<close>; the port plays no part.\<close>

theorem trustedProxy_v4_iff:
  assumes "length q = 4" "n \<le> 32" "length a = 4" "list_all is_digit port"
    and "rq_RemoteAddr r = format_v4 a @ '':'' @ port"
  shows "trustedProxy (parseTrustedProxies (format_v4 q @ ''/'' @ show_nat n)) r \<longleftrightarrow>
    bytes_val a div 2 ^ (32 - n) = bytes_val q div 2 ^ (32 - n)"
proof -
  have "remote_host r = format_v4 a"
    unfolding remote_host_def assms(5)
    by (subst SplitHostPort_plain)
       (use assms(4) in \<open>auto simp: list_all_iff is_digit_def byte_def
          dest: format_v4_absent [OF assms(3), THEN notE, rotated 2]\<close>)
  then show ?thesis
    using assms(1-3)
    by (simp add: trustedProxy_def parseTrustedProxies_v4 [simplified] net_ParseIP_def parse_addr_format
        as16_def cidr_contains_def Contains_v4)
qed

theorem trustedProxy_v4_iff_witness:
  "trustedProxy (parseTrustedProxies (format_v4 [10, 1, 0, 0] @ ''/'' @ show_nat 16))
     ((get_request ''h'' ''/'')\<lparr>rq_RemoteAddr := format_v4 [10, 1, 7, 9] @ '':'' @ ''443''\<rparr>)
   \<and> \<not> trustedProxy (parseTrustedProxies (format_v4 [10, 1, 0, 0] @ ''/'' @ show_nat 16))
     ((get_request ''h'' ''/'')\<lparr>rq_RemoteAddr := format_v4 [10, 2, 7, 9] @ '':'' @ ''443''\<rparr>)"
  using trustedProxy_v4_iff [of "[10, 1, 0, 0]" 16 "[10, 1, 7, 9]" "''443''"
      "(get_request ''h'' ''/'')\<lparr>rq_RemoteAddr := format_v4 [10, 1, 7, 9] @ '':'' @ ''443''\<rparr>"]
    trustedProxy_v4_iff [of "[10, 1, 0, 0]" 16 "[10, 2, 7, 9]" "''443''"
      "(get_request ''h'' ''/'')\<lparr>rq_RemoteAddr := format_v4 [10, 2, 7, 9] @ '':'' @ ''443''\<rparr>"]
  by (simp add: is_digit_def byte_def)

text \<open>A bare IPv6 address is read as a \<open>/32\<close> network. The entry \<open>::1\<close>, meant for one host,
  makes every peer in \<open>::/32\<close> a trusted proxy, here \<open>::2\<close>.\<close>

theorem bare_ipv6_trusts_network:
  "trustedProxy (parseTrustedProxies ''::1'') ((get_request ''h'' ''/'')\<lparr>rq_RemoteAddr := ''[::2]:443''\<rparr>)"
proof -
  have "strings_TrimSpace ''::1'' = ''::1''"
    by (rule TrimSpace_visible) (simp_all add: visible_def byte_def)
  moreover have "net_ParseCIDR ''::1/32'' =
      Some \<lparr>net_ip = replicate 16 0, net_mask = [255, 255, 255, 255] @ replicate 12 0\<rparr>"
  proof -
    have "parse_addr ''::1'' = Some (V6, replicate 15 0 @ [1])" by code_simp
    moreover have "CIDRMask 32 128 = [255, 255, 255, 255] @ replicate 12 0" by code_simp
    moreover have "ip_Mask (replicate 15 0 @ [1]) ([255, 255, 255, 255] @ replicate 12 0) = replicate 16 0"
      by code_simp
    moreover have "strings_Cut CHR ''/'' ''::1/32'' = Some (''::1'', ''32'')" by simp
    moreover have "digits_val ''32'' = 32" by (simp add: digits_val_def byte_def)
    ultimately show ?thesis
      by (simp only: net_ParseCIDR_def option.case prod.case Let_def bitlen_of_def family.case as16_def)
         (simp add: is_digit_def byte_def)
  qed
  ultimately have "parseTrustedProxies ''::1'' =
      [\<lparr>cidr_net = \<lparr>net_ip = replicate 16 0, net_mask = [255, 255, 255, 255] @ replicate 12 0\<rparr>\<rparr>]"
    by (simp add: parseTrustedProxies_def proxy_entry_def)
  moreover have "net_SplitHostPort ''[::2]:443'' = Some (''::2'', ''443'')" by code_simp
  moreover have "net_ParseIP ''::2'' = Some (replicate 15 0 @ [2])" by code_simp
  moreover have "ipnet_Contains \<lparr>net_ip = replicate 16 0, net_mask = [255, 255, 255, 255] @ replicate 12 0\<rparr>
      (replicate 15 0 @ [2])"
    by code_simp
  ultimately show ?thesis
    by (simp add: trustedProxy_def remote_host_def cidr_contains_def)
qed

end
