(* ===== verification/Metrics.thy ===== *)
theory Metrics
  imports Go_Time "HOL-Library.Word" "HOL-Library.List_Lexorder" "HOL-Library.Char_ord"
begin

text \<open>
  \<open>metrics.go\<close>: the registry of counters, gauges and histograms and its text output. A handle
  (\<open>*Counter\<close>, \<open>*Gauge\<close>, \<open>*Histogram\<close>) is the index of its metric in the registry's list; the
  registry's lock makes every operation atomic, so an operation is a function on the registry.
  A series is keyed by its label values, each followed by a NUL byte (\<open>labelKey\<close>). The locales
  are \<open>label_codec\<close>, the round trip of such keys, and \<open>labelled_counter\<close>, what the code that
  counts events relies on; both are interpreted on the definitions of the code.
\<close>

datatype metricKind = kindCounter | kindGauge | kindHistogram

record metric =
  m_name :: string
  m_help :: string
  m_kind :: metricKind
  m_labels :: "string list"
  m_values :: "(string, f64) gomap"

record histogram =
  h_name :: string
  h_help :: string
  h_labels :: "string list"
  h_buckets :: "f64 list"
  h_sums :: "(string, f64) gomap"
  h_counts :: "(string, 64 word) gomap"
  h_bcount :: "(string, 64 word list) gomap"

record registry =
  metrics :: "metric list"
  histograms :: "histogram list"

text \<open>The handles.\<close>

type_synonym Counter = nat
type_synonym Gauge = nat
type_synonym Histogram = nat

type_synonym label_map = "string \<rightharpoonup> string"

definition NewRegistry :: registry where
  "NewRegistry = \<lparr>metrics = [], histograms = []\<rparr>"

definition new_metric :: "metricKind \<Rightarrow> string \<Rightarrow> string \<Rightarrow> string list \<Rightarrow> registry \<Rightarrow> nat \<times> registry" where
  "new_metric kind name help labelNames r =
     (length (metrics r),
      r\<lparr>metrics := metrics r @
          [\<lparr>m_name = name, m_help = help, m_kind = kind, m_labels = labelNames, m_values = []\<rparr>]\<rparr>)"

definition Registry_Counter :: "string \<Rightarrow> string \<Rightarrow> string list \<Rightarrow> registry \<Rightarrow> Counter \<times> registry" where
  "Registry_Counter name help labelNames r = new_metric kindCounter name help labelNames r"

definition Registry_Gauge :: "string \<Rightarrow> string \<Rightarrow> string list \<Rightarrow> registry \<Rightarrow> Gauge \<times> registry" where
  "Registry_Gauge name help labelNames r = new_metric kindGauge name help labelNames r"

definition Registry_Histogram ::
  "string \<Rightarrow> string \<Rightarrow> string list \<Rightarrow> f64 list \<Rightarrow> registry \<Rightarrow> Histogram \<times> registry" where
  "Registry_Histogram name help labelNames buckets r =
     (length (histograms r),
      r\<lparr>histograms := histograms r @
          [\<lparr>h_name = name, h_help = help, h_labels = labelNames, h_buckets = buckets,
            h_sums = [], h_counts = [], h_bcount = []\<rparr>]\<rparr>)"

subsection \<open>Keys of series\<close>

definition labelKey :: "string list \<Rightarrow> label_map \<Rightarrow> string" where
  "labelKey names labels =
     (if names = [] then [] else List.concat (List.map (\<lambda>n. lookup_or [] labels n @ [CHR 0x00]) names))"

definition labelList :: "string list \<Rightarrow> label_map \<Rightarrow> string" where
  "labelList names labels = strings_Join (List.map (\<lambda>n. n @ ''='' @ lookup_or [] labels n) names) '',''"

definition splitNul :: "string \<Rightarrow> string list" where
  "splitNul key =
     (let parts = strings_Split (CHR 0x00) key
      in if last parts = [] then butlast parts else parts)"

definition parseKey :: "string list \<Rightarrow> string \<Rightarrow> (string, string) gomap" where
  "parseKey names key =
     (if key = [] then []
      else fold (\<lambda>(n, p) out. AList.update n p out) (zip names (splitNul key)) [])"

subsection \<open>Operations on series\<close>

definition metric_add :: "label_map \<Rightarrow> f64 \<Rightarrow> metric \<Rightarrow> metric" where
  "metric_add labels v m =
     (let k = labelKey (m_labels m) labels
      in m\<lparr>m_values := AList.update k (f64_add (lookup_or 0 (map_of (m_values m)) k) v) (m_values m)\<rparr>)"

definition metric_set :: "label_map \<Rightarrow> f64 \<Rightarrow> metric \<Rightarrow> metric" where
  "metric_set labels v m =
     m\<lparr>m_values := AList.update (labelKey (m_labels m) labels) v (m_values m)\<rparr>"

definition update_metric :: "nat \<Rightarrow> (metric \<Rightarrow> metric) \<Rightarrow> registry \<Rightarrow> registry" where
  "update_metric i f r = r\<lparr>metrics := (metrics r)[i := f (metrics r ! i)]\<rparr>"

definition Counter_Add :: "Counter \<Rightarrow> label_map \<Rightarrow> f64 \<Rightarrow> registry \<Rightarrow> registry" where
  "Counter_Add c labels v r = update_metric c (metric_add labels v) r"

definition Counter_Inc :: "Counter \<Rightarrow> label_map \<Rightarrow> registry \<Rightarrow> registry" where
  "Counter_Inc c labels r = Counter_Add c labels 1 r"

definition Gauge_Set :: "Gauge \<Rightarrow> label_map \<Rightarrow> f64 \<Rightarrow> registry \<Rightarrow> registry" where
  "Gauge_Set g labels v r = update_metric g (metric_set labels v) r"

definition Gauge_Add :: "Gauge \<Rightarrow> label_map \<Rightarrow> f64 \<Rightarrow> registry \<Rightarrow> registry" where
  "Gauge_Add g labels v r = update_metric g (metric_add labels v) r"

text \<open>A 64-bit count that wraps around.\<close>

definition observe_buckets :: "f64 list \<Rightarrow> f64 \<Rightarrow> 64 word list \<Rightarrow> 64 word list" where
  "observe_buckets buckets v bc = map2 (\<lambda>b n. if v \<le> b then n + 1 else n) buckets bc"

definition histogram_observe :: "label_map \<Rightarrow> f64 \<Rightarrow> histogram \<Rightarrow> histogram" where
  "histogram_observe labels v h =
     (let k = labelKey (h_labels h) labels;
          bc = (case map_of (h_bcount h) k of None \<Rightarrow> replicate (length (h_buckets h)) 0 | Some b \<Rightarrow> b)
      in h\<lparr>h_sums := AList.update k (f64_add (lookup_or 0 (map_of (h_sums h)) k) v) (h_sums h),
           h_counts := AList.update k (lookup_or 0 (map_of (h_counts h)) k + 1) (h_counts h),
           h_bcount := AList.update k (observe_buckets (h_buckets h) v bc) (h_bcount h)\<rparr>)"

definition Histogram_Observe :: "Histogram \<Rightarrow> label_map \<Rightarrow> f64 \<Rightarrow> registry \<Rightarrow> registry" where
  "Histogram_Observe i labels v r =
     r\<lparr>histograms := (histograms r)[i := histogram_observe labels v (histograms r ! i)]\<rparr>"

subsection \<open>Numbers in the output\<close>

text \<open>
  \<open>%g\<close>: the nearest decimal with the fewest digits that reads back as the same number, in
  exponent form when the exponent is below -4 or above 5. A positive number is its digits and
  the position \<open>dp\<close> of the decimal point before them.
\<close>

definition pow10 :: "int \<Rightarrow> rat" where
  "pow10 e = (if 0 \<le> e then 10 ^ nat e else 1 / 10 ^ nat (- e))"

definition ilog10 :: "rat \<Rightarrow> int" where
  "ilog10 x =
     (if 1 \<le> x then int (length (show_nat (nat \<lfloor>x\<rfloor>))) - 1
      else - int (length (show_nat (nat \<lceil>1 / x\<rceil> - 1))))"

fun shortest_from :: "nat \<Rightarrow> nat \<Rightarrow> f64 \<Rightarrow> string \<times> int" where
  "shortest_from fuel p x =
     (let e = ilog10 x - int p + 1;
          m = round_half_even (x / pow10 e);
          ds = show_nat (nat m)
      in case fuel of
           0 \<Rightarrow> (ds, int (length ds) + e)
         | Suc fuel' \<Rightarrow>
             if f64_round (of_int m * pow10 e) = x then (ds, int (length ds) + e)
             else shortest_from fuel' (Suc p) x)"

definition shortest_decimal :: "f64 \<Rightarrow> string \<times> int" where
  "shortest_decimal x =
     (case shortest_from 16 1 x of
        (ds, dp) \<Rightarrow> (rev (dropWhile (\<lambda>c. c = CHR ''0'') (rev ds)), dp))"

definition fmt_e :: "string \<Rightarrow> int \<Rightarrow> string" where
  "fmt_e ds ex =
     take 1 ds @ (if 1 < length ds then ''.'' @ drop 1 ds else []) @ ''e'' @
     (if ex < 0 then ''-'' else ''+'') @ zero_pad 2 (nat \<bar>ex\<bar>)"

definition fmt_f :: "string \<Rightarrow> int \<Rightarrow> string" where
  "fmt_f ds dp =
     (if 0 < dp then take (nat dp) ds @ replicate (nat dp - length ds) CHR ''0'' else ''0'') @
     (if dp < int (length ds)
      then ''.'' @ replicate (nat (- dp)) CHR ''0'' @ drop (nat dp) ds else [])"

definition fmt_g :: "f64 \<Rightarrow> string" where
  "fmt_g x =
     (if x = 0 then ''0''
      else let (ds, dp) = shortest_decimal \<bar>x\<bar>
           in (if x < 0 then ''-'' else []) @
              (if dp - 1 < - 4 \<or> 6 \<le> dp - 1 then fmt_e ds (dp - 1) else fmt_f ds dp))"

definition le_label :: "f64 \<Rightarrow> string" where
  "le_label v = (if 10 ^ 15 < v then ''+Inf'' else fmt_g v)"

subsection \<open>Text output\<close>

definition hasLabel :: "string list \<Rightarrow> string \<Rightarrow> bool" where
  "hasLabel names target \<longleftrightarrow> list_ex (\<lambda>n. n = target) names"

definition kindName :: "metricKind \<Rightarrow> string" where
  "kindName k =
     (case k of kindCounter \<Rightarrow> ''counter'' | kindGauge \<Rightarrow> ''gauge'' | kindHistogram \<Rightarrow> ''histogram'')"

definition addBucketLabel :: "(string, string) gomap \<Rightarrow> string \<Rightarrow> string" where
  "addBucketLabel labels leVal =
     (let keys = sort (keys_of labels)
      in strings_Join (List.map (\<lambda>k. k @ ''='' @ lookup_or [] (map_of labels) k) keys) '','' @
         (if keys = [] then [] else '','') @ ''le='' @ leVal)"

definition sortedKeys :: "(string, 'v) gomap \<Rightarrow> string list" where
  "sortedKeys m = sort (keys_of m)"

abbreviation nl :: string where "nl \<equiv> [CHR 0x0A]"

definition show_u64 :: "64 word \<Rightarrow> string" where
  "show_u64 n = show_nat (unat n)"

text \<open>The lines of a series that the filter leaves out are none.\<close>

definition filtered_out :: "string \<Rightarrow> (string, string) gomap \<Rightarrow> bool" where
  "filtered_out subdomain labels \<longleftrightarrow>
     subdomain \<noteq> [] \<and> lookup_or [] (map_of labels) ''subdomain'' \<noteq> subdomain"

definition metric_sample :: "string \<Rightarrow> metric \<Rightarrow> string \<Rightarrow> string" where
  "metric_sample subdomain m k =
     (let labels = parseKey (m_labels m) k; v = lookup_or 0 (map_of (m_values m)) k
      in if filtered_out subdomain labels then []
         else if labels = [] then m_name m @ '' '' @ fmt_g v @ nl
         else m_name m @ ''{'' @ labelList (m_labels m) (map_of labels) @ ''} '' @ fmt_g v @ nl)"

definition write_metric :: "string \<Rightarrow> metric \<Rightarrow> string" where
  "write_metric subdomain m =
     (if subdomain \<noteq> [] \<and> \<not> hasLabel (m_labels m) ''subdomain'' then []
      else ''# HELP '' @ m_name m @ '' '' @ m_help m @ nl @
           ''# TYPE '' @ m_name m @ '' '' @ kindName (m_kind m) @ nl @
           (if m_values m = [] then (if m_labels m = [] then m_name m @ '' 0'' @ nl else [])
            else List.concat (List.map (metric_sample subdomain m) (sortedKeys (m_values m)))))"

definition histogram_sample :: "string \<Rightarrow> histogram \<Rightarrow> string \<Rightarrow> string" where
  "histogram_sample subdomain h k =
     (let labels = parseKey (h_labels h) k;
          n = lookup_or 0 (map_of (h_counts h)) k;
          bc = lookup_or [] (map_of (h_bcount h)) k;
          ll = labelList (h_labels h) (map_of labels)
      in if filtered_out subdomain labels then []
         else List.concat (List.map (\<lambda>(b, c).
                h_name h @ ''_bucket{'' @ addBucketLabel labels (le_label b) @ ''} '' @ show_u64 c @ nl)
                (zip (h_buckets h) bc)) @
              h_name h @ ''_bucket{'' @ addBucketLabel labels ''+Inf'' @ ''} '' @ show_u64 n @ nl @
              h_name h @ ''_sum{'' @ ll @ ''} '' @ fmt_g (lookup_or 0 (map_of (h_sums h)) k) @ nl @
              h_name h @ ''_count{'' @ ll @ ''} '' @ show_u64 n @ nl)"

definition write_histogram :: "string \<Rightarrow> histogram \<Rightarrow> string" where
  "write_histogram subdomain h =
     (if subdomain \<noteq> [] \<and> \<not> hasLabel (h_labels h) ''subdomain'' then []
      else ''# HELP '' @ h_name h @ '' '' @ h_help h @ nl @
           ''# TYPE '' @ h_name h @ '' histogram'' @ nl @
           List.concat (List.map (histogram_sample subdomain h) (sortedKeys (h_counts h))))"

definition Registry_writeTo :: "registry \<Rightarrow> string \<Rightarrow> string" where
  "Registry_writeTo r subdomain =
     List.concat (List.map (write_metric subdomain) (metrics r)) @
     List.concat (List.map (write_histogram subdomain) (histograms r))"

text \<open>\<open>WriteTo\<close> counts the bytes it writes.\<close>

definition Registry_WriteTo :: "registry \<Rightarrow> string \<times> int" where
  "Registry_WriteTo r = (let out = Registry_writeTo r [] in (out, int (length out)))"

definition WriteToFiltered :: "registry \<Rightarrow> string \<Rightarrow> string" where
  "WriteToFiltered r subdomain = Registry_writeTo r subdomain"

definition HistogramStats :: "string \<Rightarrow> string \<Rightarrow> registry \<Rightarrow> f64 \<times> 64 word" where
  "HistogramStats name subdomain r =
     fold (\<lambda>h acc.
        if h_name h \<noteq> name then acc
        else fold (\<lambda>(k, c) (sum, count).
               if lookup_or [] (map_of (parseKey (h_labels h) k)) ''subdomain'' \<noteq> subdomain then (sum, count)
               else (f64_add sum (lookup_or 0 (map_of (h_sums h)) k), count + c)) (h_counts h) acc)
       (histograms r) (0, 0)"

subsection \<open>Keys can be read back\<close>

text \<open>Label values without a NUL byte.\<close>

definition clean_labels :: "string list \<Rightarrow> label_map \<Rightarrow> bool" where
  "clean_labels names labels \<longleftrightarrow> list_all (\<lambda>n. CHR 0x00 \<notin> set (lookup_or [] labels n)) names"

definition agree_on :: "string list \<Rightarrow> label_map \<Rightarrow> label_map \<Rightarrow> bool" where
  "agree_on names l l' \<longleftrightarrow> list_all (\<lambda>n. lookup_or [] l n = lookup_or [] l' n) names"

locale label_codec =
  fixes enc :: "string list \<Rightarrow> label_map \<Rightarrow> string"
    and dec :: "string list \<Rightarrow> string \<Rightarrow> (string, string) gomap"
    and clean :: "string list \<Rightarrow> label_map \<Rightarrow> bool"
  assumes dec_enc: "clean ns l \<Longrightarrow>
      map_of (dec ns (enc ns l)) n = (if n \<in> set ns then Some (lookup_or [] l n) else None)"
    and enc_cong: "agree_on ns l l' \<Longrightarrow> enc ns l = enc ns l'"
begin

lemma enc_eq_iff: "clean ns l \<Longrightarrow> clean ns l' \<Longrightarrow> enc ns l = enc ns l' \<longleftrightarrow> agree_on ns l l'"
proof
  assume c: "clean ns l" "clean ns l'" and eq: "enc ns l = enc ns l'"
  have "lookup_or [] l n = lookup_or [] l' n" if "n \<in> set ns" for n
    using dec_enc [OF c(1), of n] dec_enc [OF c(2), of n] eq that by simp
  then show "agree_on ns l l'" by (simp add: agree_on_def list_all_iff)
qed (rule enc_cong)

lemma dec_subdomain:
  "clean ns l \<Longrightarrow> n \<in> set ns \<Longrightarrow> lookup_or [] (map_of (dec ns (enc ns l))) n = lookup_or [] l n"
  by (simp add: dec_enc)

end

lemma labelKey_concat:
  "labelKey names labels = List.concat (List.map (\<lambda>n. lookup_or [] labels n @ [CHR 0x00]) names)"
  by (simp add: labelKey_def)

lemma Split_labelKey:
  "clean_labels names labels \<Longrightarrow>
    strings_Split (CHR 0x00) (labelKey names labels) = List.map (lookup_or [] labels) names @ [[]]"
  by (induction names)
     (simp_all add: labelKey_concat clean_labels_def Split_append_sep)

lemma splitNul_labelKey:
  "clean_labels names labels \<Longrightarrow> splitNul (labelKey names labels) = List.map (lookup_or [] labels) names"
  by (simp add: splitNul_def Split_labelKey)

lemma fold_update_zip:
  "map_of (fold (\<lambda>(n, p) out. AList.update n p out) (zip ns (List.map v ns)) m) k =
    (if k \<in> set ns then Some (v k) else map_of m k)"
  by (induction ns arbitrary: m) auto

lemma labelKey_Nil_iff: "labelKey names labels = [] \<longleftrightarrow> names = []"
  by (cases names) (simp_all add: labelKey_concat)

lemma parse_labelKey:
  "clean_labels names labels \<Longrightarrow>
    map_of (parseKey names (labelKey names labels)) n =
      (if n \<in> set names then Some (lookup_or [] labels n) else None)"
  by (simp add: parseKey_def labelKey_Nil_iff splitNul_labelKey fold_update_zip)

interpretation series_key: label_codec labelKey parseKey clean_labels
proof (unfold_locales, goal_cases)
  case (1 ns l n)
  then show ?case by (rule parse_labelKey)
next
  case (2 ns l l')
  then have "lookup_or [] l n = lookup_or [] l' n" if "n \<in> set ns" for n
    using that by (simp add: agree_on_def list_all_iff)
  then show ?case
    by (simp add: labelKey_concat cong: map_cong)
qed

subsection \<open>Counting events\<close>

locale labelled_counter =
  fixes add :: "label_map \<Rightarrow> f64 \<Rightarrow> 'm \<Rightarrow> 'm"
    and get :: "'m \<Rightarrow> label_map \<Rightarrow> f64"
    and same :: "'m \<Rightarrow> label_map \<Rightarrow> label_map \<Rightarrow> bool"
    and ok :: "'m \<Rightarrow> label_map \<Rightarrow> bool"
  assumes get_add: "ok m l \<Longrightarrow> ok m l' \<Longrightarrow>
      get (add l v m) l' = (if same m l l' then f64_add (get m l') v else get m l')"
    and same_add: "same (add l v m) = same m"
    and ok_add: "ok (add l v m) = ok m"
begin

text \<open>A counter that is only incremented holds the number of increments, up to 2^53.\<close>

lemma count_run:
  assumes "\<And>e. e \<in> set es \<Longrightarrow> ok m e" "ok m l" "get m l = of_nat k"
    and "k + length (filter (\<lambda>e. same m e l) es) \<le> 2 ^ 53"
  shows "get (fold (\<lambda>e. add e 1) es m) l = of_nat (k + length (filter (\<lambda>e. same m e l) es))"
  using assms
proof (induction es arbitrary: m k)
  case (Cons e es)
  let ?k = "if same m e l then k + 1 else k"
  have step: "get (add e 1 m) l = of_nat ?k"
  proof (cases "same m e l")
    case True
    with Cons.prems have "k + 1 \<le> 2 ^ 53" by simp
    then have "f64_add (of_nat k) (of_nat 1) = of_nat (k + 1)" by (rule f64_add_of_nat)
    with True Cons.prems show ?thesis by (simp add: get_add)
  qed (use Cons.prems in \<open>simp add: get_add\<close>)
  have "get (fold (\<lambda>e. add e 1) es (add e 1 m)) l =
      of_nat (?k + length (filter (\<lambda>e'. same (add e 1 m) e' l) es))"
  proof (rule Cons.IH [OF _ _ step])
    show "ok (add e 1 m) x" if "x \<in> set es" for x using that Cons.prems by (simp add: ok_add)
    show "ok (add e 1 m) l" using Cons.prems by (simp add: ok_add)
    show "?k + length (filter (\<lambda>e'. same (add e 1 m) e' l) es) \<le> 2 ^ 53"
      using Cons.prems by (simp add: same_add split: if_splits)
  qed
  then show ?case by (simp add: same_add)
qed simp

end

definition metric_value :: "metric \<Rightarrow> label_map \<Rightarrow> f64" where
  "metric_value m labels = lookup_or 0 (map_of (m_values m)) (labelKey (m_labels m) labels)"

lemma m_labels_ops [simp]:
  "m_labels (metric_add l v m) = m_labels m" "m_labels (metric_set l v m) = m_labels m"
  "m_name (metric_add l v m) = m_name m" "m_name (metric_set l v m) = m_name m"
  "m_help (metric_add l v m) = m_help m" "m_help (metric_set l v m) = m_help m"
  "m_kind (metric_add l v m) = m_kind m" "m_kind (metric_set l v m) = m_kind m"
  by (simp_all add: metric_add_def metric_set_def Let_def)

lemma metric_value_add:
  assumes "clean_labels (m_labels m) l" "clean_labels (m_labels m) l'"
  shows "metric_value (metric_add l v m) l' =
    (if agree_on (m_labels m) l l' then f64_add (metric_value m l') v else metric_value m l')"
  using series_key.enc_eq_iff [OF assms(2,1)] series_key.enc_eq_iff [OF assms]
  by (auto simp: metric_value_def metric_add_def Let_def lookup_or_def)

lemma metric_value_set:
  assumes "clean_labels (m_labels m) l" "clean_labels (m_labels m) l'"
  shows "metric_value (metric_set l v m) l' =
    (if agree_on (m_labels m) l l' then v else metric_value m l')"
  using series_key.enc_eq_iff [OF assms(2,1)] series_key.enc_eq_iff [OF assms]
  by (auto simp: metric_value_def metric_set_def Let_def lookup_or_def)

interpretation metric_series: labelled_counter metric_add metric_value
  "\<lambda>m. agree_on (m_labels m)" "\<lambda>m. clean_labels (m_labels m)"
  by unfold_locales (simp_all add: metric_value_add)

subsection \<open>Histograms\<close>

definition hist_count :: "histogram \<Rightarrow> string \<Rightarrow> 64 word" where
  "hist_count h k = lookup_or 0 (map_of (h_counts h)) k"

definition hist_buckets :: "histogram \<Rightarrow> string \<Rightarrow> 64 word list" where
  "hist_buckets h k = lookup_or (replicate (length (h_buckets h)) 0) (map_of (h_bcount h)) k"

definition wf_histogram :: "histogram \<Rightarrow> bool" where
  "wf_histogram h \<longleftrightarrow> (\<forall>k. length (hist_buckets h k) = length (h_buckets h))"

lemma h_ops [simp]:
  "h_labels (histogram_observe l v h) = h_labels h" "h_buckets (histogram_observe l v h) = h_buckets h"
  "h_name (histogram_observe l v h) = h_name h" "h_help (histogram_observe l v h) = h_help h"
  by (simp_all add: histogram_observe_def Let_def)

lemma hist_count_observe:
  "hist_count (histogram_observe l v h) k =
    (if labelKey (h_labels h) l = k then hist_count h k + 1 else hist_count h k)"
  by (auto simp: hist_count_def histogram_observe_def Let_def lookup_or_def)

lemma hist_buckets_observe:
  "hist_buckets (histogram_observe l v h) k =
    (if labelKey (h_labels h) l = k then observe_buckets (h_buckets h) v (hist_buckets h k)
     else hist_buckets h k)"
  by (auto simp: hist_buckets_def histogram_observe_def Let_def lookup_or_def)

lemma wf_observe: "wf_histogram h \<Longrightarrow> wf_histogram (histogram_observe l v h)"
  by (simp add: wf_histogram_def hist_buckets_observe observe_buckets_def)

lemma count_observe_run:
  "hist_count (fold (\<lambda>(l, v). histogram_observe l v) obs h) k =
    hist_count h k + of_nat (length (filter (\<lambda>(l, v). labelKey (h_labels h) l = k) obs))"
  by (induction obs arbitrary: h) (auto simp: hist_count_observe)

lemma buckets_observe_run:
  assumes "wf_histogram h" "i < length (h_buckets h)"
  shows "hist_buckets (fold (\<lambda>(l, v). histogram_observe l v) obs h) k ! i =
      hist_buckets h k ! i +
      of_nat (length (filter (\<lambda>(l, v). labelKey (h_labels h) l = k \<and> v \<le> h_buckets h ! i) obs))"
  using assms
proof (induction obs arbitrary: h)
  case (Cons p obs)
  obtain l v where p: "p = (l, v)" by force
  let ?h = "histogram_observe l v h"
  have wf: "wf_histogram ?h" using Cons.prems by (simp add: wf_observe)
  have i: "i < length (h_buckets ?h)" using Cons.prems by simp
  have len: "i < length (hist_buckets h k)" using Cons.prems by (simp add: wf_histogram_def)
  show ?case using Cons.IH [OF wf i] Cons.prems len
    by (simp add: p hist_buckets_observe observe_buckets_def)
qed simp

subsection \<open>Filtered output\<close>

lemma concat_map_skip: "f k = [] \<Longrightarrow> List.concat (List.map f (filter (\<lambda>x. x \<noteq> k) xs)) = List.concat (List.map f xs)"
  by (induction xs) auto

lemma keys_of_update_other:
  "filter (\<lambda>x. x \<noteq> k) (keys_of (AList.update k v m)) = filter (\<lambda>x. x \<noteq> k) (keys_of m)"
  by (induction m) (auto simp: keys_of_def)

text \<open>A series whose lines are left out does not influence the others.\<close>

lemma output_update:
  assumes "f k = []" "f' k = []" "\<And>x. x \<noteq> k \<Longrightarrow> f' x = f x"
  shows "List.concat (List.map f' (sortedKeys (AList.update k v m))) = List.concat (List.map f (sortedKeys m))"
proof -
  let ?P = "\<lambda>x. x \<noteq> k"
  have "List.concat (List.map f' (sortedKeys (AList.update k v m))) =
      List.concat (List.map f' (sort (filter ?P (keys_of (AList.update k v m)))))"
    using concat_map_skip [of f' k "sort (keys_of (AList.update k v m))", OF assms(2)]
    by (simp add: sortedKeys_def filter_sort)
  also have "\<dots> = List.concat (List.map f (sort (filter ?P (keys_of m))))"
    using assms(3) by (auto simp: keys_of_update_other intro!: arg_cong [of _ _ List.concat] map_cong)
  also have "\<dots> = List.concat (List.map f (sortedKeys m))"
    using concat_map_skip [of f k "sort (keys_of m)", OF assms(1)]
    by (simp add: sortedKeys_def filter_sort)
  finally show ?thesis .
qed

lemma filtered_out_key:
  assumes "clean_labels names l" "''subdomain'' \<in> set names" "sub \<noteq> []" "lookup_or [] l ''subdomain'' \<noteq> sub"
  shows "filtered_out sub (parseKey names (labelKey names l))"
  using assms series_key.dec_subdomain [OF assms(1,2)] by (simp add: filtered_out_def)

lemma write_metric_other:
  assumes "clean_labels (m_labels m) l" "sub \<noteq> []" "lookup_or [] l ''subdomain'' \<noteq> sub"
    and "m' = m\<lparr>m_values := AList.update (labelKey (m_labels m) l) v (m_values m)\<rparr>"
  shows "write_metric sub m' = write_metric sub m"
proof (cases "''subdomain'' \<in> set (m_labels m)")
  case True
  let ?k = "labelKey (m_labels m) l"
  have "filtered_out sub (parseKey (m_labels m) ?k)"
    using filtered_out_key [OF assms(1) True assms(2,3)] .
  then have "List.concat (List.map (metric_sample sub m') (sortedKeys (AList.update ?k v (m_values m)))) =
      List.concat (List.map (metric_sample sub m) (sortedKeys (m_values m)))"
    by (intro output_update) (auto simp: metric_sample_def assms(4) Let_def lookup_or_def)
  moreover have "m_labels m \<noteq> []" using True by auto
  moreover have "AList.update ?k v (m_values m) \<noteq> []" by (cases "m_values m") auto
  ultimately show ?thesis
    by (auto simp: write_metric_def assms(4) sortedKeys_def keys_of_def)
qed (use assms in \<open>auto simp: write_metric_def hasLabel_def list_ex_iff\<close>)

lemma write_histogram_other:
  assumes "clean_labels (h_labels h) l" "sub \<noteq> []" "lookup_or [] l ''subdomain'' \<noteq> sub"
  shows "write_histogram sub (histogram_observe l v h) = write_histogram sub h"
proof (cases "''subdomain'' \<in> set (h_labels h)")
  case True
  let ?k = "labelKey (h_labels h) l" and ?h = "histogram_observe l v h"
  have out: "filtered_out sub (parseKey (h_labels h) ?k)"
    using filtered_out_key [OF assms(1) True assms(2,3)] .
  have "histogram_sample sub ?h x = histogram_sample sub h x" if "x \<noteq> ?k" for x
    using that unfolding histogram_sample_def histogram_observe_def by (simp add: Let_def lookup_or_def)
  moreover have "h_counts ?h = AList.update ?k (lookup_or 0 (map_of (h_counts h)) ?k + 1) (h_counts h)"
    by (simp add: histogram_observe_def Let_def)
  moreover have "histogram_sample sub h ?k = []" "histogram_sample sub ?h ?k = []"
    using out by (simp_all add: histogram_sample_def)
  ultimately have "List.concat (List.map (histogram_sample sub ?h) (sortedKeys (h_counts ?h))) =
      List.concat (List.map (histogram_sample sub h) (sortedKeys (h_counts h)))"
    using output_update [of "histogram_sample sub h" ?k "histogram_sample sub ?h"] by metis
  then show ?thesis using assms(2) by (simp add: write_histogram_def)
qed (use assms in \<open>auto simp: write_histogram_def hasLabel_def list_ex_iff\<close>)

lemma concat_map_list_update:
  "i < length xs \<Longrightarrow> f y = f (xs ! i) \<Longrightarrow> List.concat (List.map f (xs[i := y])) = List.concat (List.map f xs)"
  by (metis list_update_id map_update)

subsection \<open>Properties\<close>

text \<open>The metrics page of a service shows nothing of other services. Adding to a counter or
  gauge, setting a gauge or observing a duration under label values whose subdomain is not
  \<open>sub\<close> does not change a byte of the output filtered for \<open>sub\<close>.\<close>

theorem filtered_metrics_isolated:
  assumes "sub \<noteq> []" "lookup_or [] l ''subdomain'' \<noteq> sub"
    and "i < length (metrics r)" "clean_labels (m_labels (metrics r ! i)) l"
    and "j < length (histograms r)" "clean_labels (h_labels (histograms r ! j)) l"
  shows "WriteToFiltered (Counter_Add i l v r) sub = WriteToFiltered r sub
    \<and> WriteToFiltered (Gauge_Set i l v r) sub = WriteToFiltered r sub
    \<and> WriteToFiltered (Histogram_Observe j l v r) sub = WriteToFiltered r sub"
proof -
  have m: "write_metric sub (metric_add l v (metrics r ! i)) = write_metric sub (metrics r ! i)"
    "write_metric sub (metric_set l v (metrics r ! i)) = write_metric sub (metrics r ! i)"
    by (rule write_metric_other [OF assms(4,1,2)]; simp add: metric_add_def metric_set_def Let_def; rule refl)+
  have h: "write_histogram sub (histogram_observe l v (histograms r ! j)) = write_histogram sub (histograms r ! j)"
    by (rule write_histogram_other [OF assms(6,1,2)])
  show ?thesis
    using concat_map_list_update [OF assms(3), of "write_metric sub"]
      concat_map_list_update [OF assms(5) h] m
    by (simp add: WriteToFiltered_def Registry_writeTo_def Counter_Add_def Gauge_Set_def
        update_metric_def Histogram_Observe_def)
qed

text \<open>Label values go into the output unquoted. A path with a line break in it, as a label of the
  counter of failed logins, ends the sample's line and starts one of its own, here a forged
  sample of another metric.\<close>

theorem label_value_forges_line:
  "write_metric [] (metric_add [''path'' \<mapsto> ''/x} 0'' @ nl @ ''docknap_up 0'' @ nl @ ''#'', ''reason'' \<mapsto> ''invalid''] 1
      \<lparr>m_name = ''auth'', m_help = ''h'', m_kind = kindCounter, m_labels = [''path'', ''reason''], m_values = []\<rparr>) =
   ''# HELP auth h'' @ nl @ ''# TYPE auth counter'' @ nl @
   ''auth{path=/x} 0'' @ nl @ ''docknap_up 0'' @ nl @ ''#,reason=invalid} 1'' @ nl"
proof -
  have "fmt_g (f64_add 0 1) = ''1''"
  proof -
    have "f64_add 0 1 = 1" using f64_add_of_nat [of 0 1] by simp
    moreover have "shortest_decimal 1 = (''1'', 1)"
    proof -
      have "ilog10 1 = 0" by (simp add: ilog10_def go_simps digit_def)
      moreover have "f64_round 1 = 1" using f64_round_of_nat [of 1] by simp
      ultimately show ?thesis
        using round_half_even_of_int [of 1]
        by (simp add: shortest_decimal_def pow10_def shortest_from.simps [of 16] Let_def go_simps digit_def)
    qed
    ultimately show ?thesis by (simp add: fmt_g_def fmt_f_def)
  qed
  then show ?thesis
    by (simp add: write_metric_def metric_add_def labelKey_def sortedKeys_def keys_of_def
        metric_sample_def parseKey_def splitNul_def filtered_out_def labelList_def hasLabel_def kindName_def)
qed

text \<open>The output is not the format that its content type names. In Prometheus' text format a
  label's value stands between double quotes; \<open>labelList\<close> writes none. \<open>quoted_label\<close> is the start
  of a sample line with labels in that format: the metric's name, a brace, a label's name, an
  equals sign and a quote. No line of a labelled series has it, unless the value brings the quote.\<close>

definition name_char :: "char \<Rightarrow> bool" where
  "name_char c \<longleftrightarrow> c \<notin> set ''{}=, '' \<and> c \<noteq> CHR 0x22"

definition quoted_label :: "string \<Rightarrow> bool" where
  "quoted_label line \<longleftrightarrow>
     take 2 (dropWhile name_char (drop 1 (dropWhile name_char line))) = ''='' @ [CHR 0x22]"

theorem samples_are_unquoted:
  assumes "m_labels m = n # ns" "clean_labels (n # ns) l"
    and "list_all name_char (m_name m)" "list_all name_char n"
    and "take 1 (lookup_or [] l n) \<noteq> [CHR 0x22]"
  shows "\<not> quoted_label (metric_sample [] m (labelKey (m_labels m) l))"
proof -
  let ?labels = "parseKey (m_labels m) (labelKey (m_labels m) l)" and ?v = "lookup_or [] l n"
  have v: "map_of ?labels n = Some ?v" using parse_labelKey [OF assms(2), of n] assms(1) by simp
  then have some: "?labels \<noteq> []" "lookup_or [] (map_of ?labels) n = ?v" by (auto simp: lookup_or_def)
  have join: "labelList (x # xs) f =
      x @ CHR ''='' # lookup_or [] f x @ (if xs = [] then [] else CHR '','' # labelList xs f)" for x xs f
    by (cases xs) (simp_all add: labelList_def)
  define rest where "rest = (if ns = [] then [] else CHR '','' # labelList ns (map_of ?labels)) @ ''} '' @
    fmt_g (lookup_or 0 (map_of (m_values m)) (labelKey (m_labels m) l)) @ nl"
  have c: "take 1 rest \<noteq> [CHR 0x22]" by (simp add: rest_def)
  have line: "metric_sample [] m (labelKey (m_labels m) l) = m_name m @ CHR ''{'' # n @ CHR ''='' # ?v @ rest"
    using some join [of n ns "map_of ?labels"]
    by (simp add: metric_sample_def Let_def filtered_out_def assms(1) rest_def)
  have "dropWhile name_char (w @ x # xs) = x # xs" if "list_all name_char w" "\<not> name_char x" for w x xs
    using that by (simp add: dropWhile_append3 list_all_iff)
  moreover have "\<not> name_char CHR ''{''" "\<not> name_char CHR ''=''" by (simp_all add: name_char_def)
  ultimately show ?thesis
    using assms(3-5) c by (cases "?v @ rest"; cases ?v) (auto simp: quoted_label_def line)
qed

theorem samples_are_unquoted_witness:
  "\<not> quoted_label (metric_sample [] \<lparr>m_name = ''up'', m_help = ''h'', m_kind = kindGauge,
     m_labels = [''subdomain''], m_values = []\<rparr> (labelKey [''subdomain''] [''subdomain'' \<mapsto> ''app'']))"
  using samples_are_unquoted [of "\<lparr>m_name = ''up'', m_help = ''h'', m_kind = kindGauge,
     m_labels = [''subdomain''], m_values = []\<rparr>" "''subdomain''" "[]" "[''subdomain'' \<mapsto> ''app'']"]
  by (simp add: clean_labels_def name_char_def lookup_or_def)

text \<open>A counter counts. After any sequence of increments of a new counter, the value for given
  label values is exactly the number of increments with these label values, as long as that
  number is at most 2^53; increments of other series do not show. Label values are free of
  NUL bytes.\<close>

theorem counter_counts:
  assumes "Registry_Counter name help names r = (c, r1)"
    and "list_all (clean_labels names) es" "clean_labels names l"
    and "length (filter (\<lambda>e. agree_on names e l) es) \<le> 2 ^ 53"
  shows "metric_value (metrics (fold (Counter_Inc c) es r1) ! c) l =
    of_nat (length (filter (\<lambda>e. agree_on names e l) es))"
proof -
  have c: "c = length (metrics r)" and c_less: "c < length (metrics r1)"
    and m0: "metrics r1 ! c = \<lparr>m_name = name, m_help = help, m_kind = kindCounter, m_labels = names, m_values = []\<rparr>"
    using assms(1) by (auto simp: Registry_Counter_def new_metric_def)
  have "metrics (fold (Counter_Inc c) es s) ! c = fold (\<lambda>e. metric_add e 1) es (metrics s ! c)"
    if "c < length (metrics s)" for s
    using that
    by (induction es arbitrary: s) (simp_all add: Counter_Inc_def Counter_Add_def update_metric_def)
  moreover have "metric_value (fold (\<lambda>e. metric_add e 1) es (metrics r1 ! c)) l =
      of_nat (0 + length (filter (\<lambda>e. agree_on (m_labels (metrics r1 ! c)) e l) es))"
    using assms(2-4)
    by (intro metric_series.count_run) (simp_all add: m0 metric_value_def list_all_iff)
  ultimately show ?thesis using c_less m0 by simp
qed

theorem counter_counts_witness:
  "metric_value (metrics (fold (Counter_Inc 0)
      [[''subdomain'' \<mapsto> ''a''], [''subdomain'' \<mapsto> ''b''], [''subdomain'' \<mapsto> ''a'']]
      (snd (Registry_Counter ''n'' ''h'' [''subdomain''] NewRegistry))) ! 0) [''subdomain'' \<mapsto> ''a''] = 2"
  using counter_counts [of "''n''" "''h''" "[''subdomain'']" NewRegistry 0
      "snd (Registry_Counter ''n'' ''h'' [''subdomain''] NewRegistry)"
      "[[''subdomain'' \<mapsto> ''a''], [''subdomain'' \<mapsto> ''b''], [''subdomain'' \<mapsto> ''a'']]" "[''subdomain'' \<mapsto> ''a'']"]
  by (simp add: Registry_Counter_def new_metric_def NewRegistry_def clean_labels_def agree_on_def chr_def)

text \<open>C33: Histogram buckets are cumulative. After any observations (fewer than 2^64) on a histogram
  with increasing bounds, the count of a series is the number of its observations, the count
  of each bucket is the number of its observations up to the bound, and bucket counts
  increase with the bound and never exceed the count.\<close>

theorem histogram_cumulative:
  assumes "h0 = \<lparr>h_name = name, h_help = help, h_labels = names, h_buckets = bs,
                 h_sums = [], h_counts = [], h_bcount = []\<rparr>"
    and "sorted bs" "length obs < 2 ^ 64" "i \<le> j" "j < length bs"
    and "h = fold (\<lambda>(l, v). histogram_observe l v) obs h0"
  shows "unat (hist_count h k) = length (filter (\<lambda>(l, v). labelKey names l = k) obs)
    \<and> unat (hist_buckets h k ! i) = length (filter (\<lambda>(l, v). labelKey names l = k \<and> v \<le> bs ! i) obs)
    \<and> unat (hist_buckets h k ! i) \<le> unat (hist_buckets h k ! j)
    \<and> unat (hist_buckets h k ! j) \<le> unat (hist_count h k)"
proof -
  have wf: "wf_histogram h0" by (simp add: assms(1) wf_histogram_def hist_buckets_def)
  have small: "unat (of_nat (length (filter P obs)) :: 64 word) = length (filter P obs)" for P
    using assms(3) le_less_trans [OF length_filter_le [of P obs] assms(3)]
    by (simp add: unsigned_of_nat take_bit_nat_eq_self)
  have b: "unat (hist_buckets h k ! x) = length (filter (\<lambda>(l, v). labelKey names l = k \<and> v \<le> bs ! x) obs)"
    if "x < length bs" for x
  proof -
    have "hist_buckets h k ! x = of_nat (length (filter (\<lambda>(l, v). labelKey names l = k \<and> v \<le> bs ! x) obs))"
      using buckets_observe_run [OF wf, of x obs k] that assms(1,6) by (simp add: hist_buckets_def)
    then show ?thesis by (simp only: small)
  qed
  have c: "unat (hist_count h k) = length (filter (\<lambda>(l, v). labelKey names l = k) obs)"
  proof -
    have "hist_count h k = of_nat (length (filter (\<lambda>(l, v). labelKey names l = k) obs))"
      using count_observe_run [of obs h0 k] assms(1,6) by (simp add: hist_count_def)
    then show ?thesis by (simp only: small)
  qed
  have sub: "length (filter P obs) \<le> length (filter Q obs)" if "\<And>x. P x \<Longrightarrow> Q x" for P Q
    using that by (induction obs) auto
  have "bs ! i \<le> bs ! j" using assms(2,4,5) by (simp add: sorted_nth_mono)
  then show ?thesis
    using b [of i] b [of j] c assms(4,5) by (auto intro!: sub)
qed

theorem histogram_cumulative_witness:
  "unat (hist_buckets (fold (\<lambda>(l, v). histogram_observe l v) [(Map.empty, 1), (Map.empty, 7)]
      \<lparr>h_name = ''n'', h_help = [], h_labels = [], h_buckets = [1, 5], h_sums = [], h_counts = [], h_bcount = []\<rparr>)
      [] ! 0) = 1"
  using histogram_cumulative [of _ "''n''" "[]" "[]" "[1, 5]" "[(Map.empty, 1), (Map.empty, 7)]" 0 1
      "fold (\<lambda>(l, v). histogram_observe l v) [(Map.empty, 1), (Map.empty, 7)]
      \<lparr>h_name = ''n'', h_help = [], h_labels = [], h_buckets = [1, 5], h_sums = [], h_counts = [], h_bcount = []\<rparr>" "[]"]
  by (simp add: labelKey_def)

theorem filtered_metrics_isolated_witness:
  "WriteToFiltered (Counter_Add 0 [''subdomain'' \<mapsto> ''b''] 1
      (snd (Registry_Histogram ''d'' ''h'' [''subdomain''] [1] (snd (Registry_Counter ''n'' ''h'' [''subdomain''] NewRegistry))))) ''a'' =
   WriteToFiltered
      (snd (Registry_Histogram ''d'' ''h'' [''subdomain''] [1] (snd (Registry_Counter ''n'' ''h'' [''subdomain''] NewRegistry)))) ''a''"
  using filtered_metrics_isolated [of "''a''" "[''subdomain'' \<mapsto> ''b'']" 0
      "snd (Registry_Histogram ''d'' ''h'' [''subdomain''] [1] (snd (Registry_Counter ''n'' ''h'' [''subdomain''] NewRegistry)))" 0 1]
  by (simp add: Registry_Counter_def Registry_Histogram_def new_metric_def NewRegistry_def clean_labels_def)

text \<open>C26: Keys of series read back. For label values free of NUL bytes the labels shown for a series
  are the labels it was updated with, and two sets of labels share a series only if they agree
  on every label name of the metric.\<close>

theorem series_labels_roundtrip:
  assumes "clean_labels names l" "clean_labels names l'"
  shows "labelList names (map_of (parseKey names (labelKey names l))) = labelList names l
    \<and> (labelKey names l = labelKey names l' \<longleftrightarrow> agree_on names l l')"
proof -
  have "lookup_or [] (map_of (parseKey names (labelKey names l))) n = lookup_or [] l n" if "n \<in> set names" for n
    using series_key.dec_subdomain [OF assms(1) that] .
  then have "labelList names (map_of (parseKey names (labelKey names l))) = labelList names l"
    unfolding labelList_def by (intro arg_cong2 [of _ _ _ _ strings_Join] map_cong) auto
  then show ?thesis using series_key.enc_eq_iff [OF assms] by simp
qed

theorem series_labels_roundtrip_witness:
  "labelList [''a'', ''b''] (map_of (parseKey [''a'', ''b'']
      (labelKey [''a'', ''b''] [''a'' \<mapsto> ''x'', ''b'' \<mapsto> ''y'']))) = ''a=x,b=y''"
  using series_labels_roundtrip [of "[''a'', ''b'']" "[''a'' \<mapsto> ''x'', ''b'' \<mapsto> ''y'']" "[''a'' \<mapsto> ''x'', ''b'' \<mapsto> ''y'']"]
  by (simp add: clean_labels_def labelList_def)

end
