(* ===== verification/Webhooks.thy ===== *)
theory Webhooks
  imports Http "HOL-Library.Sublist"
begin

text \<open>
  \<open>notifier.go\<close> and \<open>webhooks.go\<close>: who is told about lifecycle events. The interface \<open>notifier\<close>
  has two implementations, \<open>noopNotifier\<close> and \<open>webhookSender\<close>; a notifier value is one of them.
  A sender keeps a channel of at most 256 events (\<open>wh_queue\<close>) that one worker drains; the model
  runs the worker with \<open>wh_take\<close> and \<open>wh_send\<close>. The locale \<open>notification\<close> is the contract of
  the interface, interpreted on the notifier value. The reply of the HTTP client and the
  encoder of \<open>encoding/json\<close> enter as arguments.
\<close>

record webhookEvent =
  we_Event :: string
  we_Subdomain :: string
  we_Container :: string
  we_Message :: string
  we_Fields :: fields
  we_Time :: time

record webhookSender =
  wh_url :: string
  wh_enabled :: "string \<rightharpoonup> bool"
  wh_queue :: "webhookEvent list"
  wh_stopped :: bool
  wh_sent :: "webhookEvent list"
  wh_dropped :: nat

definition queue_capacity :: nat where
  "queue_capacity = 256"

definition default_events :: "string list" where
  "default_events =
     [''start_requested'', ''ready'', ''idle_stop'',
      ''stopped'', ''paused'', ''start_error'', ''startup_timeout'', ''disappeared'']"

definition enable_events :: "string list \<Rightarrow> string \<rightharpoonup> bool" where
  "enable_events es = fold (\<lambda>e m. m(e \<mapsto> True)) es Map.empty"

definition loadWebhookConfig :: "string \<Rightarrow> string \<Rightarrow> webhookSender option" where
  "loadWebhookConfig url0 events0 =
     (let url = strings_TrimSpace url0; events = strings_TrimSpace events0
      in if url = [] then None
         else Some
           \<lparr>wh_url = url,
            wh_enabled =
              (if events \<noteq> []
               then enable_events (filter (\<lambda>e. e \<noteq> []) (List.map strings_TrimSpace (strings_Split CHR '','' events)))
               else enable_events default_events),
            wh_queue = [], wh_stopped = False, wh_sent = [], wh_dropped = 0\<rparr>)"

definition wh_notify ::
  "time \<Rightarrow> string \<Rightarrow> string \<Rightarrow> string \<Rightarrow> string \<Rightarrow> fields \<Rightarrow> webhookSender \<Rightarrow> webhookSender" where
  "wh_notify now eventType subdomain container message flds w =
     (if \<not> lookup_or False (wh_enabled w) eventType then w
      else let ev = \<lparr>we_Event = eventType, we_Subdomain = subdomain, we_Container = container,
                     we_Message = message, we_Fields = flds, we_Time = now\<rparr>
           in if length (wh_queue w) < queue_capacity then w\<lparr>wh_queue := wh_queue w @ [ev]\<rparr>
              else w\<lparr>wh_dropped := wh_dropped w + 1\<rparr>)"

text \<open>The worker takes the oldest event, unless it has returned.\<close>

definition wh_take :: "webhookSender \<Rightarrow> webhookEvent option \<times> webhookSender" where
  "wh_take w =
     (if wh_stopped w then (None, w)
      else case wh_queue w of
        [] \<Rightarrow> (None, w)
      | ev # q \<Rightarrow> (Some ev, w\<lparr>wh_queue := q\<rparr>))"

text \<open>
  \<open>send\<close>: the body is the event in JSON with empty fields left out. What is logged is the
  result; \<open>reply\<close> is the outcome of the POST, \<open>marshal\<close> and \<open>build\<close> can fail before it.
\<close>

datatype send_log = SentOk | MarshalFailed err | BuildFailed err | Cancelled | SendFailed err | Non2xx int

definition event_json :: "(time \<Rightarrow> string) \<Rightarrow> webhookEvent \<Rightarrow> jval" where
  "event_json rfc3339 ev =
     JObj ([(''event'', JStr (we_Event ev))] @
       (if we_Subdomain ev = [] then [] else [(''subdomain'', JStr (we_Subdomain ev))]) @
       (if we_Container ev = [] then [] else [(''container'', JStr (we_Container ev))]) @
       (if we_Message ev = [] then [] else [(''message'', JStr (we_Message ev))]) @
       (if we_Fields ev = [] then [] else [(''fields'', JObj (we_Fields ev))]) @
       [(''time'', JStr (rfc3339 (we_Time ev)))])"

definition wh_send ::
  "err option \<Rightarrow> err option \<Rightarrow> err + int \<Rightarrow> bool \<Rightarrow> webhookEvent \<Rightarrow> webhookSender \<Rightarrow> send_log \<times> webhookSender" where
  "wh_send marshal build reply ctx_done ev w =
     (case marshal of
        Some e \<Rightarrow> (MarshalFailed e, w)
      | None \<Rightarrow>
          (case build of
             Some e \<Rightarrow> (BuildFailed e, w)
           | None \<Rightarrow>
               let w' = w\<lparr>wh_sent := wh_sent w @ [ev]\<rparr>
               in (case reply of
                     Inl e \<Rightarrow> (if ctx_done then (Cancelled, w') else (SendFailed e, w'))
                   | Inr status \<Rightarrow> (if 300 \<le> status then (Non2xx status, w') else (SentOk, w')))))"

text \<open>One turn of \<open>run\<close>; the answers of the world come with the turn.\<close>

definition wh_run_once ::
  "err option \<Rightarrow> err option \<Rightarrow> err + int \<Rightarrow> bool \<Rightarrow> webhookSender \<Rightarrow> webhookSender" where
  "wh_run_once marshal build reply ctx_done w =
     (case wh_take w of
        (None, w') \<Rightarrow> w'
      | (Some ev, w') \<Rightarrow> snd (wh_send marshal build reply ctx_done ev w'))"

text \<open>
  \<open>shutdown\<close> cancels the context, closes \<open>stop\<close> and waits for the worker, which returns at the turn
  whose \<open>select\<close> picks the stop. Before that it may pick waiting events (\<open>picks\<close> of them): they leave
  the queue and are not posted, since the client refuses a request whose context is done.
\<close>

definition wh_shutdown :: "nat \<Rightarrow> webhookSender \<Rightarrow> webhookSender" where
  "wh_shutdown picks w = w\<lparr>wh_stopped := True, wh_queue := drop picks (wh_queue w)\<rparr>"

text \<open>\<open>envOrBool\<close>: the value of the environment variable is an argument.\<close>

definition envOrBool :: "string \<Rightarrow> bool \<Rightarrow> bool" where
  "envOrBool value fallback =
     (let v = strings_ToLower (strings_TrimSpace value)
      in if v = [] then fallback
         else v = ''true'' \<or> v = ''1'' \<or> v = ''yes'' \<or> v = ''on'')"

subsection \<open>The interface\<close>

datatype notifier = noopNotifier | WebhookNotifier webhookSender

fun notifier_notify ::
  "time \<Rightarrow> string \<Rightarrow> string \<Rightarrow> string \<Rightarrow> string \<Rightarrow> fields \<Rightarrow> notifier \<Rightarrow> notifier" where
  "notifier_notify now t s c m f noopNotifier = noopNotifier"
| "notifier_notify now t s c m f (WebhookNotifier w) = WebhookNotifier (wh_notify now t s c m f w)"

fun notifier_shutdown :: "nat \<Rightarrow> notifier \<Rightarrow> notifier" where
  "notifier_shutdown picks noopNotifier = noopNotifier"
| "notifier_shutdown picks (WebhookNotifier w) = WebhookNotifier (wh_shutdown picks w)"

fun notifier_work :: "err option \<Rightarrow> err option \<Rightarrow> err + int \<Rightarrow> bool \<Rightarrow> notifier \<Rightarrow> notifier" where
  "notifier_work m b r d noopNotifier = noopNotifier"
| "notifier_work m b r d (WebhookNotifier w) = WebhookNotifier (wh_run_once m b r d w)"

text \<open>A run of a notifier: calls of its two methods and turns of its worker, in any order.\<close>

datatype notifier_op =
    Notify time string string string string fields
  | Work "err option" "err option" "err + int" bool
  | Shutdown nat

fun notifier_step :: "notifier_op \<Rightarrow> notifier \<Rightarrow> notifier" where
  "notifier_step (Notify now t s c m f) n = notifier_notify now t s c m f n"
| "notifier_step (Work m b r d) n = notifier_work m b r d n"
| "notifier_step (Shutdown picks) n = notifier_shutdown picks n"

text \<open>The events that the calls of \<open>notify\<close> describe.\<close>

fun offered :: "notifier_op list \<Rightarrow> webhookEvent list" where
  "offered [] = []"
| "offered (Notify now t sub c m f # ops) =
     \<lparr>we_Event = t, we_Subdomain = sub, we_Container = c, we_Message = m, we_Fields = f, we_Time = now\<rparr> # offered ops"
| "offered (Work m b r d # ops) = offered ops"
| "offered (Shutdown picks # ops) = offered ops"

locale notification =
  fixes step :: "notifier_op \<Rightarrow> 's \<Rightarrow> 's"
    and pending :: "'s \<Rightarrow> webhookEvent list"
    and sent :: "'s \<Rightarrow> webhookEvent list"
    and wants :: "'s \<Rightarrow> string \<Rightarrow> bool"
    and room :: nat
  assumes wants_step: "wants (step op s) = wants s"
    and bounded: "length (pending s) \<le> room \<Longrightarrow> length (pending (step op s)) \<le> room"
    and notify_only_queues: "sent (step (Notify now t sub c m f) s) = sent s"
    and notify_queues: "pending (step (Notify now t sub c m f) s) =
          (if wants s t \<and> length (pending s) < room
           then pending s @ [\<lparr>we_Event = t, we_Subdomain = sub, we_Container = c, we_Message = m,
                              we_Fields = f, we_Time = now\<rparr>]
           else pending s)"
    and work: "(sent (step (Work mm b r d) s) = sent s \<and> pending (step (Work mm b r d) s) = pending s)
          \<or> (\<exists>ev. pending s = ev # pending (step (Work mm b r d) s)
                \<and> sent (step (Work mm b r d) s) \<in> {sent s, sent s @ [ev]})"
    and stop: "sent (step (Shutdown picks) s) = sent s" "pending (step (Shutdown picks) s) = drop picks (pending s)"
begin



lemma wants_run: "wants (fold step ops s) = wants s"
  by (induction ops arbitrary: s) (simp_all add: wants_step)

lemma pending_bounded: "length (pending s) \<le> room \<Longrightarrow> length (pending (fold step ops s)) \<le> room"
  by (induction ops arbitrary: s) (simp_all add: bounded)

text \<open>What is queued or sent was asked for and is of a kind that is wanted.\<close>

lemma step_events:
  "set (pending (step op s)) \<union> set (sent (step op s)) \<subseteq>
    set (pending s) \<union> set (sent s) \<union>
    (case op of
       Notify now t sub c m f \<Rightarrow>
         (if wants s t then {\<lparr>we_Event = t, we_Subdomain = sub, we_Container = c, we_Message = m,
                             we_Fields = f, we_Time = now\<rparr>} else {})
     | _ \<Rightarrow> {})"
proof (cases op)
  case (Work mm b r d)
  then show ?thesis using work [of mm b r d s] by auto
next
  case (Shutdown picks)
  then show ?thesis using set_drop_subset [of picks "pending s"] by (auto simp: stop)
qed (auto simp: notify_queues notify_only_queues)

lemma events_wanted:
  assumes "\<And>ev. ev \<in> set (pending s) \<union> set (sent s) \<Longrightarrow> wants s (we_Event ev)"
    and "ev \<in> set (pending (fold step ops s)) \<union> set (sent (fold step ops s))"
  shows "wants s (we_Event ev)"
  using assms
proof (induction ops arbitrary: s)
  case (Cons op ops)
  have "wants s (we_Event e)" if "e \<in> set (pending (step op s)) \<union> set (sent (step op s))" for e
    using subsetD [OF step_events that] Cons.prems(1)
    by (cases op) (auto split: if_splits)
  then have "wants (step op s) (we_Event ev)"
    using Cons.IH [of "step op s"] Cons.prems(2) by (simp add: wants_step)
  then show ?case by (simp add: wants_step)
qed auto

text \<open>Events are sent in the order of the calls, each at most once.\<close>

lemma step_order:
  "subseq (sent (step op s) @ pending (step op s)) (sent s @ pending s @ offered [op])"
proof (cases op)
  case (Notify now t sub c m f)
  then show ?thesis by (auto simp: notify_queues notify_only_queues)
next
  case (Work mm b r d)
  have skip: "subseq (xs @ ys) (xs @ e # ys)" for xs ys and e :: webhookEvent
    by (induction xs) auto
  from work [of mm b r d s] show ?thesis
    by (auto simp: Work skip)
next
  case (Shutdown picks)
  have "subseq (drop picks (pending s)) (pending s)" by (metis append_take_drop_id list_emb_append2 subseq_order.order_refl)
  then show ?thesis by (simp add: Shutdown stop list_emb_append_mono)
qed

lemma run_order:
  "subseq (sent (fold step ops s) @ pending (fold step ops s)) (sent s @ pending s @ offered ops)"
proof (induction ops arbitrary: s)
  case (Cons op ops)
  have "subseq (sent (step op s) @ pending (step op s)) (sent s @ pending s @ offered [op])"
    by (rule step_order)
  then have "subseq ((sent (step op s) @ pending (step op s)) @ offered ops) ((sent s @ pending s @ offered [op]) @ offered ops)"
    by (rule list_emb_append_mono) simp
  moreover have "offered (op # ops) = offered [op] @ offered ops" by (cases op) simp_all
  ultimately have "subseq (sent (step op s) @ pending (step op s) @ offered ops) (sent s @ pending s @ offered (op # ops))"
    by simp
  with Cons [of "step op s"] show ?case
    by (auto intro: subseq_order.order_trans)
qed simp

end

subsection \<open>The notifier meets the contract\<close>

fun n_pending :: "notifier \<Rightarrow> webhookEvent list" where
  "n_pending noopNotifier = []"
| "n_pending (WebhookNotifier w) = wh_queue w"

fun n_sent :: "notifier \<Rightarrow> webhookEvent list" where
  "n_sent noopNotifier = []"
| "n_sent (WebhookNotifier w) = wh_sent w"

fun n_wants :: "notifier \<Rightarrow> string \<Rightarrow> bool" where
  "n_wants noopNotifier t = False"
| "n_wants (WebhookNotifier w) t = lookup_or False (wh_enabled w) t"

lemma wh_ops [simp]:
  "wh_enabled (wh_notify now t s c m f w) = wh_enabled w"
  "wh_sent (wh_notify now t s c m f w) = wh_sent w"
  "wh_enabled (wh_shutdown picks w) = wh_enabled w"
  "wh_queue (wh_shutdown picks w) = drop picks (wh_queue w)"
  "wh_sent (wh_shutdown picks w) = wh_sent w"
  by (simp_all add: wh_notify_def wh_shutdown_def Let_def)

lemma wh_run_once_cases:
  "wh_enabled (wh_run_once m b r d w) = wh_enabled w \<and>
   (wh_sent (wh_run_once m b r d w) = wh_sent w \<and> wh_queue (wh_run_once m b r d w) = wh_queue w \<or>
    (\<exists>ev. wh_queue w = ev # wh_queue (wh_run_once m b r d w) \<and>
          wh_sent (wh_run_once m b r d w) \<in> {wh_sent w, wh_sent w @ [ev]}))"
  by (auto simp: wh_run_once_def wh_take_def wh_send_def Let_def split: list.splits option.splits sum.splits)

interpretation lifecycle: notification notifier_step n_pending n_sent n_wants queue_capacity
proof (unfold_locales, goal_cases)
  case (1 op s)
  show ?case
    by (cases op; cases s) (simp_all add: fun_eq_iff wh_run_once_cases)
next
  case (2 s op)
  then show ?case
  proof (cases s)
    case (WebhookNotifier w)
    show ?thesis
    proof (cases op)
      case (Work m b r d)
      with 2 WebhookNotifier wh_run_once_cases [of m b r d w] show ?thesis by auto
    qed (use 2 WebhookNotifier in \<open>auto simp: wh_notify_def Let_def\<close>)
  qed (cases op, auto)
next
  case (3 now t sub c m f s)
  show ?case by (cases s) simp_all
next
  case (4 now t sub c m f s)
  show ?case by (cases s) (simp_all add: wh_notify_def Let_def)
next
  case (5 m b r d s)
  show ?case by (cases s) (use wh_run_once_cases in auto)
next
  case (6 picks s)
  show ?case by (cases s) simp_all
next
  case (7 picks s)
  show ?case by (cases s) simp_all
qed

lemma loadWebhookConfig_fresh:
  "loadWebhookConfig url events = Some w \<Longrightarrow> wh_queue w = [] \<and> wh_sent w = []"
  by (auto simp: loadWebhookConfig_def Let_def split: if_splits)

subsection \<open>Properties\<close>

text \<open>Webhooks are bounded and filtered. From a freshly loaded sender, after any sequence of
  notifications and worker turns, at most 256 events are waiting, and every event that is
  waiting or has been posted is of an enabled kind.\<close>

theorem webhook_bounded_and_enabled:
  assumes "loadWebhookConfig url events = Some w"
  shows "length (n_pending (fold notifier_step ops (WebhookNotifier w))) \<le> 256
    \<and> list_all (\<lambda>ev. lookup_or False (wh_enabled w) (we_Event ev))
        (n_sent (fold notifier_step ops (WebhookNotifier w)) @ n_pending (fold notifier_step ops (WebhookNotifier w)))"
  using lifecycle.pending_bounded [of "WebhookNotifier w" ops]
    lifecycle.events_wanted [of "WebhookNotifier w" _ ops] loadWebhookConfig_fresh [OF assms]
  by (auto simp: list_all_iff queue_capacity_def)

theorem webhook_bounded_and_enabled_witness:
  "length (n_pending (fold notifier_step [Notify 0 ''ready'' ''a'' ''c'' ''m'' []]
     (WebhookNotifier (the (loadWebhookConfig ''http://h'' ''''))))) \<le> 256"
proof -
  have "strings_TrimSpace ''http://h'' = ''http://h''"
    by (rule TrimSpace_visible) (simp_all add: visible_def byte_def)
  then obtain w where "loadWebhookConfig ''http://h'' '''' = Some w"
    by (auto simp: loadWebhookConfig_def)
  from webhook_bounded_and_enabled [OF this, of "[Notify 0 ''ready'' ''a'' ''c'' ''m'' []]"] this
  show ?thesis by simp
qed

text \<open>C24: Webhooks are posted in order and never invented. The events posted so far, followed by
  those that wait, are a subsequence of the notifications in the order of the calls.\<close>

theorem webhook_order:
  assumes "loadWebhookConfig url events = Some w"
  shows "subseq (n_sent (fold notifier_step ops (WebhookNotifier w)) @
      n_pending (fold notifier_step ops (WebhookNotifier w))) (offered ops)"
  using lifecycle.run_order [of ops "WebhookNotifier w"] loadWebhookConfig_fresh [OF assms] by simp

theorem webhook_order_witness:
  "let n = fold notifier_step [Notify 0 ''ready'' ''a'' ''c'' ''m'' [], Work None None (Inr 200) False]
       (WebhookNotifier (the (loadWebhookConfig ''http://h'' '''')))
   in subseq (n_sent n @ n_pending n)
     (offered [Notify 0 ''ready'' ''a'' ''c'' ''m'' [], Work None None (Inr 200) False])"
proof -
  have "strings_TrimSpace ''http://h'' = ''http://h''"
    by (rule TrimSpace_visible) (simp_all add: visible_def byte_def)
  then obtain w where w: "loadWebhookConfig ''http://h'' '''' = Some w"
    by (auto simp: loadWebhookConfig_def)
  show ?thesis
    unfolding Let_def w option.sel by (rule webhook_order [OF w])
qed

end
