(* ===== verification/Logger.thy ===== *)
theory Logger
  imports Http
begin

text \<open>
  \<open>logger.go\<close>: the structured logger. A call gives one output, a text line or a JSON record;
  the time stamp, the formatting of a value (\<open>%v\<close>) and the outcome of the JSON encoder are
  arguments. The components record their log calls as level, message and fields (\<open>log_entry\<close>).
\<close>

datatype LogLevel = LevelDebug | LevelInfo | LevelWarn | LevelError

definition level_name :: "LogLevel \<Rightarrow> string" where
  "level_name l =
     (case l of LevelDebug \<Rightarrow> ''debug'' | LevelInfo \<Rightarrow> ''info'' | LevelWarn \<Rightarrow> ''warn'' | LevelError \<Rightarrow> ''error'')"

type_synonym Field = "string \<times> jval"

definition F :: "string \<Rightarrow> jval \<Rightarrow> Field" where
  "F k v = (k, v)"

type_synonym log_entry = "LogLevel \<times> string \<times> Field list"

record logger =
  lg_json :: bool
  lg_fields :: fields

definition NewLogger :: "bool \<Rightarrow> logger" where
  "NewLogger jsonMode = \<lparr>lg_json = jsonMode, lg_fields = []\<rparr>"

definition defaultLogger :: logger where
  "defaultLogger = NewLogger False"

definition put_fields :: "Field list \<Rightarrow> fields \<Rightarrow> fields" where
  "put_fields fs m = fold (\<lambda>(k, v) m. AList.update k v m) fs m"

definition Logger_With :: "fields \<Rightarrow> logger \<Rightarrow> logger" where
  "Logger_With fs l = l\<lparr>lg_fields := put_fields fs (put_fields (lg_fields l) [])\<rparr>"

definition fieldsToMap :: "Field list \<Rightarrow> fields" where
  "fieldsToMap fs = put_fields fs []"

definition log_text ::
  "string \<Rightarrow> (jval \<Rightarrow> string) \<Rightarrow> LogLevel \<Rightarrow> string \<Rightarrow> fields \<Rightarrow> logger \<Rightarrow> string" where
  "log_text ts fmtv level msg fs l =
     ts @ '' ['' @ level_name level @ ''] '' @ msg @
     (if lg_fields l \<noteq> [] \<or> fs \<noteq> []
      then '' {'' @ strings_Join (List.map (\<lambda>(k, v). k @ ''='' @ fmtv v) (lg_fields l @ fs)) '', '' @ ''}''
      else []) @ [CHR 0x0A]"

definition log_record :: "string \<Rightarrow> LogLevel \<Rightarrow> string \<Rightarrow> fields \<Rightarrow> logger \<Rightarrow> fields" where
  "log_record ts level msg fs l =
     put_fields fs (put_fields (lg_fields l)
       [(''ts'', JStr ts), (''level'', JStr (level_name level)), (''msg'', JStr msg)])"

datatype log_output = LogText string | LogJson fields | LogMarshalError string err

definition logger_log ::
  "string \<Rightarrow> (jval \<Rightarrow> string) \<Rightarrow> err option \<Rightarrow> LogLevel \<Rightarrow> string \<Rightarrow> Field list \<Rightarrow> logger \<Rightarrow> log_output" where
  "logger_log ts fmtv marshal level msg fs l =
     (let m = fieldsToMap fs
      in if \<not> lg_json l then LogText (log_text ts fmtv level msg m l)
         else case marshal of
           None \<Rightarrow> LogJson (log_record ts level msg m l)
         | Some e \<Rightarrow> LogMarshalError ts e)"

text \<open>The four methods, one per level.\<close>

definition logger_Debug :: "string \<Rightarrow> (jval \<Rightarrow> string) \<Rightarrow> err option \<Rightarrow> string \<Rightarrow> Field list \<Rightarrow> logger \<Rightarrow> log_output" where
  "logger_Debug ts fmtv marshal msg fs l = logger_log ts fmtv marshal LevelDebug msg fs l"

definition logger_Info :: "string \<Rightarrow> (jval \<Rightarrow> string) \<Rightarrow> err option \<Rightarrow> string \<Rightarrow> Field list \<Rightarrow> logger \<Rightarrow> log_output" where
  "logger_Info ts fmtv marshal msg fs l = logger_log ts fmtv marshal LevelInfo msg fs l"

definition logger_Warn :: "string \<Rightarrow> (jval \<Rightarrow> string) \<Rightarrow> err option \<Rightarrow> string \<Rightarrow> Field list \<Rightarrow> logger \<Rightarrow> log_output" where
  "logger_Warn ts fmtv marshal msg fs l = logger_log ts fmtv marshal LevelWarn msg fs l"

definition logger_Error :: "string \<Rightarrow> (jval \<Rightarrow> string) \<Rightarrow> err option \<Rightarrow> string \<Rightarrow> Field list \<Rightarrow> logger \<Rightarrow> log_output" where
  "logger_Error ts fmtv marshal msg fs l = logger_log ts fmtv marshal LevelError msg fs l"

lemma map_of_put_fields:
  "map_of (put_fields fs m) k = (case map_of (rev fs) k of Some v \<Rightarrow> Some v | None \<Rightarrow> map_of m k)"
  by (induction fs arbitrary: m) (auto simp: put_fields_def map_add_def split: option.splits)

lemma wf_put_fields: "wf_gomap m \<Longrightarrow> wf_gomap (put_fields fs m)"
  by (induction fs arbitrary: m) (auto simp: put_fields_def)

text \<open>A record of the JSON log has each key once, and for every key the value of the call wins
  over the logger's own field, which wins over the three standard entries: a caller's field
  named \<open>level\<close> or \<open>msg\<close> replaces the standard one.\<close>

theorem log_record_lookup:
  "wf_gomap (log_record ts level msg (fieldsToMap fs) l) \<and>
   map_of (log_record ts level msg (fieldsToMap fs) l) k =
     (case map_of (rev (fieldsToMap fs)) k of
        Some v \<Rightarrow> Some v
      | None \<Rightarrow> (case map_of (rev (lg_fields l)) k of
          Some v \<Rightarrow> Some v
        | None \<Rightarrow> map_of [(''ts'', JStr ts), (''level'', JStr (level_name level)), (''msg'', JStr msg)] k))"
proof
  have "wf_gomap [(''ts'', JStr ts), (''level'', JStr (level_name level)), (''msg'', JStr msg)]"
    by (simp add: wf_gomap_def keys_of_def)
  then show "wf_gomap (log_record ts level msg (fieldsToMap fs) l)"
    unfolding log_record_def by (intro wf_put_fields)
qed (simp only: log_record_def map_of_put_fields)

lemma Join_no_char:
  "c \<notin> set sep \<Longrightarrow> (\<And>x. x \<in> set xs \<Longrightarrow> c \<notin> set x) \<Longrightarrow> c \<notin> set (strings_Join xs sep)"
  by (induction xs sep rule: strings_Join.induct) auto

lemma set_put_fields: "set (put_fields fs m) \<subseteq> set fs \<union> set m"
proof (induction fs arbitrary: m)
  case (Cons p fs)
  obtain k v where p: "p = (k, v)" by force
  have "set (AList.update k v m) \<subseteq> insert (k, v) (set m)"
    by (induction m) auto
  with Cons [of "AList.update k v m"] show ?case by (auto simp: put_fields_def p)
qed (simp add: put_fields_def)

text \<open>A text log call is one line if its parts are. When the time stamp, the message and the
  keys and formatted values contain no line break, the output is one line, ended by its only
  line break. (The text format quotes nothing, so a value with a line break makes two.)\<close>

theorem log_text_one_line:
  assumes "\<not> lg_json l" "CHR 0x0A \<notin> set ts" "CHR 0x0A \<notin> set msg"
    and "list_all (\<lambda>(k, v). CHR 0x0A \<notin> set k \<and> CHR 0x0A \<notin> set (fmtv v)) (lg_fields l @ fs)"
  shows "\<exists>s. logger_log ts fmtv marshal level msg fs l = LogText (s @ [CHR 0x0A]) \<and> CHR 0x0A \<notin> set s"
proof -
  have "CHR 0x0A \<notin> set (level_name level)" by (cases level) (simp_all add: level_name_def)
  moreover have "CHR 0x0A \<notin> set (strings_Join (List.map (\<lambda>(k, v). k @ ''='' @ fmtv v) (lg_fields l @ fieldsToMap fs)) '', '')"
    using assms(4) set_put_fields [of fs "[]"]
    by (intro Join_no_char) (fastforce simp: list_all_iff fieldsToMap_def)+
  ultimately show ?thesis
    using assms(1-3) by (simp add: logger_log_def Let_def log_text_def)
qed

theorem log_text_one_line_witness:
  "\<exists>s. logger_log ''t'' (\<lambda>_. ''v'') None LevelInfo ''up'' [(''k'', JNull)] (NewLogger False) = LogText (s @ [CHR 0x0A])"
  using log_text_one_line [of "NewLogger False" "''t''" "''up''" "\<lambda>_. ''v''" "[(''k'', JNull)]" None LevelInfo]
  by (auto simp: NewLogger_def)

end
