(* ===== verification/Go_Date.thy ===== *)
theory Go_Date
  imports Go_Time
begin

text \<open>
  Calendar dates, as far as the program uses them: \<open>time.Parse\<close> with the layout
  \<open>time.RFC3339Nano\<close>, which reads the start time that Docker reports, and
  \<open>t.UTC().Format(time.RFC3339)\<close>, which writes it in the replies. The reader is the library's
  parser for this layout (its fallback for sloppier spellings is left out).
\<close>

definition is_leap :: "int \<Rightarrow> bool" where
  "is_leap y \<longleftrightarrow> y mod 4 = 0 \<and> (y mod 100 \<noteq> 0 \<or> y mod 400 = 0)"

definition days_in :: "int \<Rightarrow> int \<Rightarrow> int" where
  "days_in y m =
     (if m = 2 then (if is_leap y then 29 else 28)
      else if m = 4 \<or> m = 6 \<or> m = 9 \<or> m = 11 then 30 else 31)"

text \<open>Days from 1 January of year 1 to 1 January of a year.\<close>

definition days_to_year :: "int \<Rightarrow> int" where
  "days_to_year y = (let p = y - 1 in 365 * p + p div 4 - p div 100 + p div 400)"

fun days_to_month :: "int \<Rightarrow> nat \<Rightarrow> int" where
  "days_to_month y 0 = 0"
| "days_to_month y (Suc m) = (if m = 0 then 0 else days_to_month y m + days_in y (int m))"

definition time_Date :: "int \<Rightarrow> int \<Rightarrow> int \<Rightarrow> int \<Rightarrow> int \<Rightarrow> int \<Rightarrow> int \<Rightarrow> time" where
  "time_Date y mo d h mi s ns =
     ((days_to_year y + days_to_month y (nat mo) + (d - 1)) * 86400 + h * 3600 + mi * 60 + s) * Second + ns"

subsection \<open>Parsing\<close>

definition parseUint :: "string \<Rightarrow> int \<Rightarrow> int \<Rightarrow> int option" where
  "parseUint s lo hi =
     (if list_all is_digit s \<and> lo \<le> int (digits_val s) \<and> int (digits_val s) \<le> hi
      then Some (int (digits_val s)) else None)"

definition substr :: "nat \<Rightarrow> nat \<Rightarrow> string \<Rightarrow> string" where
  "substr i j s = take (j - i) (drop i s)"

text \<open>The nanoseconds of a fraction: its first nine digits, the rest cut off.\<close>

definition fraction_ns :: "string \<Rightarrow> int" where
  "fraction_ns ds = int (digits_val (take 9 (ds @ replicate 9 CHR ''0'')))"

definition zone_offset :: "string \<Rightarrow> int option" where
  "zone_offset z =
     (if z = ''Z'' then Some 0
      else if length z \<noteq> 6 \<or> z ! 3 \<noteq> CHR '':'' then None
      else case (parseUint (substr 1 3 z) 0 23, parseUint (substr 4 6 z) 0 59) of
        (Some hr, Some mm) \<Rightarrow>
          (if hd z = CHR ''+'' then Some ((hr * 60 + mm) * 60)
           else if hd z = CHR ''-'' then Some (- ((hr * 60 + mm) * 60))
           else None)
      | _ \<Rightarrow> None)"

definition time_ParseRFC3339 :: "string \<Rightarrow> time option" where
  "time_ParseRFC3339 s =
     (if length s < 19 \<or> s ! 4 \<noteq> CHR ''-'' \<or> s ! 7 \<noteq> CHR ''-'' \<or> s ! 10 \<noteq> CHR ''T'' \<or>
         s ! 13 \<noteq> CHR '':'' \<or> s ! 16 \<noteq> CHR '':'' then None
      else case (parseUint (substr 0 4 s) 0 9999, parseUint (substr 5 7 s) 1 12) of
        (Some y, Some mo) \<Rightarrow>
          (case (parseUint (substr 8 10 s) 1 (days_in y mo), parseUint (substr 11 13 s) 0 23,
                 parseUint (substr 14 16 s) 0 59, parseUint (substr 17 19 s) 0 59) of
             (Some d, Some h, Some mi, Some sec) \<Rightarrow>
               let r = drop 19 s;
                   frac = (if 2 \<le> length r \<and> hd r = CHR ''.'' then takeWhile is_digit (tl r) else []);
                   z = (if frac = [] then r else drop (1 + length frac) r)
               in (case zone_offset z of
                     None \<Rightarrow> None
                   | Some off \<Rightarrow> Some (time_Date y mo d h mi sec (fraction_ns frac) - off * Second))
           | _ \<Rightarrow> None)
      | _ \<Rightarrow> None)"

subsection \<open>Formatting\<close>

definition civil_year :: "int \<Rightarrow> int \<times> int" where
  "civil_year d =
     (let n400 = d div 146097; d1 = d mod 146097;
          n100 = min 3 (d1 div 36524); d2 = d1 - 36524 * n100;
          n4 = d2 div 1461; d3 = d2 mod 1461;
          n1 = min 3 (d3 div 365)
      in (400 * n400 + 100 * n100 + 4 * n4 + n1 + 1, d3 - 365 * n1))"

text \<open>The month that holds the \<open>d\<close>-th day (from 0) counted from the first of month \<open>m\<close>.\<close>

function month_day :: "int \<Rightarrow> int \<Rightarrow> nat \<Rightarrow> nat \<times> int" where
  "month_day y d m =
     (if 12 \<le> m \<or> d < days_in y (int m) then (m, d + 1) else month_day y (d - days_in y (int m)) (Suc m))"
  by pat_completeness auto
termination
  by (relation "measure (\<lambda>(y, d, m). 12 - m)") auto

declare month_day.simps [simp del]

definition pad_int :: "nat \<Rightarrow> int \<Rightarrow> string" where
  "pad_int k n = zero_pad k (nat n)"

definition time_FormatRFC3339 :: "time \<Rightarrow> string" where
  "time_FormatRFC3339 t =
     (let secs = t div Second; days = secs div 86400; r = secs mod 86400;
          (y, yd) = civil_year days; (mo, d) = month_day y yd 1
      in pad_int 4 y @ ''-'' @ pad_int 2 (int mo) @ ''-'' @ pad_int 2 d @ ''T'' @
         pad_int 2 (r div 3600) @ '':'' @ pad_int 2 (r mod 3600 div 60) @ '':'' @ pad_int 2 (r mod 60) @ ''Z'')"

lemma time_Parse_zero: "time_ParseRFC3339 ''0001-01-01T00:00:00Z'' = Some 0"
  by (simp add: time_ParseRFC3339_def parseUint_def substr_def is_digit_def byte_def digits_val_def
      zone_offset_def fraction_ns_def time_Date_def days_to_year_def days_in_def numeral_eq_Suc)

end
