(* ===== verification/Logs.thy ===== *)
theory Logs
  imports Http Go_Date "HOL-Library.Word"
begin

text \<open>
  \<open>logs.go\<close>: the live log. A tail is a goroutine (\<open>logTailer.run\<close>) that reads one container's
  multiplexed output and publishes its lines to every channel that is subscribed to the
  service; a viewer is a request in the loop of \<open>handleLogs\<close>, which forwards the lines of its
  channel as server-sent events. The package's global variables (\<open>globalLogTailer\<close>,
  \<open>logSubscribers\<close>) and the goroutines are the record \<open>log_hub\<close>; the two mutexes make each
  operation atomic. The locale \<open>fanout\<close> is what a publisher and its subscribers share.
\<close>

record logLine =
  ll_Time :: time
  ll_Body :: string
  ll_Kind :: string

text \<open>A goroutine in \<open>run\<close>, with its context, and a request in \<open>handleLogs\<close>, with its response.\<close>

record log_tail =
  lt_ctx :: nat
  lt_sub :: string
  lt_container :: string

record viewer =
  vw_sub :: string
  vw_chan :: nat
  vw_resp :: response

record log_hub =
  cancels :: "(string, nat) gomap"
  cancelled :: "nat list"
  tails :: "log_tail list"
  logSubscribers :: "string \<rightharpoonup> nat list"
  log_chans :: "nat \<rightharpoonup> logLine list"
  viewers :: "viewer list"
  hub_next :: nat

definition new_hub :: log_hub where
  "new_hub = \<lparr>cancels = [], cancelled = [], tails = [], logSubscribers = Map.empty,
     log_chans = Map.empty, viewers = [], hub_next = 0\<rparr>"

subsection \<open>The tailer\<close>

definition cancel_ctx :: "nat \<Rightarrow> log_hub \<Rightarrow> log_hub" where
  "cancel_ctx c h = h\<lparr>cancelled := c # cancelled h\<rparr>"

definition tailer_start :: "string \<Rightarrow> string \<Rightarrow> log_hub \<Rightarrow> log_hub" where
  "tailer_start sub container h =
     (let h1 = (case map_of (cancels h) sub of Some c \<Rightarrow> cancel_ctx c h | None \<Rightarrow> h);
          ctx = hub_next h1
      in h1\<lparr>hub_next := Suc ctx, cancels := AList.update sub ctx (cancels h1),
            tails := tails h1 @ [\<lparr>lt_ctx = ctx, lt_sub = sub, lt_container = container\<rparr>]\<rparr>)"

definition tailer_stop :: "string \<Rightarrow> log_hub \<Rightarrow> log_hub" where
  "tailer_stop sub h =
     (case map_of (cancels h) sub of
        None \<Rightarrow> h
      | Some c \<Rightarrow> (cancel_ctx c h)\<lparr>cancels := AList.delete sub (cancels h)\<rparr>)"

definition tailer_stopAll :: "log_hub \<Rightarrow> log_hub" where
  "tailer_stopAll h = h\<lparr>cancelled := List.map snd (cancels h) @ cancelled h, cancels := []\<rparr>"

subsection \<open>Reading the multiplexed output\<close>

text \<open>\<open>strings.TrimRight(s, "\r\n")\<close>\<close>

definition TrimRight_newlines :: "string \<Rightarrow> string" where
  "TrimRight_newlines s = rev (dropWhile (\<lambda>c. c = CHR 0x0D \<or> c = CHR 0x0A) (rev s))"

text \<open>The big-endian size in the header; an \<open>int\<close> of 64 bits holds it.\<close>

definition frame_size :: "string \<Rightarrow> nat" where
  "frame_size hdr = byte (hdr ! 4) * 2 ^ 24 + byte (hdr ! 5) * 2 ^ 16 + byte (hdr ! 6) * 2 ^ 8 + byte (hdr ! 7)"

text \<open>One turn of the loop: what is left of the stream after it, and the line it publishes.\<close>

datatype tail_turn = TailEnd | TailSkip string | TailLine char string string

definition tail_read :: "bool \<Rightarrow> string \<Rightarrow> tail_turn" where
  "tail_read ctx_done bytes =
     (if ctx_done \<or> length bytes < 8 then TailEnd
      else let size = frame_size (take 8 bytes); rest = drop 8 bytes
           in if size = 0 then TailSkip rest
              else if length rest < size then TailEnd
              else TailLine (hd bytes) (TrimRight_newlines (take size rest)) (drop size rest))"

lemma tail_read_shorter:
  "tail_read d bytes = TailSkip rest \<Longrightarrow> length rest < length bytes"
  "tail_read d bytes = TailLine c l rest \<Longrightarrow> length rest < length bytes"
  by (auto simp: tail_read_def Let_def split: if_splits)

text \<open>The lines of a whole stream, if nothing cancels the tail.\<close>

function tail_lines :: "string \<Rightarrow> (char \<times> string) list" where
  "tail_lines bytes =
     (case tail_read False bytes of
        TailEnd \<Rightarrow> []
      | TailSkip rest \<Rightarrow> tail_lines rest
      | TailLine c l rest \<Rightarrow> (c, l) # tail_lines rest)"
  by pat_completeness auto
termination
  by (relation "measure length") (auto simp: tail_read_shorter)

declare tail_lines.simps [simp del]

subsection \<open>Publishing and subscribing\<close>

definition log_capacity :: nat where
  "log_capacity = 64"

text \<open>A send that does not block.\<close>

definition chan_offer :: "logLine \<Rightarrow> nat \<Rightarrow> log_hub \<Rightarrow> log_hub" where
  "chan_offer line ch h =
     (case log_chans h ch of
        None \<Rightarrow> h
      | Some q \<Rightarrow> if length q < log_capacity then h\<lparr>log_chans := (log_chans h)(ch \<mapsto> q @ [line])\<rparr> else h)"

definition publishLogLine :: "time \<Rightarrow> string \<Rightarrow> string \<Rightarrow> char \<Rightarrow> log_hub \<Rightarrow> log_hub" where
  "publishLogLine now sub body stream h =
     (let line = \<lparr>ll_Time = now, ll_Body = body, ll_Kind = (if byte stream = 2 then ''err'' else ''info'')\<rparr>
      in fold (chan_offer line) (lookup_or [] (logSubscribers h) sub) h)"

definition subscribeLogs :: "string \<Rightarrow> log_hub \<Rightarrow> nat \<times> log_hub" where
  "subscribeLogs sub h =
     (let ch = hub_next h
      in (ch, h\<lparr>hub_next := Suc ch, log_chans := (log_chans h)(ch \<mapsto> []),
               logSubscribers := (logSubscribers h)(sub \<mapsto> lookup_or [] (logSubscribers h) sub @ [ch])\<rparr>))"

definition unsubscribeLogs :: "string \<Rightarrow> nat \<Rightarrow> log_hub \<Rightarrow> log_hub" where
  "unsubscribeLogs sub ch h =
     (let subs = remove1 ch (lookup_or [] (logSubscribers h) sub)
      in h\<lparr>logSubscribers := (logSubscribers h)(sub := (if subs = [] then None else Some subs))\<rparr>)"

subsection \<open>A viewer\<close>

text \<open>The start of the stream (after the checks of \<open>handleLogs\<close>), one turn of its loop, and its end;
  the deferred calls run in reverse.\<close>

definition viewer_open :: "string \<Rightarrow> string \<Rightarrow> response \<Rightarrow> log_hub \<Rightarrow> log_hub" where
  "viewer_open sub container w h =
     (let (ch, h1) = subscribeLogs sub h; h2 = tailer_start sub container h1
      in h2\<lparr>viewers := viewers h2 @ [\<lparr>vw_sub = sub, vw_chan = ch, vw_resp = w\<rparr>]\<rparr>)"

definition log_payload :: "logLine \<Rightarrow> string" where
  "log_payload line = time_FormatRFC3339 (ll_Time line) @ ''|'' @ ll_Kind line @ ''|'' @ ll_Body line"

definition sse_line :: "logLine \<Rightarrow> response \<Rightarrow> response" where
  "sse_line line w =
     rw_Flush (rw_Write (Text (''data: '' @ log_payload line @ [CHR 0x0A, CHR 0x0A]))
       (rw_Write (Text (''event: log'' @ [CHR 0x0A])) w))"

definition sse_keepalive :: "response \<Rightarrow> response" where
  "sse_keepalive w = rw_Flush (rw_Write (Text ('': keepalive'' @ [CHR 0x0A, CHR 0x0A])) w)"

definition viewer_receive :: "viewer \<Rightarrow> log_hub \<Rightarrow> log_hub" where
  "viewer_receive v h =
     (case log_chans h (vw_chan v) of
        Some (line # q) \<Rightarrow>
          h\<lparr>log_chans := (log_chans h)(vw_chan v \<mapsto> q),
            viewers := List.map (\<lambda>x. if x = v then v\<lparr>vw_resp := sse_line line (vw_resp v)\<rparr> else x) (viewers h)\<rparr>
      | _ \<Rightarrow> h)"

definition viewer_keepalive :: "viewer \<Rightarrow> log_hub \<Rightarrow> log_hub" where
  "viewer_keepalive v h =
     h\<lparr>viewers := List.map (\<lambda>x. if x = v then v\<lparr>vw_resp := sse_keepalive (vw_resp v)\<rparr> else x) (viewers h)\<rparr>"

definition viewer_close :: "viewer \<Rightarrow> log_hub \<Rightarrow> log_hub" where
  "viewer_close v h =
     unsubscribeLogs (vw_sub v) (vw_chan v) (tailer_stop (vw_sub v) (h\<lparr>viewers := remove1 v (viewers h)\<rparr>))"

text \<open>A turn of a tail on what is left of its stream, with the new rest (None when \<open>run\<close> returns). A
  stream that the daemon refuses to open is an empty one.\<close>

definition tailer_turn :: "time \<Rightarrow> log_tail \<Rightarrow> string \<Rightarrow> log_hub \<Rightarrow> string option \<times> log_hub" where
  "tailer_turn now t bytes h =
     (case tail_read (lt_ctx t \<in> set (cancelled h)) bytes of
        TailEnd \<Rightarrow> (None, h\<lparr>tails := remove1 t (tails h)\<rparr>)
      | TailSkip rest \<Rightarrow> (Some rest, h)
      | TailLine stream line rest \<Rightarrow> (Some rest, publishLogLine now (lt_sub t) line stream h))"

subsection \<open>The frames are read back\<close>

definition be4 :: "nat \<Rightarrow> string" where
  "be4 n = [chr (n div 2 ^ 24), chr (n div 2 ^ 16 mod 256), chr (n div 2 ^ 8 mod 256), chr (n mod 256)]"

text \<open>A frame as the daemon sends it: the stream's number, three zero bytes, the size, the text.\<close>

definition frame :: "char \<times> string \<Rightarrow> string" where
  "frame p = (case p of (c, body) \<Rightarrow> [c, CHR 0x00, CHR 0x00, CHR 0x00] @ be4 (length body) @ body)"

lemma frame_size_be4:
  assumes "n < 2 ^ 32"
  shows "frame_size ([c, c1, c2, c3] @ be4 n) = n"
proof -
  have "n div 2 ^ 24 < 256" using assms by simp
  moreover have "n = n div 2 ^ 24 * 2 ^ 24 + n div 2 ^ 16 mod 256 * 2 ^ 16 + n div 2 ^ 8 mod 256 * 2 ^ 8 + n mod 256"
    (is "_ = ?sum")
  proof -
    have "n = n div 256 * 256 + n mod 256" "n div 256 = n div 256 div 256 * 256 + n div 256 mod 256"
      "n div 256 div 256 = n div 256 div 256 div 256 * 256 + n div 256 div 256 mod 256"
      by (simp_all only: div_mult_mod_eq)
    moreover have "?sum = n div 256 div 256 div 256 * 16777216 + n div 256 div 256 mod 256 * 65536 + n div 256 mod 256 * 256 + n mod 256"
      by (simp add: div_mult2_eq [symmetric])
    ultimately show ?thesis by linarith
  qed
  ultimately show ?thesis by (simp add: frame_size_def be4_def)
qed

lemma tail_read_frame:
  assumes "0 < length body" "length body < 2 ^ 32"
  shows "tail_read False (frame (c, body) @ rest) = TailLine c (TrimRight_newlines body) rest"
proof -
  have "frame_size ([c, CHR 0x00, CHR 0x00, CHR 0x00] @ be4 (length body)) = length body"
    by (rule frame_size_be4 [OF assms(2)])
  then show ?thesis using assms(1) by (simp add: tail_read_def frame_def be4_def Let_def)
qed

text \<open>C18: The tail reads what the daemon framed. From a stream of frames with a text each, followed by a
  cut-off header, the tail publishes exactly the texts, in order and under their stream's
  number, without their trailing line ends.\<close>

theorem tail_reads_frames:
  assumes "list_all (\<lambda>(c, body). 0 < length body \<and> length body < 2 ^ 32) fs" "length rest < 8"
  shows "tail_lines (List.concat (List.map frame fs) @ rest) = List.map (\<lambda>(c, body). (c, TrimRight_newlines body)) fs"
  using assms
proof (induction fs)
  case Nil
  then show ?case by (subst tail_lines.simps) (simp add: tail_read_def)
next
  case (Cons f fs)
  obtain c body where f: "f = (c, body)" by force
  then show ?case
    using Cons by (subst tail_lines.simps) (simp add: tail_read_frame)
qed

theorem tail_reads_frames_witness:
  "tail_lines (frame (chr 1, ''up'' @ [CHR 0x0D, CHR 0x0A]) @ frame (chr 2, ''bad'') @ ''xy'') = [(chr 1, ''up''), (chr 2, ''bad'')]"
  using tail_reads_frames [of "[(chr 1, ''up'' @ [CHR 0x0D, CHR 0x0A]), (chr 2, ''bad'')]" "''xy''"]
  by (simp add: TrimRight_newlines_def)

subsection \<open>What subscribers get\<close>

text \<open>The contract of a publisher with bounded queues: a line goes to every subscriber that has room.\<close>

locale fanout =
  fixes publish :: "'k \<Rightarrow> 'x \<Rightarrow> 's \<Rightarrow> 's"
    and subscribed :: "'s \<Rightarrow> 'k \<Rightarrow> nat \<Rightarrow> bool"
    and queue :: "'s \<Rightarrow> nat \<Rightarrow> 'x list"
    and cap :: nat
    and ok :: "'s \<Rightarrow> bool"
  assumes publish_queue: "ok s \<Longrightarrow> queue (publish k x s) ch =
      (if subscribed s k ch \<and> length (queue s ch) < cap then queue s ch @ [x] else queue s ch)"
    and publish_subscribed: "ok s \<Longrightarrow> subscribed (publish k x s) = subscribed s"
    and publish_ok: "ok s \<Longrightarrow> ok (publish k x s)"
begin

lemma queue_run:
  "ok s \<Longrightarrow> length (queue s ch) \<le> cap \<Longrightarrow>
    queue (fold (\<lambda>(k, x). publish k x) xs s) ch =
      take cap (queue s ch @ List.map snd (filter (\<lambda>(k, x). subscribed s k ch) xs))"
proof (induction xs arbitrary: s)
  case (Cons p xs)
  obtain k x where p: "p = (k, x)" by force
  have "length (queue (publish k x s) ch) \<le> cap"
    using Cons.prems by (simp add: publish_queue)
  from Cons.IH [OF publish_ok [OF Cons.prems(1)] this] Cons.prems show ?case
    by (auto simp: p publish_queue publish_subscribed take_Cons')
qed simp

end

definition publish_line :: "string \<Rightarrow> logLine \<Rightarrow> log_hub \<Rightarrow> log_hub" where
  "publish_line sub line h = fold (chan_offer line) (lookup_or [] (logSubscribers h) sub) h"

definition log_queue :: "log_hub \<Rightarrow> nat \<Rightarrow> logLine list" where
  "log_queue h ch = lookup_or [] (log_chans h) ch"

definition is_subscribed :: "log_hub \<Rightarrow> string \<Rightarrow> nat \<Rightarrow> bool" where
  "is_subscribed h sub ch \<longleftrightarrow> ch \<in> set (lookup_or [] (logSubscribers h) sub)"

text \<open>
  The invariant of the hub. Subscribed channels exist and are listed once, for one service; their
  queues are bounded; numbers of channels and contexts were handed out; and a tail whose
  context is not cancelled is the one that \<open>cancels\<close> names for its service, so a service
  has at most one.
\<close>

definition hub_inv :: "log_hub \<Rightarrow> bool" where
  "hub_inv h \<longleftrightarrow>
     (\<forall>sub. distinct (lookup_or [] (logSubscribers h) sub)) \<and>
     (\<forall>sub ch. is_subscribed h sub ch \<longrightarrow> log_chans h ch \<noteq> None) \<and>
     (\<forall>sub sub' ch. is_subscribed h sub ch \<longrightarrow> is_subscribed h sub' ch \<longrightarrow> sub = sub') \<and>
     (\<forall>ch q. log_chans h ch = Some q \<longrightarrow> ch < hub_next h \<and> length q \<le> log_capacity) \<and>
     (\<forall>c \<in> set (cancelled h). c < hub_next h) \<and> (\<forall>p \<in> set (cancels h). snd p < hub_next h) \<and>
     (\<forall>t \<in> set (tails h). lt_ctx t \<notin> set (cancelled h) \<longrightarrow> map_of (cancels h) (lt_sub t) = Some (lt_ctx t)) \<and>
     distinct (List.map lt_ctx (tails h)) \<and> (\<forall>t \<in> set (tails h). lt_ctx t < hub_next h)"

lemma chan_offer_sel [simp]:
  "cancels (chan_offer l ch h) = cancels h" "cancelled (chan_offer l ch h) = cancelled h"
  "tails (chan_offer l ch h) = tails h" "logSubscribers (chan_offer l ch h) = logSubscribers h"
  "viewers (chan_offer l ch h) = viewers h" "hub_next (chan_offer l ch h) = hub_next h"
  by (simp_all add: chan_offer_def split: option.split)

lemma fold_offer_sel [simp]:
  "cancels (fold (chan_offer l) cs h) = cancels h" "cancelled (fold (chan_offer l) cs h) = cancelled h"
  "tails (fold (chan_offer l) cs h) = tails h" "logSubscribers (fold (chan_offer l) cs h) = logSubscribers h"
  "viewers (fold (chan_offer l) cs h) = viewers h" "hub_next (fold (chan_offer l) cs h) = hub_next h"
  by (induction cs arbitrary: h) simp_all

lemma chan_offer_chans:
  "log_chans (chan_offer l ch h) ch' =
    (if ch' = ch \<and> log_chans h ch \<noteq> None \<and> length (log_queue h ch) < log_capacity
     then Some (log_queue h ch @ [l]) else log_chans h ch')"
  by (auto simp: chan_offer_def log_queue_def split: option.splits)

lemma fold_offer_chans:
  "distinct cs \<Longrightarrow> log_chans (fold (chan_offer l) cs h) ch =
    (if ch \<in> set cs \<and> log_chans h ch \<noteq> None \<and> length (log_queue h ch) < log_capacity
     then Some (log_queue h ch @ [l]) else log_chans h ch)"
proof (induction cs arbitrary: h)
  case (Cons c cs)
  show ?case
    using Cons.IH [of "chan_offer l c h"] Cons.prems
    by (auto simp: chan_offer_chans log_queue_def)
qed simp

lemma publish_line_chans:
  "hub_inv h \<Longrightarrow> log_chans (publish_line sub l h) ch =
    (if is_subscribed h sub ch \<and> length (log_queue h ch) < log_capacity
     then Some (log_queue h ch @ [l]) else log_chans h ch)"
proof -
  assume inv: "hub_inv h"
  then have "distinct (lookup_or [] (logSubscribers h) sub)" by (simp add: hub_inv_def)
  moreover have "is_subscribed h sub ch \<Longrightarrow> log_chans h ch \<noteq> None" using inv by (simp add: hub_inv_def)
  ultimately show ?thesis by (simp add: publish_line_def fold_offer_chans is_subscribed_def)
qed

lemma hub_invD:
  assumes "hub_inv h"
  shows "is_subscribed h sub ch \<Longrightarrow> ch < hub_next h" "length (log_queue h ch) \<le> log_capacity"
proof -
  show "length (log_queue h ch) \<le> log_capacity"
    using assms by (cases "log_chans h ch") (simp_all add: hub_inv_def log_queue_def)
  assume "is_subscribed h sub ch"
  then obtain q where "log_chans h ch = Some q" using assms unfolding hub_inv_def by blast
  then show "ch < hub_next h" using assms by (simp add: hub_inv_def)
qed

lemma publish_line_sel [simp]:
  "cancels (publish_line sub l h) = cancels h" "cancelled (publish_line sub l h) = cancelled h"
  "tails (publish_line sub l h) = tails h" "logSubscribers (publish_line sub l h) = logSubscribers h"
  "viewers (publish_line sub l h) = viewers h" "hub_next (publish_line sub l h) = hub_next h"
  "is_subscribed (publish_line sub l h) = is_subscribed h"
  by (simp_all add: publish_line_def is_subscribed_def fun_eq_iff)

lemma hub_inv_publish:
  assumes "hub_inv h"
  shows "hub_inv (publish_line sub l h)"
proof -
  have "ch < hub_next h \<and> length q \<le> log_capacity" if "log_chans (publish_line sub l h) ch = Some q" for ch q
    using that hub_invD(1) [OF assms, of sub ch] hub_invD(2) [OF assms, of ch] assms
    by (auto simp: publish_line_chans hub_inv_def split: if_splits)
  moreover have "log_chans (publish_line sub l h) ch \<noteq> None" if "is_subscribed h k ch" for k ch
    using that assms unfolding hub_inv_def by (simp add: publish_line_chans [OF assms])
  ultimately show ?thesis using assms by (simp add: hub_inv_def)
qed

interpretation hub: fanout publish_line is_subscribed log_queue log_capacity hub_inv
proof (unfold_locales, goal_cases)
  case (1 h k x ch)
  then show ?case by (simp add: log_queue_def lookup_or_def publish_line_chans)
next
  case (2 h k x)
  then show ?case by simp
next
  case (3 h k x)
  then show ?case by (rule hub_inv_publish)
qed


definition published :: "time \<Rightarrow> string \<Rightarrow> char \<Rightarrow> logLine" where
  "published now body stream =
     \<lparr>ll_Time = now, ll_Body = body, ll_Kind = (if byte stream = 2 then ''err'' else ''info'')\<rparr>"

lemma publishLogLine_eq: "publishLogLine now sub body stream = publish_line sub (published now body stream)"
  by (simp add: publishLogLine_def publish_line_def published_def fun_eq_iff)

lemma queue_after_publishing:
  assumes "hub_inv h" "is_subscribed h sub ch"
  shows "log_queue (fold (\<lambda>(k, now, body, stream). publishLogLine now k body stream) ls h) ch =
    take 64 (log_queue h ch @
      List.map (\<lambda>(k, now, body, stream). published now body stream) (filter (\<lambda>(k, _). k = sub) ls))"
proof -
  let ?xs = "List.map (\<lambda>(k, now, body, stream). (k, published now body stream)) ls"
  have run: "fold (\<lambda>(k, now, body, stream). publishLogLine now k body stream) ls h =
      fold (\<lambda>(k, x). publish_line k x) ?xs h"
    by (simp add: fold_map publishLogLine_eq o_def case_prod_unfold)
  have "is_subscribed h k ch \<longleftrightarrow> k = sub" for k
    using assms unfolding hub_inv_def by blast
  then have "List.map snd (filter (\<lambda>(k, x). is_subscribed h k ch) ?xs) =
      List.map (\<lambda>(k, now, body, stream). published now body stream) (filter (\<lambda>(k, _). k = sub) ls)"
    by (induction ls) (auto simp: case_prod_beta)
  then show ?thesis
    using hub.queue_run [OF assms(1) hub_invD(2) [OF assms(1)], of ?xs ch]
    by (simp add: run log_capacity_def)
qed

text \<open>A slow viewer gets the first lines and loses the rest. While a viewer receives nothing, its
  channel holds what it held, followed by the lines published to its service in the order of
  publication, cut off at 64 lines; lines of other services never reach it.\<close>

theorem slow_viewer_keeps_first_lines:
  assumes "hub_inv h" "is_subscribed h sub ch"
  shows "log_queue (fold (\<lambda>(k, now, body, stream). publishLogLine now k body stream) ls h) ch =
    take 64 (log_queue h ch @
      List.map (\<lambda>(k, now, body, stream). published now body stream) (filter (\<lambda>(k, _). k = sub) ls))"
  using assms by (rule queue_after_publishing)

subsection \<open>Everything that happens to the hub\<close>

datatype hub_op =
    Hub_open string string response
  | Hub_receive nat
  | Hub_keepalive nat
  | Hub_close nat
  | Hub_tail nat time string
  | Hub_stop_all

definition with_viewer :: "nat \<Rightarrow> (viewer \<Rightarrow> log_hub \<Rightarrow> log_hub) \<Rightarrow> log_hub \<Rightarrow> log_hub" where
  "with_viewer ch f h = (case List.find (\<lambda>v. vw_chan v = ch) (viewers h) of None \<Rightarrow> h | Some v \<Rightarrow> f v h)"

definition with_tail :: "nat \<Rightarrow> (log_tail \<Rightarrow> log_hub \<Rightarrow> log_hub) \<Rightarrow> log_hub \<Rightarrow> log_hub" where
  "with_tail c f h = (case List.find (\<lambda>t. lt_ctx t = c) (tails h) of None \<Rightarrow> h | Some t \<Rightarrow> f t h)"

fun hub_step :: "hub_op \<Rightarrow> log_hub \<Rightarrow> log_hub" where
  "hub_step (Hub_open sub container w) h = viewer_open sub container w h"
| "hub_step (Hub_receive ch) h = with_viewer ch viewer_receive h"
| "hub_step (Hub_keepalive ch) h = with_viewer ch viewer_keepalive h"
| "hub_step (Hub_close ch) h = with_viewer ch viewer_close h"
| "hub_step (Hub_tail c now bytes) h = with_tail c (\<lambda>t h. snd (tailer_turn now t bytes h)) h"
| "hub_step Hub_stop_all h = tailer_stopAll h"

text \<open>The tails of a service that still publish.\<close>

definition live_tails :: "string \<Rightarrow> log_hub \<Rightarrow> log_tail list" where
  "live_tails sub h = filter (\<lambda>t. lt_sub t = sub \<and> lt_ctx t \<notin> set (cancelled h)) (tails h)"

lemma live_tail_ctx: "hub_inv h \<Longrightarrow> t \<in> set (live_tails sub h) \<Longrightarrow> map_of (cancels h) sub = Some (lt_ctx t)"
  by (auto simp: live_tails_def hub_inv_def)

lemma hub_inv_live: "hub_inv h \<Longrightarrow> length (live_tails sub h) \<le> 1"
proof -
  assume inv: "hub_inv h"
  let ?cs = "List.map lt_ctx (live_tails sub h)"
  have "set ?cs \<subseteq> {the (map_of (cancels h) sub)}" using live_tail_ctx [OF inv] by fastforce
  then have "card (set ?cs) \<le> 1" by (metis card.empty card_insert_disjoint card_mono empty_iff finite.emptyI finite.insertI One_nat_def)
  moreover have "distinct ?cs"
    using inv by (simp add: live_tails_def hub_inv_def distinct_map_filter)
  ultimately show ?thesis by (metis distinct_card length_map)
qed

lemma hub_inv_new: "hub_inv new_hub"
  by (simp add: hub_inv_def new_hub_def lookup_or_def is_subscribed_def)

lemma hub_inv_drop_tail:
  assumes "hub_inv h"
  shows "hub_inv (h\<lparr>tails := remove1 t (tails h)\<rparr>)"
proof -
  have "distinct (List.map lt_ctx (remove1 t (tails h)))"
    using assms by (simp add: hub_inv_def distinct_map inj_on_def)
  then show ?thesis
    using assms set_remove1_subset [of t "tails h"] by (auto simp: hub_inv_def is_subscribed_def)
qed

lemma hub_inv_viewers: "hub_inv h \<Longrightarrow> hub_inv (h\<lparr>viewers := vs\<rparr>)"
  by (simp add: hub_inv_def is_subscribed_def)

lemma hub_inv_subscribe:
  assumes "hub_inv h"
  shows "hub_inv (snd (subscribeLogs sub h))"
proof -
  let ?h = "snd (subscribeLogs sub h)"
  have sub: "is_subscribed ?h k ch \<longleftrightarrow> is_subscribed h k ch \<or> (k = sub \<and> ch = hub_next h)" for k ch
    by (auto simp: subscribeLogs_def is_subscribed_def lookup_or_def Let_def split: option.splits)
  have fresh: "\<not> is_subscribed h k (hub_next h)" for k using hub_invD(1) [OF assms] by blast
  have "distinct (lookup_or [] (logSubscribers ?h) k)" for k
    using assms fresh [of sub]
    by (auto simp: subscribeLogs_def hub_inv_def is_subscribed_def lookup_or_def Let_def split: option.splits)
  moreover have "log_chans ?h ch \<noteq> None" if "is_subscribed ?h k ch" for k ch
    using that assms by (auto simp: sub hub_inv_def) (auto simp: subscribeLogs_def Let_def)
  moreover have "k = k'" if "is_subscribed ?h k ch" "is_subscribed ?h k' ch" for k k' ch
    using that fresh assms unfolding sub hub_inv_def by blast
  moreover have "ch < hub_next ?h \<and> length q \<le> log_capacity" if "log_chans ?h ch = Some q" for ch q
    using that assms by (auto simp: subscribeLogs_def Let_def hub_inv_def split: if_splits intro: less_SucI)
  moreover have "cancels ?h = cancels h" "cancelled ?h = cancelled h" "tails ?h = tails h" "hub_next h < hub_next ?h"
    by (simp_all add: subscribeLogs_def Let_def)
  ultimately show ?thesis
    using assms unfolding hub_inv_def by (auto intro: less_trans)
qed

lemma hub_inv_cancel: "hub_inv h \<Longrightarrow> c < hub_next h \<Longrightarrow> hub_inv (cancel_ctx c h)"
  by (simp add: hub_inv_def cancel_ctx_def is_subscribed_def)

lemma hub_cancels_next: "hub_inv h \<Longrightarrow> map_of (cancels h) sub = Some c \<Longrightarrow> c < hub_next h"
  by (auto simp: hub_inv_def dest!: map_of_SomeD)

lemma set_AList_update: "set (AList.update k v al) \<subseteq> insert (k, v) (set al)"
  by (induction al) auto

lemma set_AList_delete: "set (AList.delete k al) \<subseteq> set al"
  by (auto simp: AList.delete_eq)

lemma hub_inv_start:
  assumes "hub_inv h"
  shows "hub_inv (tailer_start sub container h)"
proof -
  define h1 where "h1 = (case map_of (cancels h) sub of Some c \<Rightarrow> cancel_ctx c h | None \<Rightarrow> h)"
  have inv: "hub_inv h1" using assms by (auto simp: h1_def intro: hub_inv_cancel hub_cancels_next split: option.split)
  have h1: "cancels h1 = cancels h" "tails h1 = tails h" "hub_next h1 = hub_next h" "set (cancelled h) \<subseteq> set (cancelled h1)"
    by (auto simp: h1_def cancel_ctx_def split: option.split)
  have dead: "lt_ctx t \<in> set (cancelled h1)" if "t \<in> set (tails h)" "lt_sub t = sub" for t
    using that assms by (auto simp: h1_def cancel_ctx_def hub_inv_def split: option.split)
  show ?thesis
    unfolding tailer_start_def h1_def [symmetric] Let_def
    using inv dead unfolding hub_inv_def h1 is_subscribed_def
    by (auto simp: update_conv' h1 intro: less_SucI dest!: set_AList_update [THEN subsetD])
qed

lemma hub_inv_stop:
  assumes "hub_inv h"
  shows "hub_inv (tailer_stop sub h)" "hub_inv (tailer_stopAll h)"
proof -
  show "hub_inv (tailer_stop sub h)"
    using assms hub_cancels_next [OF assms, of sub]
    by (auto simp: tailer_stop_def cancel_ctx_def hub_inv_def is_subscribed_def delete_conv'
        dest!: set_AList_delete [THEN subsetD] split: option.split)
  have "lt_ctx t \<in> snd ` set (cancels h)" if "t \<in> set (tails h)" "lt_ctx t \<notin> set (cancelled h)" for t
  proof -
    have "map_of (cancels h) (lt_sub t) = Some (lt_ctx t)" using that assms by (simp add: hub_inv_def)
    from imageI [OF map_of_SomeD [OF this], of snd] show ?thesis by simp
  qed
  then show "hub_inv (tailer_stopAll h)"
    using assms by (auto simp: tailer_stopAll_def hub_inv_def is_subscribed_def)
qed

lemma hub_inv_unsubscribe:
  assumes "hub_inv h"
  shows "hub_inv (unsubscribeLogs sub ch h)"
proof -
  have *: "lookup_or [] (logSubscribers (unsubscribeLogs sub ch h)) k =
      (if k = sub then remove1 ch (lookup_or [] (logSubscribers h) k) else lookup_or [] (logSubscribers h) k)" for k
    by (auto simp: unsubscribeLogs_def lookup_or_def Let_def split: option.split)
  have sel: "log_chans (unsubscribeLogs sub ch h) = log_chans h" "cancels (unsubscribeLogs sub ch h) = cancels h"
    "cancelled (unsubscribeLogs sub ch h) = cancelled h" "tails (unsubscribeLogs sub ch h) = tails h"
    "hub_next (unsubscribeLogs sub ch h) = hub_next h"
    by (simp_all add: unsubscribeLogs_def Let_def)
  have "is_subscribed (unsubscribeLogs sub ch h) k c \<Longrightarrow> is_subscribed h k c" for k c
    using set_remove1_subset [of ch "lookup_or [] (logSubscribers h) k"] by (auto simp: is_subscribed_def * split: if_splits)
  moreover have "distinct (lookup_or [] (logSubscribers (unsubscribeLogs sub ch h)) k)" for k
    using assms by (simp add: * hub_inv_def)
  ultimately show ?thesis
    using assms sel unfolding hub_inv_def sel by blast
qed


lemma hub_inv_find:
  assumes "hub_inv h" "\<And>x. hub_inv (f x h)" "\<And>x. hub_inv (g x h)"
  shows "hub_inv (with_viewer ch f h)" "hub_inv (with_tail c g h)"
  using assms by (simp_all add: with_viewer_def with_tail_def split: option.split)

lemma hub_inv_receive:
  assumes "hub_inv h"
  shows "hub_inv (viewer_receive v h)"
proof (cases "log_chans h (vw_chan v)")
  case (Some q)
  then have "length q \<le> log_capacity" using assms by (simp add: hub_inv_def)
  then show ?thesis
    using Some assms by (cases q) (auto simp: viewer_receive_def hub_inv_def is_subscribed_def)
qed (simp add: viewer_receive_def assms)

lemma hub_inv_step: "hub_inv h \<Longrightarrow> hub_inv (hub_step op h)"
proof (cases op)
  case (Hub_open sub container w)
  moreover assume "hub_inv h"
  ultimately show ?thesis
    by (simp add: viewer_open_def Let_def hub_inv_viewers hub_inv_start hub_inv_subscribe split: prod.split)
      (metis hub_inv_start hub_inv_subscribe hub_inv_viewers snd_conv)
qed (auto intro!: hub_inv_find(1) [of _ _ "\<lambda>_ h. h"] hub_inv_find(2) [of _ "\<lambda>_ h. h"] hub_inv_receive hub_inv_stop
      hub_inv_unsubscribe hub_inv_viewers hub_inv_drop_tail hub_inv_publish
      simp: viewer_keepalive_def viewer_close_def tailer_turn_def publishLogLine_eq split: tail_turn.split)


lemma hub_inv_run: "hub_inv h \<Longrightarrow> hub_inv (fold hub_step ops h)"
  by (induction ops arbitrary: h) (simp_all add: hub_inv_step)

theorem slow_viewer_keeps_first_lines_witness:
  "log_queue (fold (\<lambda>(k, now, body, stream). publishLogLine now k body stream)
      (replicate 70 (''app'', 0, ''x'', chr 1)) (viewer_open ''app'' ''web'' new_response new_hub)) 0 =
    replicate 64 (published 0 ''x'' (chr 1))"
proof -
  let ?h = "viewer_open ''app'' ''web'' new_response new_hub"
  have "hub_inv ?h" using hub_inv_step [OF hub_inv_new, of "Hub_open ''app'' ''web'' new_response"] by simp
  moreover have "is_subscribed ?h ''app'' 0" "log_queue ?h 0 = []"
    by (simp_all add: viewer_open_def subscribeLogs_def tailer_start_def new_hub_def is_subscribed_def log_queue_def lookup_or_def)
  ultimately show ?thesis
    using slow_viewer_keeps_first_lines [of ?h "''app''" 0 "replicate 70 (''app'', 0, ''x'', chr 1)"]
    by (simp add: map_replicate_const [symmetric] filter_replicate)
qed

text \<open>Whatever viewers and tails do, in any order, and however often the program stops all tails, a
  service has at most one tail that is not cancelled, and no channel holds more than 64
  lines.\<close>

theorem one_live_tail_per_service:
  "length (live_tails sub (fold hub_step ops new_hub)) \<le> 1 \<and> length (log_queue (fold hub_step ops new_hub) ch) \<le> 64"
  using hub_inv_live hub_invD(2) hub_inv_run [OF hub_inv_new] by (auto simp: log_capacity_def)

text \<open>C38: A viewer that leaves silences the others. After any viewer of a service has closed its
  stream, the service has no live tail left, so a line that one of its tails reads reaches
  nobody, although other viewers of the service keep their streams open.\<close>

theorem leaving_viewer_silences_service:
  assumes "hub_inv h" "v \<in> set (viewers h)" "u \<in> set (viewers h)" "u \<noteq> v" "vw_sub u = vw_sub v"
    and "t \<in> set (tails h)" "lt_sub t = vw_sub v"
  shows "u \<in> set (viewers (viewer_close v h)) \<and>
    live_tails (vw_sub u) (viewer_close v h) = [] \<and>
    log_chans (snd (tailer_turn now t bytes (viewer_close v h))) = log_chans (viewer_close v h)"
proof (intro conjI)
  let ?h = "tailer_stop (vw_sub v) (h\<lparr>viewers := remove1 v (viewers h)\<rparr>)"
  have close: "tails (viewer_close v h) = tails ?h" "cancelled (viewer_close v h) = cancelled ?h"
      "viewers (viewer_close v h) = viewers ?h"
    by (simp_all add: viewer_close_def unsubscribeLogs_def Let_def)
  have dead: "lt_ctx x \<in> set (cancelled (viewer_close v h))" if "x \<in> set (tails h)" "lt_sub x = vw_sub v" for x
    using that assms(1) unfolding close by (auto simp: tailer_stop_def cancel_ctx_def hub_inv_def split: option.split)
  have same: "viewers ?h = remove1 v (viewers h)" "tails ?h = tails h"
    by (simp_all add: tailer_stop_def cancel_ctx_def split: option.split)
  show "u \<in> set (viewers (viewer_close v h))" using assms(3,4) unfolding close same by simp
  show "live_tails (vw_sub u) (viewer_close v h) = []"
    using dead unfolding live_tails_def close(1) same by (auto simp: assms(5) filter_empty_conv)
  show "log_chans (snd (tailer_turn now t bytes (viewer_close v h))) = log_chans (viewer_close v h)"
    using dead [OF assms(6,7)] by (simp add: tailer_turn_def tail_read_def)
qed

theorem leaving_viewer_silences_service_witness:
  "\<exists>h u v t. u \<noteq> v \<and> vw_sub u = vw_sub v \<and> u \<in> set (viewers h) \<and> live_tails (vw_sub u) h \<noteq> [] \<and>
     u \<in> set (viewers (viewer_close v h)) \<and> live_tails (vw_sub u) (viewer_close v h) = [] \<and>
     log_chans (snd (tailer_turn 0 t (frame (chr 1, ''line'')) (viewer_close v h))) = log_chans (viewer_close v h)"
proof -
  let ?open = "Hub_open ''app'' ''web'' new_response"
  let ?h = "fold hub_step [?open, ?open] new_hub"
  let ?v = "\<lparr>vw_sub = ''app'', vw_chan = 0, vw_resp = new_response\<rparr>"
  let ?u = "\<lparr>vw_sub = ''app'', vw_chan = 2, vw_resp = new_response\<rparr>"
  let ?t = "\<lparr>lt_ctx = 3, lt_sub = ''app'', lt_container = ''web''\<rparr>"
  have h: "viewers ?h = [?v, ?u]" "?t \<in> set (tails ?h)" "cancelled ?h = [1]"
    by (simp_all add: viewer_open_def subscribeLogs_def tailer_start_def new_hub_def cancel_ctx_def lookup_or_def Let_def)
  then have "live_tails ''app'' ?h \<noteq> []" by (force simp: live_tails_def filter_empty_conv)
  moreover have "?u \<in> set (viewers (viewer_close ?v ?h)) \<and> live_tails ''app'' (viewer_close ?v ?h) = [] \<and>
      log_chans (snd (tailer_turn 0 ?t (frame (chr 1, ''line'')) (viewer_close ?v ?h))) = log_chans (viewer_close ?v ?h)"
    using leaving_viewer_silences_service [OF hub_inv_run [OF hub_inv_new], of ?v "[?open, ?open]" ?u ?t] h by simp
  ultimately show ?thesis using h(1) by (intro exI [of _ ?h] exI [of _ ?u] exI [of _ ?v] exI [of _ ?t]) simp
qed


subsection \<open>The end of a tail\<close>

text \<open>Turns of one tail on a stream that ends, at the times \<open>now\<close>; before each turn the rest of the program
  changes the hub by \<open>f\<close> in any way.\<close>

fun tail_turns :: "nat \<Rightarrow> (nat \<Rightarrow> log_hub \<Rightarrow> log_hub) \<Rightarrow> (nat \<Rightarrow> time) \<Rightarrow> log_tail \<Rightarrow> string option \<Rightarrow> log_hub \<Rightarrow> string option \<times> log_hub" where
  "tail_turns n f now t None h = (None, h)"
| "tail_turns 0 f now t (Some bytes) h = (Some bytes, h)"
| "tail_turns (Suc n) f now t (Some bytes) h =
     (case tailer_turn (now n) t bytes (f n h) of (rest, h') \<Rightarrow> tail_turns n f now t rest h')"

lemma tail_read_consumes:
  "tail_read d bytes = TailSkip rest \<Longrightarrow> length rest + 8 \<le> length bytes"
  "tail_read d bytes = TailLine c l rest \<Longrightarrow> length rest + 8 \<le> length bytes"
  by (auto simp: tail_read_def Let_def split: if_splits)

lemma tail_turns_end: "length bytes < 8 * n \<Longrightarrow> fst (tail_turns n f now t (Some bytes) h) = None"
proof (induction n arbitrary: bytes h)
  case (Suc n)
  show ?case
  proof (cases "tail_read (lt_ctx t \<in> set (cancelled (f n h))) bytes")
    case (TailSkip rest)
    then show ?thesis using Suc tail_read_consumes(1) [OF TailSkip] by (simp add: tailer_turn_def)
  next
    case (TailLine c l rest)
    then show ?thesis using Suc tail_read_consumes(2) [OF TailLine] by (simp add: tailer_turn_def)
  qed (simp add: tailer_turn_def)
qed simp

text \<open>C32: A tail ends with its stream. Every turn that goes on has taken a header of eight bytes, so on a
  stream of \<open>n\<close> bytes the goroutine has returned after \<open>n div 8 + 1\<close> turns, whatever others do
  to the hub meanwhile; once its context is cancelled it returns at its next turn, with no
  further line published.\<close>

theorem tail_ends_with_stream:
  "fst (tail_turns (Suc (length bytes div 8)) f now t (Some bytes) h) = None \<and>
   (\<exists>h'. tailer_turn u t bytes (h\<lparr>cancelled := lt_ctx t # cancelled h\<rparr>) = (None, h') \<and> log_chans h' = log_chans h)"
proof -
  have "length bytes < 8 * Suc (length bytes div 8)" by simp
  then have "fst (tail_turns (Suc (length bytes div 8)) f now t (Some bytes) h) = None" by (rule tail_turns_end)
  then show ?thesis by (simp add: tailer_turn_def tail_read_def)
qed


subsection \<open>From the daemon to the viewer\<close>

text \<open>What the viewer's loop writes for a line.\<close>

definition sse_event :: "logLine \<Rightarrow> chunk list" where
  "sse_event line =
     [Text (''event: log'' @ [CHR 0x0A]), Text (''data: '' @ log_payload line @ [CHR 0x0A, CHR 0x0A])]"

lemma body_sse_line [simp]: "rw_body (sse_line line w) = rw_body w @ sse_event line"
  by (simp add: sse_line_def sse_event_def rw_Flush_def)

lemma find_map: "(\<And>x. P (f x) = P x) \<Longrightarrow> List.find P (List.map f xs) = map_option f (List.find P xs)"
  by (induction xs) simp_all

lemma find_beyond: "List.find P xs = None \<Longrightarrow> List.find P (xs @ ys) = List.find P ys"
  by (induction xs) (auto split: if_splits)

definition viewer_of :: "nat \<Rightarrow> log_hub \<Rightarrow> viewer option" where
  "viewer_of ch h = List.find (\<lambda>v. vw_chan v = ch) (viewers h)"

lemma viewer_of_chan: "viewer_of ch h = Some v \<Longrightarrow> vw_chan v = ch"
  by (auto simp: viewer_of_def find_Some_iff)

text \<open>A viewer that receives as often as lines wait has written them all, in order.\<close>

lemma viewer_drains:
  "viewer_of ch h = Some v \<Longrightarrow> log_queue h ch = q \<Longrightarrow>
    \<exists>v'. viewer_of ch (fold hub_step (replicate (length q) (Hub_receive ch)) h) = Some v' \<and>
      rw_body (vw_resp v') = rw_body (vw_resp v) @ List.concat (List.map sse_event q)"
proof (induction q arbitrary: h v)
  case (Cons line q)
  let ?h = "hub_step (Hub_receive ch) h"
  let ?v = "v\<lparr>vw_resp := sse_line line (vw_resp v)\<rparr>"
  have "log_chans h ch = Some (line # q)" using Cons.prems(2) by (simp add: log_queue_def lookup_or_def split: option.splits)
  then have step: "?h = h\<lparr>log_chans := (log_chans h)(ch \<mapsto> q), viewers := List.map (\<lambda>x. if x = v then ?v else x) (viewers h)\<rparr>"
    using Cons.prems viewer_of_chan [OF Cons.prems(1)]
    by (simp add: with_viewer_def viewer_of_def [symmetric] viewer_receive_def)
  have "viewer_of ch ?h = Some ?v"
    unfolding step using Cons.prems(1) by (simp add: viewer_of_def find_map)
  moreover have "log_queue ?h ch = q" unfolding step by (simp add: log_queue_def lookup_or_def)
  ultimately obtain v' where "viewer_of ch (fold hub_step (replicate (length q) (Hub_receive ch)) ?h) = Some v'"
      "rw_body (vw_resp v') = rw_body (vw_resp ?v) @ List.concat (List.map sse_event q)"
    using Cons.IH by blast
  then show ?case by simp
qed simp

lemma tail_turns_frames:
  assumes "list_all (\<lambda>(c, body). 0 < length body \<and> length body < 2 ^ 32) fs" "lt_ctx t \<notin> set (cancelled h)"
  shows "tail_turns (length fs) (\<lambda>_ h. h) (\<lambda>_. now) t (Some (List.concat (List.map frame fs) @ rest)) h =
    (Some rest, fold (\<lambda>(k, now, body, stream). publishLogLine now k body stream)
       (List.map (\<lambda>(c, body). (lt_sub t, now, TrimRight_newlines body, c)) fs) h)"
  using assms
proof (induction fs arbitrary: h)
  case (Cons f fs)
  obtain c body where f: "f = (c, body)" by force
  then show ?case
    using Cons by (simp add: tailer_turn_def tail_read_frame publishLogLine_eq)
qed simp

definition viewers_known :: "log_hub \<Rightarrow> bool" where
  "viewers_known h \<longleftrightarrow> (\<forall>v \<in> set (viewers h). vw_chan v < hub_next h)"

lemma viewers_known_mono:
  "viewers_known h \<Longrightarrow> vw_chan ` set (viewers h') \<subseteq> vw_chan ` set (viewers h) \<Longrightarrow> hub_next h \<le> hub_next h' \<Longrightarrow> viewers_known h'"
  by (force simp: viewers_known_def)

lemma vw_chan_turn [simp]: "vw_chan (if x = v then v\<lparr>vw_resp := w\<rparr> else x) = vw_chan x"
  by simp

lemma viewers_known_turn:
  assumes "viewers_known h"
  shows "viewers_known (viewer_receive v h)" "viewers_known (viewer_keepalive v h)"
proof -
  show "viewers_known (viewer_keepalive v h)"
    using assms by (auto simp: viewers_known_def viewer_keepalive_def)
  show "viewers_known (viewer_receive v h)"
    using assms by (auto simp: viewers_known_def viewer_receive_def split: option.split list.split)
qed

lemma viewers_known_step: "viewers_known h \<Longrightarrow> viewers_known (hub_step op h)"
proof (cases op)
  case (Hub_open sub container w)
  moreover assume "viewers_known h"
  ultimately show ?thesis
    by (simp add: viewers_known_def viewer_open_def subscribeLogs_def tailer_start_def cancel_ctx_def Let_def less_SucI
        split: option.split)
next
  case (Hub_close ch)
  have "viewers (viewer_close v h) = remove1 v (viewers h)" "hub_next (viewer_close v h) = hub_next h" for v
    by (simp_all add: viewer_close_def unsubscribeLogs_def tailer_stop_def cancel_ctx_def Let_def split: option.split)
  then have "viewers_known (viewer_close v h)" if "viewers_known h" for v
    using that by (intro viewers_known_mono [OF that] image_mono) (simp_all add: set_remove1_subset)
  moreover assume "viewers_known h"
  ultimately show ?thesis using Hub_close by (simp add: with_viewer_def split: option.split)
next
  case (Hub_receive ch)
  moreover assume "viewers_known h"
  ultimately show ?thesis by (simp add: with_viewer_def viewers_known_turn split: option.split)
next
  case (Hub_keepalive ch)
  moreover assume "viewers_known h"
  ultimately show ?thesis by (simp add: with_viewer_def viewers_known_turn split: option.split)
next
  case (Hub_tail c now bytes)
  moreover assume "viewers_known h"
  ultimately show ?thesis
    by (simp add: viewers_known_def with_tail_def tailer_turn_def publishLogLine_eq split: option.split tail_turn.split)
qed (simp add: viewers_known_def tailer_stopAll_def)

lemma viewers_known_run: "viewers_known h \<Longrightarrow> viewers_known (fold hub_step ops h)"
  by (induction ops arbitrary: h) (simp_all add: viewers_known_step)

lemma viewers_publishing [simp]:
  "viewers (fold (\<lambda>(k, now, body, stream). publishLogLine now k body stream) ls h) = viewers h"
  by (induction ls arbitrary: h) (auto simp: publishLogLine_eq)

text \<open>What opening adds: a viewer and a tail, under the next two numbers.\<close>

lemma viewer_open_parts:
  assumes "hub_inv h" "viewers_known h"
  defines "ch \<equiv> hub_next h"
  shows "viewer_of ch (viewer_open sub c w h) = Some \<lparr>vw_sub = sub, vw_chan = ch, vw_resp = w\<rparr>"
    "is_subscribed (viewer_open sub c w h) sub ch" "log_queue (viewer_open sub c w h) ch = []"
    "\<lparr>lt_ctx = Suc ch, lt_sub = sub, lt_container = c\<rparr> \<in> set (live_tails sub (viewer_open sub c w h))"
proof -
  have "List.find (\<lambda>v. vw_chan v = ch) (viewers h) = None"
    using assms(2) by (auto simp: find_None_iff viewers_known_def ch_def)
  then have "List.find (\<lambda>v. vw_chan v = ch) (viewers h @ [v]) = (if vw_chan v = ch then Some v else None)" for v
    by (simp add: find_beyond)
  then show "viewer_of ch (viewer_open sub c w h) = Some \<lparr>vw_sub = sub, vw_chan = ch, vw_resp = w\<rparr>"
    by (simp add: viewer_of_def viewer_open_def subscribeLogs_def tailer_start_def cancel_ctx_def ch_def Let_def
        split: option.split)
  show "is_subscribed (viewer_open sub c w h) sub ch" "log_queue (viewer_open sub c w h) ch = []"
    by (simp_all add: viewer_open_def subscribeLogs_def tailer_start_def cancel_ctx_def is_subscribed_def
        log_queue_def lookup_or_def ch_def Let_def split: option.split)
  have "Suc ch \<notin> set (cancelled h)" "map_of (cancels h) sub \<noteq> Some (Suc ch)"
    using assms(1) hub_cancels_next [OF assms(1), of sub] by (auto simp: hub_inv_def ch_def)
  then show "\<lparr>lt_ctx = Suc ch, lt_sub = sub, lt_container = c\<rparr> \<in> set (live_tails sub (viewer_open sub c w h))"
    by (auto simp: live_tails_def viewer_open_def subscribeLogs_def tailer_start_def cancel_ctx_def ch_def Let_def
        split: option.split)
qed

text \<open>C19: What the daemon writes reaches the viewer. Whatever happened before, when a viewer opens a live
  log, its tail reads up to 64 frames and the viewer then takes as many lines, the viewer's
  response holds one event per frame, in the order of the frames, with the frame's text
  (without trailing line ends), the time of reading and the kind of its stream, and the
  rest of the output waits for the tail's next turn.\<close>

theorem live_log_reaches_viewer:
  assumes "list_all (\<lambda>(c, body). 0 < length body \<and> length body < 2 ^ 32) fs" "length fs \<le> 64"
    and "h = viewer_open sub container w (fold hub_step ops new_hub)"
  shows "\<exists>t ch v. t \<in> set (live_tails sub h) \<and> lt_container t = container \<and>
    (case tail_turns (length fs) (\<lambda>_ h. h) (\<lambda>_. now) t (Some (List.concat (List.map frame fs) @ rest)) h of (left, h') \<Rightarrow>
       left = Some rest \<and>
       viewer_of ch (fold hub_step (replicate (length fs) (Hub_receive ch)) h') = Some v \<and>
       rw_body (vw_resp v) = rw_body w @
         List.concat (List.map (\<lambda>(c, body). sse_event (published now (TrimRight_newlines body) c)) fs))"
proof -
  define h0 where "h0 = fold hub_step ops new_hub"
  have h: "h = viewer_open sub container w h0" by (simp add: assms(3) h0_def)
  have inv: "hub_inv h0" "viewers_known h0"
    using hub_inv_run [OF hub_inv_new] viewers_known_run [of new_hub] by (simp_all add: h0_def viewers_known_def new_hub_def)
  let ?ch = "hub_next h0" and ?t = "\<lparr>lt_ctx = Suc (hub_next h0), lt_sub = sub, lt_container = container\<rparr>"
  let ?ls = "List.map (\<lambda>(c, body). (sub, now, TrimRight_newlines body, c)) fs"
  let ?h' = "fold (\<lambda>(k, now, body, stream). publishLogLine now k body stream) ?ls h"
  note parts = viewer_open_parts [OF inv, of sub container w, folded h]
  have "hub_inv h" unfolding h using hub_inv_step [OF inv(1), of "Hub_open sub container w"] by simp
  then have queue: "log_queue ?h' ?ch = List.map (\<lambda>(c, body). published now (TrimRight_newlines body) c) fs"
    using queue_after_publishing [of h sub ?ch ?ls] parts(2,3) assms(2)
    by (simp add: filter_map o_def case_prod_unfold)
  moreover have "viewer_of ?ch ?h' = Some \<lparr>vw_sub = sub, vw_chan = ?ch, vw_resp = w\<rparr>"
    using parts(1) by (simp add: viewer_of_def)
  ultimately obtain v where v: "viewer_of ?ch (fold hub_step (replicate (length fs) (Hub_receive ?ch)) ?h') = Some v"
      "rw_body (vw_resp v) = rw_body w @
         List.concat (List.map (\<lambda>(c, body). sse_event (published now (TrimRight_newlines body) c)) fs)"
    using viewer_drains [of ?ch ?h'] by (fastforce simp: o_def case_prod_unfold)
  have "tail_turns (length fs) (\<lambda>_ h. h) (\<lambda>_. now) ?t (Some (List.concat (List.map frame fs) @ rest)) h = (Some rest, ?h')"
    using tail_turns_frames [OF assms(1), of ?t h] parts(4) by (simp add: live_tails_def)
  then show ?thesis using v parts(4) by (intro exI [of _ ?t] exI [of _ ?ch] exI [of _ v]) simp
qed

theorem live_log_reaches_viewer_witness:
  "\<exists>t ch v. t \<in> set (live_tails ''app'' (viewer_open ''app'' ''web'' new_response new_hub)) \<and> lt_container t = ''web'' \<and>
    (case tail_turns 1 (\<lambda>_ h. h) (\<lambda>_. 0) t (Some (frame (chr 2, ''bad'') @ ''x'')) (viewer_open ''app'' ''web'' new_response new_hub) of
       (left, h') \<Rightarrow> left = Some ''x'' \<and> viewer_of ch (hub_step (Hub_receive ch) h') = Some v \<and>
         rw_body (vw_resp v) = sse_event (published 0 ''bad'' (chr 2)))"
proof -
  have "rw_body new_response = []" "TrimRight_newlines ''bad'' = ''bad''"
    by (simp_all add: new_response_def TrimRight_newlines_def)
  then show ?thesis
    using live_log_reaches_viewer [where fs = "[(chr 2, ''bad'')]" and sub = "''app''" and container = "''web''" and
        w = new_response and ops = "[]" and now = 0 and rest = "''x''", OF _ _ refl]
    by simp
qed

end
