(* ===== verification/Registry.thy ===== *)
theory Registry
  imports Config Sessions Ratelimit Cidr Metrics Webhooks Recorder Logger Logs
begin

text \<open>
  \<open>registry.go\<close>: the state of docknap (struct \<open>Docknap\<close>) and the operations on it that the
  other components use. The record also holds what Go's runtime keeps for the program: the
  pending timers of \<open>time.AfterFunc\<close>, the goroutines that wait for a container, the
  buffered ready channels, the log entries, and the response being written.

  The Docker daemon, the network, the clock and the random source are a world \<open>'w\<close> with one
  function per call (record \<open>env\<close>), which is an argument of every operation that calls out.
  A handler, timer or watcher is a program in the state monad that runs from its start to its
  end; interleavings at the start locks are the subject of the theory \<open>Startlock\<close>.
\<close>

subsection \<open>The world\<close>

record container_summary =
  cs_Names :: "string list"
  cs_Labels :: labels
  cs_State :: string

record inspect_info =
  in_Running :: bool
  in_Paused :: bool
  in_Status :: string
  in_StartedAt :: string
  in_Networks :: "string \<rightharpoonup> string"

text \<open>What \<open>ReverseProxy.ServeHTTP\<close> did: its calls on the response writer, and how it ended.\<close>

datatype proxy_end = ProxyDone | ProxyFailed err | ProxyAborted

record 'w env =
  env_version :: string
  env_go_version :: string
  env_now :: "'w \<Rightarrow> time \<times> 'w"
  env_list :: "string \<Rightarrow> 'w \<Rightarrow> (err + container_summary list) \<times> 'w"
  env_inspect :: "string \<Rightarrow> 'w \<Rightarrow> (err + inspect_info) \<times> 'w"
  env_start :: "string \<Rightarrow> 'w \<Rightarrow> err option \<times> 'w"
  env_unpause :: "string \<Rightarrow> 'w \<Rightarrow> err option \<times> 'w"
  env_stop :: "string \<Rightarrow> int \<Rightarrow> 'w \<Rightarrow> err option \<times> 'w"
  env_pause :: "string \<Rightarrow> 'w \<Rightarrow> err option \<times> 'w"
  env_dial :: "string \<Rightarrow> 'w \<Rightarrow> err option \<times> 'w"
  env_get :: "string \<Rightarrow> string \<Rightarrow> 'w \<Rightarrow> (err + int) \<times> 'w"
  env_rand :: "nat \<Rightarrow> 'w \<Rightarrow> (err + string) \<times> 'w"
  env_proxy :: "string \<Rightarrow> request \<Rightarrow> 'w \<Rightarrow> (wcall list \<times> proxy_end) \<times> 'w"

subsection \<open>The state\<close>

record event =
  ev_Time :: time
  ev_Type :: string
  ev_Message :: string
  ev_Fields :: fields

definition maxEventsPerService :: nat where
  "maxEventsPerService = 100"

record handles =
  mh_Proxy :: nat
  mh_Starts :: nat
  mh_Stops :: nat
  mh_IdleStop :: nat
  mh_StartFail :: nat
  mh_AuthFail :: nat
  mh_StartDur :: nat
  mh_ProxyDur :: nat
  mh_Registered :: nat
  mh_State :: nat

record serviceState =
  ss_State :: string
  ss_LastSeen :: time
  ss_StartedAt :: time
  ss_IP :: string
  ss_ReadyChans :: "nat list"

text \<open>A pending timer of \<open>AfterFunc\<close>: when it fires, for which configuration, and the fields of
  the event it records, by which the two closures of \<open>timers.go\<close> differ.\<close>

record pending_timer =
  pt_fires :: time
  pt_cfg :: config
  pt_fields :: fields

record 'w docknap =
  configs :: "(string, config) gomap"
  idleTimers :: "(string, nat) gomap"
  bootStarts :: "string \<rightharpoonup> time"
  startedAt :: "string \<rightharpoonup> time"
  events :: "string \<rightharpoonup> event list"
  startLocks :: "string \<rightharpoonup> nat"
  listenAddr :: string
  writeTimeout :: duration
  idleDefault :: duration
  startTimeoutDefault :: duration
  reg :: registry
  mm :: handles
  adminUser :: string
  adminUserHash :: string
  adminPassHash :: string
  adminHost :: string
  networkName :: string
  tldCount :: int
  trustedProxies :: "cidr list"
  rootDone :: bool
  sessions :: sessionStore
  rateLimiter :: "loginRateLimiter option"
  the_notifier :: notifier
  eventsOK :: bool
  states :: "(string, serviceState) gomap"
  ipCache :: "string \<rightharpoonup> string"
  ipCacheAt :: "string \<rightharpoonup> time"
  timers :: "(nat, pending_timer) gomap"
  next_id :: nat
  chans :: "nat \<rightharpoonup> nat"
  waiters :: "(config \<times> time) list"
  logs :: "log_entry list"
  the_hub :: log_hub
  world :: 'w
  resp :: response
  recorder :: statusRecorder

type_synonym ('w, 'a) prog = "('w docknap, 'a) state"

text \<open>A call into the world, and the operations of the components that live in the state.\<close>

definition ask :: "('w \<Rightarrow> 'a \<times> 'w) \<Rightarrow> ('w, 'a) prog" where
  "ask f = State (\<lambda>s. case f (world s) of (x, w) \<Rightarrow> (x, s\<lparr>world := w\<rparr>))"

definition time_Now :: "'w env \<Rightarrow> ('w, time) prog" where
  "time_Now e = ask (env_now e)"

definition log_at :: "LogLevel \<Rightarrow> string \<Rightarrow> (string \<times> jval) list \<Rightarrow> ('w, unit) prog" where
  "log_at l msg fs = modify (\<lambda>s. s\<lparr>logs := logs s @ [(l, msg, fs)]\<rparr>)"

definition count_at :: "(handles \<Rightarrow> nat) \<Rightarrow> label_map \<Rightarrow> ('w, unit) prog" where
  "count_at h labels = modify (\<lambda>s. s\<lparr>reg := Counter_Add (h (mm s)) labels 1 (reg s)\<rparr>)"

definition observe_at :: "(handles \<Rightarrow> nat) \<Rightarrow> label_map \<Rightarrow> f64 \<Rightarrow> ('w, unit) prog" where
  "observe_at h labels v = modify (\<lambda>s. s\<lparr>reg := Histogram_Observe (h (mm s)) labels v (reg s)\<rparr>)"

definition set_gauge :: "(handles \<Rightarrow> nat) \<Rightarrow> label_map \<Rightarrow> f64 \<Rightarrow> ('w, unit) prog" where
  "set_gauge h labels v = modify (\<lambda>s. s\<lparr>reg := Gauge_Set (h (mm s)) labels v (reg s)\<rparr>)"

definition notify_at ::
  "'w env \<Rightarrow> string \<Rightarrow> string \<Rightarrow> string \<Rightarrow> string \<Rightarrow> fields \<Rightarrow> ('w, unit) prog" where
  "notify_at e t sub c m f = do {
     n \<leftarrow> gets the_notifier;
     if \<not> n_wants n t then ret ()
     else do {
       now \<leftarrow> time_Now e;
       modify (\<lambda>s. s\<lparr>the_notifier := notifier_notify now t sub c m f (the_notifier s)\<rparr>);
       when_do (queue_capacity \<le> length (n_pending n))
         (log_at LevelDebug ''webhook queue full, dropping event'' [(''event'', JStr t), (''subdomain'', JStr sub)])
     }
   }"

definition fresh_id :: "('w, nat) prog" where
  "fresh_id = State (\<lambda>s. (next_id s, s\<lparr>next_id := Suc (next_id s)\<rparr>))"

subsection \<open>Construction\<close>

definition start_buckets :: "f64 list" where
  "start_buckets = List.map f64_round [1/2, 1, 2, 5, 10, 15, 30, 60, 120, 300]"

definition proxy_buckets :: "f64 list" where
  "proxy_buckets = List.map f64_round [5/1000, 1/100, 25/1000, 5/100, 1/10, 25/100, 1/2, 1, 25/10, 5, 10]"

definition newMetrics :: "registry \<Rightarrow> handles \<times> registry" where
  "newMetrics r0 =
     (let (c0, r1) = Registry_Counter ''docknap_proxy_requests_total'' ''Proxied requests by subdomain and HTTP status'' [''subdomain'', ''status''] r0;
          (c1, r2) = Registry_Counter ''docknap_container_starts_total'' ''Container starts triggered by docknap'' [''subdomain''] r1;
          (c2, r3) = Registry_Counter ''docknap_container_stops_total'' ''Container stops triggered by docknap'' [''subdomain'', ''reason''] r2;
          (c3, r4) = Registry_Counter ''docknap_idle_timeouts_total'' ''Idle timeouts that stopped a container'' [''subdomain''] r3;
          (c4, r5) = Registry_Counter ''docknap_startup_failures_total'' ''Startup failures (timeout or error)'' [''subdomain'', ''reason''] r4;
          (c5, r6) = Registry_Counter ''docknap_admin_auth_failures_total'' ''Admin auth failures'' [''path'', ''reason''] r5;
          (h0, r7) = Registry_Histogram ''docknap_start_duration_seconds'' ''Time from wake to ready port'' [''subdomain''] start_buckets r6;
          (h1, r8) = Registry_Histogram ''docknap_proxy_duration_seconds'' ''Duration of proxied requests'' [''subdomain''] proxy_buckets r7;
          (g0, r9) = Registry_Gauge ''docknap_registered_containers'' ''Number of registered containers'' [] r8;
          (g1, r10) = Registry_Gauge ''docknap_container_state'' ''Current container state (1 for active state)'' [''subdomain'', ''state''] r9
      in (\<lparr>mh_Proxy = c0, mh_Starts = c1, mh_Stops = c2, mh_IdleStop = c3, mh_StartFail = c4,
           mh_AuthFail = c5, mh_StartDur = h0, mh_ProxyDur = h1, mh_Registered = g0, mh_State = g1\<rparr>, r10))"

definition newDocknap :: "registry \<Rightarrow> 'w \<Rightarrow> 'w docknap" where
  "newDocknap r w =
     (case newMetrics r of (m, r') \<Rightarrow>
       \<lparr>configs = [], idleTimers = [], bootStarts = Map.empty, startedAt = Map.empty,
        events = Map.empty, startLocks = Map.empty, listenAddr = [], writeTimeout = 0,
        idleDefault = 0, startTimeoutDefault = 0, reg = r', mm = m,
        adminUser = [], adminUserHash = [], adminPassHash = [], adminHost = [],
        networkName = [], tldCount = 0, trustedProxies = [], rootDone = False,
        sessions = newSessionStore (12 * Hour), rateLimiter = Some (newLoginRateLimiter 5 Minute),
        the_notifier = noopNotifier, eventsOK = False, states = [],
        ipCache = Map.empty, ipCacheAt = Map.empty,
        timers = [], next_id = 0, chans = Map.empty, waiters = [], logs = [], the_hub = new_hub, world = w,
        resp = new_response, recorder = new_recorder\<rparr>)"

subsection \<open>Operations\<close>

definition eventsHealthy :: "'w docknap \<Rightarrow> bool" where
  "eventsHealthy s = eventsOK s"

text \<open>The ring buffer of a service: append, then keep the last 100.\<close>

definition push_event :: "event \<Rightarrow> event list \<Rightarrow> event list" where
  "push_event ev hist0 =
     (let hist = hist0 @ [ev]
      in if maxEventsPerService < length hist then last_n maxEventsPerService hist else hist)"

definition store_event :: "event \<Rightarrow> string \<Rightarrow> 'w docknap \<Rightarrow> 'w docknap" where
  "store_event ev sub s = s\<lparr>events := (events s)(sub \<mapsto> push_event ev (lookup_or [] (events s) sub))\<rparr>"

definition recordEvent :: "'w env \<Rightarrow> string \<Rightarrow> string \<Rightarrow> string \<Rightarrow> fields \<Rightarrow> ('w, unit) prog" where
  "recordEvent e sub eventType message flds = do {
     now \<leftarrow> time_Now e;
     modify (store_event \<lparr>ev_Time = now, ev_Type = eventType, ev_Message = message, ev_Fields = flds\<rparr> sub)
   }"

definition markBootStart :: "'w env \<Rightarrow> string \<Rightarrow> ('w, time) prog" where
  "markBootStart e sub = do {
     b \<leftarrow> gets (\<lambda>s. bootStarts s sub);
     case b of
       Some t \<Rightarrow> ret t
     | None \<Rightarrow> do {
         now \<leftarrow> time_Now e;
         modify (\<lambda>s. s\<lparr>bootStarts := (bootStarts s)(sub \<mapsto> now)\<rparr>);
         ret now
       }
   }"

definition clearBootStart :: "string \<Rightarrow> ('w, unit) prog" where
  "clearBootStart sub = modify (\<lambda>s. s\<lparr>bootStarts := (bootStarts s)(sub := None)\<rparr>)"

definition snapshotServices :: "'w docknap \<Rightarrow> (string, config) gomap \<times> (string \<rightharpoonup> time)" where
  "snapshotServices s = (configs s, startedAt s)"

definition zero_service :: serviceState where
  "zero_service = \<lparr>ss_State = [], ss_LastSeen = 0, ss_StartedAt = 0, ss_IP = [], ss_ReadyChans = []\<rparr>"

definition serviceStateCopy :: "string \<Rightarrow> 'w docknap \<Rightarrow> serviceState" where
  "serviceStateCopy sub s =
     (case map_of (states s) sub of
        Some st \<Rightarrow> st\<lparr>ss_ReadyChans := []\<rparr>
      | None \<Rightarrow> zero_service\<lparr>ss_State := ''unknown''\<rparr>)"

definition put_state :: "string \<Rightarrow> serviceState \<Rightarrow> 'w docknap \<Rightarrow> 'w docknap" where
  "put_state sub st s = s\<lparr>states := AList.update sub st (states s)\<rparr>"

definition updateState :: "'w env \<Rightarrow> string \<Rightarrow> string \<Rightarrow> ('w, unit) prog" where
  "updateState e sub state = do {
     st \<leftarrow> gets (\<lambda>s. case map_of (states s) sub of
        None \<Rightarrow> zero_service\<lparr>ss_State := state\<rparr>
      | Some st \<Rightarrow> st\<lparr>ss_State := state\<rparr>);
     now \<leftarrow> time_Now e;
     modify (put_state sub (st\<lparr>ss_LastSeen := now\<rparr>))
   }"

definition setStateIP :: "'w env \<Rightarrow> string \<Rightarrow> string \<Rightarrow> ('w, unit) prog" where
  "setStateIP e sub ip =
     (if ip = []
      then modify (\<lambda>s. s\<lparr>ipCache := (ipCache s)(sub := None), ipCacheAt := (ipCacheAt s)(sub := None)\<rparr>)
      else do {
        modify (\<lambda>s. s\<lparr>ipCache := (ipCache s)(sub \<mapsto> ip)\<rparr>);
        now \<leftarrow> time_Now e;
        modify (\<lambda>s. s\<lparr>ipCacheAt := (ipCacheAt s)(sub \<mapsto> now)\<rparr>)
      })"

definition cachedIP :: "'w env \<Rightarrow> string \<Rightarrow> ('w, string \<times> bool) prog" where
  "cachedIP e sub = do {
     c \<leftarrow> gets (\<lambda>s. ipCache s sub);
     case c of
       None \<Rightarrow> ret ([], False)
     | Some ip \<Rightarrow> do {
         now \<leftarrow> time_Now e;
         stored \<leftarrow> gets (\<lambda>s. lookup_or 0 (ipCacheAt s) sub);
         if 30 * Second < time_Sub now stored then ret ([], False) else ret (ip, True)
       }
   }"

definition subscribeReady :: "string \<Rightarrow> ('w, nat) prog" where
  "subscribeReady sub = do {
     ch \<leftarrow> fresh_id;
     modify (\<lambda>s. s\<lparr>chans := (chans s)(ch \<mapsto> 0)\<rparr>);
     modify (\<lambda>s. put_state sub
       (case map_of (states s) sub of
          Some st \<Rightarrow> st\<lparr>ss_ReadyChans := ss_ReadyChans st @ [ch]\<rparr>
        | None \<Rightarrow> zero_service\<lparr>ss_ReadyChans := [ch]\<rparr>) s);
     ret ch
   }"

text \<open>A send to a channel of capacity 1 that does not block.\<close>

definition try_send :: "nat \<Rightarrow> 'w docknap \<Rightarrow> 'w docknap" where
  "try_send ch s = (if chans s ch = Some 0 then s\<lparr>chans := (chans s)(ch \<mapsto> 1)\<rparr> else s)"

definition broadcastReady :: "string \<Rightarrow> ('w, unit) prog" where
  "broadcastReady sub = do {
     st \<leftarrow> gets (\<lambda>s. map_of (states s) sub);
     case st of
       None \<Rightarrow> ret ()
     | Some st \<Rightarrow> do {
         modify (put_state sub (st\<lparr>ss_ReadyChans := []\<rparr>));
         for_each (ss_ReadyChans st) (\<lambda>ch. modify (try_send ch))
       }
   }"

subsection \<open>Histories\<close>

locale event_log =
  fixes push :: "string \<Rightarrow> 'e \<Rightarrow> 's \<Rightarrow> 's"
    and hist :: "'s \<Rightarrow> string \<Rightarrow> 'e list"
    and cap :: nat
  assumes hist_record: "length (hist s sub) \<le> cap \<Longrightarrow>
      hist (push sub' ev s) sub = (if sub' = sub then last_n cap (hist s sub @ [ev]) else hist s sub)"
begin

lemma hist_run:
  "length (hist s sub) \<le> cap \<Longrightarrow>
    hist (fold (\<lambda>(k, ev). push k ev) evs s) sub =
      last_n cap (hist s sub @ List.map snd (filter (\<lambda>(k, ev). k = sub) evs))"
proof (induction evs arbitrary: s)
  case Nil
  then show ?case by (simp add: last_n_all)
next
  case (Cons p evs)
  obtain k ev where p: "p = (k, ev)" by force
  have "length (hist (push k ev s) sub) \<le> cap"
    using Cons.prems by (simp add: hist_record)
  from Cons.IH [OF this] show ?case
    using Cons.prems by (simp add: p hist_record last_n_append_last_n)
qed

end

definition service_events :: "'w docknap \<Rightarrow> string \<Rightarrow> event list" where
  "service_events s sub = lookup_or [] (events s) sub"

lemma push_event_eq: "push_event ev hist = last_n maxEventsPerService (hist @ [ev])"
  by (simp add: push_event_def Let_def last_n_all)

interpretation history: event_log "\<lambda>sub ev. store_event ev sub" service_events maxEventsPerService
  by unfold_locales (simp add: service_events_def store_event_def push_event_eq lookup_or_upd)

text \<open>The history of a service is its last 100 events. Starting from an empty history, after
  any events of any services have been recorded, the history of a service is the list of its
  own events in order, cut to the last 100.\<close>

theorem history_keeps_last_100:
  assumes "events s = Map.empty"
  shows "service_events (fold (\<lambda>(k, ev). store_event ev k) evs s) sub =
    last_n 100 (List.map snd (filter (\<lambda>(k, ev). k = sub) evs))"
  using history.hist_run [of s sub evs] assms
  by (simp add: service_events_def maxEventsPerService_def)

theorem history_keeps_last_100_witness:
  "service_events (fold (\<lambda>(k, ev). store_event ev k)
      [(''a'', \<lparr>ev_Time = 1, ev_Type = ''ready'', ev_Message = [], ev_Fields = []\<rparr>),
       (''b'', \<lparr>ev_Time = 2, ev_Type = ''ready'', ev_Message = [], ev_Fields = []\<rparr>)]
      (newDocknap NewRegistry ())) ''a'' =
    last_n 100 [\<lparr>ev_Time = 1, ev_Type = ''ready'', ev_Message = [], ev_Fields = []\<rparr>]"
  using history_keeps_last_100 [of "newDocknap NewRegistry ()"
      "[(''a'', \<lparr>ev_Time = 1, ev_Type = ''ready'', ev_Message = [], ev_Fields = []\<rparr>),
       (''b'', \<lparr>ev_Time = 2, ev_Type = ''ready'', ev_Message = [], ev_Fields = []\<rparr>)]" "''a''"]
  by (simp add: newDocknap_def split: prod.splits)

subsection \<open>Programs that leave configurations and timers alone\<close>

text \<open>
  An invariant about the configurations and the idle timers does not depend on the rest of the
  state. \<open>frame_invariant\<close> says so for a predicate; its lemmas, here and in the theories of the
  other components, then show once that a program which does not touch them keeps every
  such predicate.
\<close>

locale frame_invariant =
  fixes P :: "'w docknap \<Rightarrow> bool"
  assumes frame_world: "P s \<Longrightarrow> P (s\<lparr>world := v1\<rparr>)"
    and frame_logs: "P s \<Longrightarrow> P (s\<lparr>logs := v2\<rparr>)"
    and frame_reg: "P s \<Longrightarrow> P (s\<lparr>reg := v3\<rparr>)"
    and frame_notifier: "P s \<Longrightarrow> P (s\<lparr>the_notifier := v4\<rparr>)"
    and frame_events: "P s \<Longrightarrow> P (s\<lparr>events := v5\<rparr>)"
    and frame_bootStarts: "P s \<Longrightarrow> P (s\<lparr>bootStarts := v6\<rparr>)"
    and frame_startedAt: "P s \<Longrightarrow> P (s\<lparr>startedAt := v7\<rparr>)"
    and frame_startLocks: "P s \<Longrightarrow> P (s\<lparr>startLocks := v8\<rparr>)"
    and frame_states: "P s \<Longrightarrow> P (s\<lparr>states := v9\<rparr>)"
    and frame_ipCache: "P s \<Longrightarrow> P (s\<lparr>ipCache := v10\<rparr>)"
    and frame_ipCacheAt: "P s \<Longrightarrow> P (s\<lparr>ipCacheAt := v11\<rparr>)"
    and frame_chans: "P s \<Longrightarrow> P (s\<lparr>chans := v12\<rparr>)"
    and frame_waiters: "P s \<Longrightarrow> P (s\<lparr>waiters := v13\<rparr>)"
    and frame_resp: "P s \<Longrightarrow> P (s\<lparr>resp := v14\<rparr>)"
    and frame_recorder: "P s \<Longrightarrow> P (s\<lparr>recorder := v15\<rparr>)"
    and frame_sessions: "P s \<Longrightarrow> P (s\<lparr>sessions := v16\<rparr>)"
    and frame_rateLimiter: "P s \<Longrightarrow> P (s\<lparr>rateLimiter := v17\<rparr>)"
    and frame_next_id: "P s \<Longrightarrow> P (s\<lparr>next_id := Suc (next_id s)\<rparr>)"
begin

lemmas frame_facts =
  frame_world frame_logs frame_reg frame_notifier frame_events frame_bootStarts frame_startedAt
  frame_startLocks frame_states frame_ipCache frame_ipCacheAt frame_chans frame_waiters
  frame_resp frame_recorder frame_sessions frame_rateLimiter frame_next_id

lemma keeps_ask [preserve_rules]: "preserves P (ask f)"
  by (rule preservesI) (auto simp: ask_def exec_def frame_world split: prod.splits)

lemma keeps_time_Now [preserve_rules]: "preserves P (time_Now e)"
  unfolding time_Now_def by (rule keeps_ask)

lemma keeps_log_at [preserve_rules]: "preserves P (log_at l m fs)"
  unfolding log_at_def by (intro preserves_modify frame_facts)

lemma keeps_count_at [preserve_rules]: "preserves P (count_at h l)"
  unfolding count_at_def by (intro preserves_modify frame_facts)

lemma keeps_observe_at [preserve_rules]: "preserves P (observe_at h l v)"
  unfolding observe_at_def by (intro preserves_modify frame_facts)

lemma keeps_set_gauge [preserve_rules]: "preserves P (set_gauge h l v)"
  unfolding set_gauge_def by (intro preserves_modify frame_facts)

lemma keeps_notify_at [preserve_rules]: "preserves P (notify_at e t sub c m f)"
  unfolding notify_at_def by (intro preserve_rules preserves_modify frame_facts)

lemma keeps_fresh_id [preserve_rules]: "preserves P fresh_id"
  by (rule preservesI) (simp add: fresh_id_def exec_def frame_next_id)

lemma keeps_recordEvent [preserve_rules]: "preserves P (recordEvent e sub t m f)"
  unfolding recordEvent_def store_event_def by (intro preserve_rules preserves_modify frame_facts)

lemma keeps_markBootStart [preserve_rules]: "preserves P (markBootStart e sub)"
  unfolding markBootStart_def by (intro preserve_rules preserves_modify frame_facts)

lemma keeps_clearBootStart [preserve_rules]: "preserves P (clearBootStart sub)"
  unfolding clearBootStart_def by (intro preserves_modify frame_facts)

lemma keeps_updateState [preserve_rules]: "preserves P (updateState e sub st)"
  unfolding updateState_def put_state_def by (intro preserve_rules preserves_modify frame_facts)

lemma keeps_setStateIP [preserve_rules]: "preserves P (setStateIP e sub ip)"
  unfolding setStateIP_def by (intro preserve_rules preserves_modify frame_facts)

lemma keeps_cachedIP [preserve_rules]: "preserves P (cachedIP e sub)"
  unfolding cachedIP_def by (intro preserve_rules)

lemma keeps_subscribeReady [preserve_rules]: "preserves P (subscribeReady sub)"
  unfolding subscribeReady_def put_state_def by (intro preserve_rules preserves_modify frame_facts)

lemma P_try_send: "P s \<Longrightarrow> P (try_send ch s)"
  by (simp add: try_send_def frame_chans)

lemma keeps_broadcastReady [preserve_rules]: "preserves P (broadcastReady sub)"
  unfolding broadcastReady_def put_state_def
  by (intro preserve_rules preserves_modify frame_facts P_try_send)

end

subsection \<open>What the operations do to the state\<close>

lemma run_ask [simp]:
  "exec (ask f) s = s\<lparr>world := snd (f (world s))\<rparr>" "result (ask f) s = fst (f (world s))"
  by (simp_all add: exec_def result_def ask_def split: prod.splits)

lemma run_time_Now [simp]:
  "exec (time_Now e) s = s\<lparr>world := snd (env_now e (world s))\<rparr>"
  "result (time_Now e) s = fst (env_now e (world s))"
  by (simp_all add: time_Now_def)

lemma exec_log_at [simp]: "exec (log_at l m fs) s = s\<lparr>logs := logs s @ [(l, m, fs)]\<rparr>"
  and exec_count_at [simp]: "exec (count_at h ls) s = s\<lparr>reg := Counter_Add (h (mm s)) ls 1 (reg s)\<rparr>"
  and exec_observe_at [simp]: "exec (observe_at h ls v) s = s\<lparr>reg := Histogram_Observe (h (mm s)) ls v (reg s)\<rparr>"
  and exec_set_gauge [simp]: "exec (set_gauge h ls v) s = s\<lparr>reg := Gauge_Set (h (mm s)) ls v (reg s)\<rparr>"
  by (simp_all add: log_at_def count_at_def observe_at_def set_gauge_def)

lemma run_fresh_id [simp]:
  "exec fresh_id s = s\<lparr>next_id := Suc (next_id s)\<rparr>" "result fresh_id s = next_id s"
  by (simp_all add: exec_def result_def fresh_id_def)

definition stamped :: "'w env \<Rightarrow> string \<Rightarrow> string \<Rightarrow> fields \<Rightarrow> 'w docknap \<Rightarrow> event" where
  "stamped e t m f s =
     \<lparr>ev_Time = fst (env_now e (world s)), ev_Type = t, ev_Message = m, ev_Fields = f\<rparr>"

lemma exec_recordEvent [simp]:
  "exec (recordEvent e sub t m f) s = store_event (stamped e t m f s) sub (s\<lparr>world := snd (env_now e (world s))\<rparr>)"
  by (simp add: recordEvent_def stamped_def)

lemma stamped_sel [simp]:
  "ev_Type (stamped e t m f s) = t" "ev_Message (stamped e t m f s) = m" "ev_Fields (stamped e t m f s) = f"
  by (simp_all add: stamped_def)

lemma store_event_sel [simp]:
  "configs (store_event ev k s) = configs s"
  "idleTimers (store_event ev k s) = idleTimers s"
  "timers (store_event ev k s) = timers s"
  "next_id (store_event ev k s) = next_id s"
  "bootStarts (store_event ev k s) = bootStarts s"
  "startedAt (store_event ev k s) = startedAt s"
  "ipCache (store_event ev k s) = ipCache s"
  "ipCacheAt (store_event ev k s) = ipCacheAt s"
  "states (store_event ev k s) = states s"
  "startLocks (store_event ev k s) = startLocks s"
  "waiters (store_event ev k s) = waiters s"
  "chans (store_event ev k s) = chans s"
  "reg (store_event ev k s) = reg s" "mm (store_event ev k s) = mm s"
  "resp (store_event ev k s) = resp s" "recorder (store_event ev k s) = recorder s"
  "world (store_event ev k s) = world s" "the_notifier (store_event ev k s) = the_notifier s"
  "sessions (store_event ev k s) = sessions s" "rateLimiter (store_event ev k s) = rateLimiter s"
  "networkName (store_event ev k s) = networkName s" "logs (store_event ev k s) = logs s"
  "rootDone (store_event ev k s) = rootDone s"
  by (simp_all add: store_event_def)

lemma last_push_event [simp]: "push_event ev h \<noteq> []" "last (push_event ev h) = ev"
  by (simp_all add: push_event_eq last_n_def maxEventsPerService_def)

lemma service_events_upd [simp]:
  "service_events (s\<lparr>world := v1\<rparr>) = service_events s"
  "service_events (s\<lparr>logs := v2\<rparr>) = service_events s"
  "service_events (s\<lparr>reg := v3\<rparr>) = service_events s"
  "service_events (s\<lparr>the_notifier := v4\<rparr>) = service_events s"
  "service_events (s\<lparr>bootStarts := v5\<rparr>) = service_events s"
  "service_events (s\<lparr>startedAt := v6\<rparr>) = service_events s"
  "service_events (s\<lparr>ipCache := v7\<rparr>) = service_events s"
  "service_events (s\<lparr>ipCacheAt := v8\<rparr>) = service_events s"
  "service_events (s\<lparr>resp := v9\<rparr>) = service_events s"
  "service_events (s\<lparr>states := v10\<rparr>) = service_events s"
  "service_events (s\<lparr>waiters := v11\<rparr>) = service_events s"
  "service_events (s\<lparr>chans := v12\<rparr>) = service_events s"
  "service_events (s\<lparr>timers := v13\<rparr>) = service_events s"
  "service_events (s\<lparr>idleTimers := v14\<rparr>) = service_events s"
  by (simp_all add: service_events_def fun_eq_iff)

lemma service_events_store [simp]:
  "service_events (store_event ev k s) sub = (if sub = k then push_event ev (service_events s k) else service_events s sub)"
  by (simp add: service_events_def store_event_def lookup_or_upd)

text \<open>A notification changes the notifier, the clock and perhaps the log, and nothing else.\<close>

lemma exec_notify_at:
  "\<exists>n w l. exec (notify_at e t sub c m f) s = s\<lparr>the_notifier := n, world := w, logs := l\<rparr>"
proof -
  have "s = s\<lparr>the_notifier := the_notifier s, world := world s, logs := logs s\<rparr>" by simp
  moreover have "exec (notify_at e t sub c m f) s \<in>
      {s, s\<lparr>the_notifier := the_notifier (exec (notify_at e t sub c m f) s),
            world := world (exec (notify_at e t sub c m f) s),
            logs := logs (exec (notify_at e t sub c m f) s)\<rparr>}"
    by (simp add: notify_at_def)
  ultimately show ?thesis by (metis insertE singletonD)
qed

lemma notify_at_sel [simp]:
  "configs (exec (notify_at e t sub c m f) s) = configs s"
  "idleTimers (exec (notify_at e t sub c m f) s) = idleTimers s"
  "timers (exec (notify_at e t sub c m f) s) = timers s"
  "next_id (exec (notify_at e t sub c m f) s) = next_id s"
  "bootStarts (exec (notify_at e t sub c m f) s) = bootStarts s"
  "startedAt (exec (notify_at e t sub c m f) s) = startedAt s"
  "ipCache (exec (notify_at e t sub c m f) s) = ipCache s"
  "ipCacheAt (exec (notify_at e t sub c m f) s) = ipCacheAt s"
  "states (exec (notify_at e t sub c m f) s) = states s"
  "startLocks (exec (notify_at e t sub c m f) s) = startLocks s"
  "waiters (exec (notify_at e t sub c m f) s) = waiters s"
  "chans (exec (notify_at e t sub c m f) s) = chans s"
  "events (exec (notify_at e t sub c m f) s) = events s"
  "service_events (exec (notify_at e t sub c m f) s) = service_events s"
  "reg (exec (notify_at e t sub c m f) s) = reg s" "mm (exec (notify_at e t sub c m f) s) = mm s"
  "resp (exec (notify_at e t sub c m f) s) = resp s"
  "recorder (exec (notify_at e t sub c m f) s) = recorder s"
  "sessions (exec (notify_at e t sub c m f) s) = sessions s"
  "rateLimiter (exec (notify_at e t sub c m f) s) = rateLimiter s"
  "networkName (exec (notify_at e t sub c m f) s) = networkName s"
  "rootDone (exec (notify_at e t sub c m f) s) = rootDone s"
  using exec_notify_at [of e t sub c m f s] by (auto simp: fun_eq_iff service_events_def)

end
