(* ===== verification/Timers.thy ===== *)
theory Timers
  imports Registry
begin

text \<open>
  \<open>timers.go\<close>: the idle timers, one per container, and stopping a container. A timer is an
  entry of the runtime's list \<open>timers\<close> while it is pending; \<open>idleTimers\<close> maps a container to the
  handle of its timer. The runtime fires a pending timer with \<open>fire_timer\<close>.
\<close>

definition after_func :: "'w env \<Rightarrow> config \<Rightarrow> fields \<Rightarrow> ('w, nat) prog" where
  "after_func e cfg flds = do {
     now \<leftarrow> time_Now e;
     tid \<leftarrow> fresh_id;
     modify (\<lambda>s. s\<lparr>timers := AList.update tid
       \<lparr>pt_fires = time_Add now (IdleTimeout cfg), pt_cfg = cfg, pt_fields = flds\<rparr> (timers s)\<rparr>);
     ret tid
   }"

definition timer_Stop :: "nat \<Rightarrow> ('w, unit) prog" where
  "timer_Stop tid = modify (\<lambda>s. s\<lparr>timers := AList.delete tid (timers s)\<rparr>)"

definition idle_fields :: "config \<Rightarrow> fields" where
  "idle_fields cfg = [(''idle'', JStr (duration_String (IdleTimeout cfg)))]"

definition set_idle_timer :: "'w env \<Rightarrow> config \<Rightarrow> fields \<Rightarrow> ('w, unit) prog" where
  "set_idle_timer e cfg flds = do {
     tid \<leftarrow> after_func e cfg flds;
     modify (\<lambda>s. s\<lparr>idleTimers := AList.update (Container cfg) tid (idleTimers s)\<rparr>)
   }"

definition armIdleTimer :: "'w env \<Rightarrow> config \<Rightarrow> ('w, unit) prog" where
  "armIdleTimer e cfg =
     (if DisableIdle cfg then ret ()
      else do {
        t \<leftarrow> gets (\<lambda>s. map_of (idleTimers s) (Container cfg));
        case t of
          Some _ \<Rightarrow> ret ()
        | None \<Rightarrow> set_idle_timer e cfg (idle_fields cfg @ [(''source'', JStr ''discover/watch'')])
      })"

definition resetIdleTimer :: "'w env \<Rightarrow> config \<Rightarrow> ('w, unit) prog" where
  "resetIdleTimer e cfg =
     (if DisableIdle cfg then ret ()
      else do {
        t \<leftarrow> gets (\<lambda>s. map_of (idleTimers s) (Container cfg));
        (case t of Some tid \<Rightarrow> timer_Stop tid | None \<Rightarrow> ret ());
        set_idle_timer e cfg (idle_fields cfg)
      })"

definition clearServiceRuntimeState :: "string \<Rightarrow> ('w, unit) prog" where
  "clearServiceRuntimeState sub =
     modify (\<lambda>s. s\<lparr>startedAt := (startedAt s)(sub := None), ipCache := (ipCache s)(sub := None),
                   ipCacheAt := (ipCacheAt s)(sub := None)\<rparr>)"

definition sub_label :: "string \<Rightarrow> label_map" where
  "sub_label sub = [''subdomain'' \<mapsto> sub]"

definition stop_failed :: "'w env \<Rightarrow> config \<Rightarrow> string \<Rightarrow> string \<Rightarrow> err \<Rightarrow> ('w, unit) prog" where
  "stop_failed e cfg what reason er = do {
     log_at LevelWarn what
       [(''subdomain'', JStr (Subdomain cfg)), (''container'', JStr (Container cfg)), (''err'', JStr er)];
     recordEvent e (Subdomain cfg) ''stop_error'' er [(''reason'', JStr reason)];
     notify_at e ''stop_error'' (Subdomain cfg) (Container cfg) er [(''reason'', JStr reason)]
   }"

definition stop_done :: "'w env \<Rightarrow> config \<Rightarrow> string \<Rightarrow> string \<Rightarrow> string \<Rightarrow> ('w, unit) prog" where
  "stop_done e cfg ty msg reason = do {
     recordEvent e (Subdomain cfg) ty msg [(''reason'', JStr reason)];
     notify_at e ty (Subdomain cfg) (Container cfg) msg [(''reason'', JStr reason)];
     count_at mh_Stops [''subdomain'' \<mapsto> Subdomain cfg, ''reason'' \<mapsto> reason]
   }"

definition stopContainerWithDocker :: "'w env \<Rightarrow> config \<Rightarrow> string \<Rightarrow> ('w, unit) prog" where
  "stopContainerWithDocker e cfg reason = do {
     r \<leftarrow> ask (env_stop e (Container cfg) 30);
     case r of
       Some er \<Rightarrow> stop_failed e cfg ''container stop failed'' reason er
     | None \<Rightarrow> do {
         clearServiceRuntimeState (Subdomain cfg);
         stop_done e cfg ''stopped'' ''container stopped'' reason
       }
   }"

definition pauseContainer :: "'w env \<Rightarrow> config \<Rightarrow> string \<Rightarrow> ('w, unit) prog" where
  "pauseContainer e cfg reason = do {
     r \<leftarrow> ask (env_pause e (Container cfg));
     case r of
       Some er \<Rightarrow> stop_failed e cfg ''container pause failed'' reason er
     | None \<Rightarrow> stop_done e cfg ''paused'' ''container paused'' reason
   }"

definition cancelIdleTimer :: "string \<Rightarrow> ('w, unit) prog" where
  "cancelIdleTimer name = do {
     t \<leftarrow> gets (\<lambda>s. map_of (idleTimers s) name);
     case t of
       None \<Rightarrow> ret ()
     | Some tid \<Rightarrow> do {
         timer_Stop tid;
         modify (\<lambda>s. s\<lparr>idleTimers := AList.delete name (idleTimers s)\<rparr>)
       }
   }"

definition stopContainerWithReason :: "'w env \<Rightarrow> config \<Rightarrow> string \<Rightarrow> ('w, unit) prog" where
  "stopContainerWithReason e cfg reason = do {
     cancelIdleTimer (Container cfg);
     if Strategy cfg = ''pause'' then pauseContainer e cfg reason
     else stopContainerWithDocker e cfg reason
   }"

definition stopContainer :: "'w env \<Rightarrow> config \<Rightarrow> ('w, unit) prog" where
  "stopContainer e cfg = stopContainerWithReason e cfg ''stopped''"

text \<open>The function that both timers run, and the runtime firing a pending timer.\<close>

definition idle_expired :: "'w env \<Rightarrow> config \<Rightarrow> fields \<Rightarrow> ('w, unit) prog" where
  "idle_expired e cfg flds = do {
     count_at mh_IdleStop (sub_label (Subdomain cfg));
     recordEvent e (Subdomain cfg) ''idle_stop'' ''idle timeout reached'' flds;
     notify_at e ''idle_stop'' (Subdomain cfg) (Container cfg) ''idle timeout reached'' flds;
     log_at LevelInfo ''idle timeout, stopping''
       [(''subdomain'', JStr (Subdomain cfg)), (''container'', JStr (Container cfg)),
        (''idle'', JStr (duration_String (IdleTimeout cfg)))];
     stopContainerWithReason e cfg ''idle''
   }"

definition fire_timer :: "'w env \<Rightarrow> nat \<Rightarrow> ('w, unit) prog" where
  "fire_timer e tid = do {
     pt \<leftarrow> gets (\<lambda>s. map_of (timers s) tid);
     case pt of
       None \<Rightarrow> ret ()
     | Some pt \<Rightarrow> do {
         timer_Stop tid;
         idle_expired e (pt_cfg pt) (pt_fields pt)
       }
   }"

text \<open>\<open>stopAllIdleTimers\<close> of \<open>main.go\<close>.\<close>

definition stopAllIdleTimers :: "('w, unit) prog" where
  "stopAllIdleTimers = do {
     ts \<leftarrow> gets (\<lambda>s. List.map snd (idleTimers s));
     modify (\<lambda>s. s\<lparr>idleTimers := []\<rparr>);
     for_each ts timer_Stop
   }"

subsection \<open>The invariant of the timers\<close>

text \<open>
  Every pending timer has an tid that was handed out, belongs to a container with idling on,
  and is the one that \<open>idleTimers\<close> names for its container. So a container has at most one.
\<close>

definition timer_inv :: "'w docknap \<Rightarrow> bool" where
  "timer_inv s \<longleftrightarrow>
     wf_gomap (idleTimers s) \<and> wf_gomap (timers s) \<and>
     (\<forall>tid pt. map_of (timers s) tid = Some pt \<longrightarrow>
        tid < next_id s \<and> \<not> DisableIdle (pt_cfg pt) \<and>
        map_of (idleTimers s) (Container (pt_cfg pt)) = Some tid)"

lemma timer_inv_named:
  "timer_inv s \<Longrightarrow> map_of (timers s) tid = Some pt \<Longrightarrow>
    map_of (idleTimers s) (Container (pt_cfg pt)) = Some tid"
  by (simp add: timer_inv_def)

interpretation timer_frame: frame_invariant timer_inv
  by unfold_locales (auto simp: timer_inv_def less_Suc_eq)

lemma inv_timer_Stop: "preserves timer_inv (timer_Stop tid)"
  unfolding timer_Stop_def
  by (rule preserves_modify) (auto simp: timer_inv_def split: if_splits)

lemma inv_cancelIdleTimer [preserve_rules]: "preserves timer_inv (cancelIdleTimer name)"
proof (rule preservesI)
  fix s :: "'a docknap"
  assume inv: "timer_inv s"
  show "timer_inv (exec (cancelIdleTimer name) s)"
  proof (cases "map_of (idleTimers s) name")
    case (Some tid)
    then show ?thesis
      using inv by (auto simp: cancelIdleTimer_def timer_Stop_def timer_inv_def split: if_splits)
  qed (use inv in \<open>simp add: cancelIdleTimer_def\<close>)
qed

lemma exec_set_idle_timer:
  "exec (set_idle_timer e cfg flds) s =
    (let (now, w) = env_now e (world s); tid = next_id s
     in s\<lparr>world := w, next_id := Suc tid,
          timers := AList.update tid
            \<lparr>pt_fires = time_Add now (IdleTimeout cfg), pt_cfg = cfg, pt_fields = flds\<rparr> (timers s),
          idleTimers := AList.update (Container cfg) tid (idleTimers s)\<rparr>)"
  by (simp add: set_idle_timer_def after_func_def time_Now_def ask_def fresh_id_def exec_def
      result_def Let_def split: prod.splits)

text \<open>Setting a timer is safe where no other timer of the container is pending.\<close>

lemma inv_set_idle_timer:
  assumes "timer_inv s" "\<not> DisableIdle cfg"
    and "\<And>tid pt. map_of (timers s) tid = Some pt \<Longrightarrow> Container (pt_cfg pt) \<noteq> Container cfg"
  shows "timer_inv (exec (set_idle_timer e cfg flds) s)"
  using assms
  by (auto simp: exec_set_idle_timer timer_inv_def Let_def less_Suc_eq split: prod.splits if_splits)

lemma inv_armIdleTimer [preserve_rules]: "preserves timer_inv (armIdleTimer e cfg)"
proof (rule preservesI)
  fix s :: "'a docknap"
  assume inv: "timer_inv s"
  show "timer_inv (exec (armIdleTimer e cfg) s)"
  proof (cases "DisableIdle cfg \<or> map_of (idleTimers s) (Container cfg) \<noteq> None")
    case False
    then have "map_of (timers s) tid = Some pt \<Longrightarrow> Container (pt_cfg pt) \<noteq> Container cfg" for tid pt
      using timer_inv_named [OF inv, of tid pt] by auto
    with False inv show ?thesis
      by (simp add: armIdleTimer_def inv_set_idle_timer)
  qed (use inv in \<open>auto simp: armIdleTimer_def\<close>)
qed

lemma inv_resetIdleTimer [preserve_rules]: "preserves timer_inv (resetIdleTimer e cfg)"
proof (rule preservesI)
  fix s :: "'a docknap"
  assume inv: "timer_inv s"
  let ?stop = "case map_of (idleTimers s) (Container cfg) of Some tid \<Rightarrow> timer_Stop tid | None \<Rightarrow> ret ()"
  have "timer_inv (exec ?stop s)"
    using inv inv_timer_Stop by (auto simp: preserves_def split: option.splits)
  moreover have "map_of (timers (exec ?stop s)) tid = Some pt \<Longrightarrow> Container (pt_cfg pt) \<noteq> Container cfg" for tid pt
    using timer_inv_named [OF inv, of tid pt]
    by (auto simp: timer_Stop_def split: option.splits if_splits)
  ultimately show "timer_inv (exec (resetIdleTimer e cfg) s)"
    using inv by (simp add: resetIdleTimer_def inv_set_idle_timer)
qed

context frame_invariant
begin

lemma keeps_clearServiceRuntimeState [preserve_rules]: "preserves P (clearServiceRuntimeState sub)"
  unfolding clearServiceRuntimeState_def
  by (intro preserves_modify frame_facts)

lemma keeps_stop_failed [preserve_rules]: "preserves P (stop_failed e cfg w r er)"
  unfolding stop_failed_def by (intro preserve_rules)

lemma keeps_stop_done [preserve_rules]: "preserves P (stop_done e cfg ty m r)"
  unfolding stop_done_def by (intro preserve_rules)

lemma keeps_stopContainerWithDocker [preserve_rules]: "preserves P (stopContainerWithDocker e cfg r)"
  unfolding stopContainerWithDocker_def by (intro preserve_rules)

lemma keeps_pauseContainer [preserve_rules]: "preserves P (pauseContainer e cfg r)"
  unfolding pauseContainer_def by (intro preserve_rules)

end

text \<open>
  An invariant of the services is a frame invariant that the operations on idle timers and on
  the configurations keep as well. The lemmas of this locale, here and in the theories of the
  other components, carry it through everything the program does.
\<close>

locale service_invariant = frame_invariant +
  assumes keeps_timer_Stop: "preserves P (timer_Stop tid)"
    and keeps_armIdleTimer: "preserves P (armIdleTimer e cfg)"
    and keeps_resetIdleTimer: "preserves P (resetIdleTimer e cfg)"
    and keeps_cancelIdleTimer: "preserves P (cancelIdleTimer name)"
    and keeps_config_update: "Subdomain cfg \<noteq> [] \<Longrightarrow> P s \<Longrightarrow> P (s\<lparr>configs := AList.update (Subdomain cfg) cfg (configs s)\<rparr>)"
    and keeps_config_delete: "P s \<Longrightarrow> P (s\<lparr>configs := AList.delete k (configs s)\<rparr>)"
begin

lemmas keeps_timer_ops [preserve_rules] =
  keeps_timer_Stop keeps_armIdleTimer keeps_resetIdleTimer keeps_cancelIdleTimer

lemma keeps_stopContainerWithReason [preserve_rules]: "preserves P (stopContainerWithReason e cfg r)"
  unfolding stopContainerWithReason_def by (intro preserve_rules)

lemma keeps_stopContainer [preserve_rules]: "preserves P (stopContainer e cfg)"
  unfolding stopContainer_def by (intro preserve_rules)

lemma keeps_idle_expired [preserve_rules]: "preserves P (idle_expired e cfg f)"
  unfolding idle_expired_def by (intro preserve_rules)

lemma keeps_fire_timer [preserve_rules]: "preserves P (fire_timer e tid)"
  unfolding fire_timer_def by (intro preserve_rules)

end

interpretation timer_service: service_invariant timer_inv
  by (unfold_locales; (intro preserve_rules inv_timer_Stop)?) (simp_all add: timer_inv_def)

text \<open>What the timer operations leave alone.\<close>

lemma keeps_timers_of_fields:
  assumes "\<And>s v. P s \<Longrightarrow> P (s\<lparr>world := v\<rparr>)" "\<And>s v. P s \<Longrightarrow> P (s\<lparr>next_id := v\<rparr>)"
    and "\<And>s v. P s \<Longrightarrow> P (s\<lparr>timers := v\<rparr>)" "\<And>s v. P s \<Longrightarrow> P (s\<lparr>idleTimers := v\<rparr>)"
  shows "preserves P (timer_Stop tid)" "preserves P (armIdleTimer e cfg)"
    "preserves P (resetIdleTimer e cfg)" "preserves P (cancelIdleTimer name)"
proof -
  show stop: "preserves P (timer_Stop tid)" for tid
    unfolding timer_Stop_def by (intro preserves_modify assms)
  have set: "preserves P (set_idle_timer e cfg f)" for f
    by (rule preservesI) (simp add: exec_set_idle_timer Let_def assms split: prod.split)
  show "preserves P (armIdleTimer e cfg)" "preserves P (resetIdleTimer e cfg)" "preserves P (cancelIdleTimer name)"
    unfolding armIdleTimer_def resetIdleTimer_def cancelIdleTimer_def
    by (intro preserve_rules stop set preserves_modify assms)+
qed

subsection \<open>Properties\<close>

definition pending_for :: "string \<Rightarrow> 'w docknap \<Rightarrow> (nat \<times> pending_timer) set" where
  "pending_for name s = {(tid, pt). map_of (timers s) tid = Some pt \<and> Container (pt_cfg pt) = name}"

lemma reset_pending:
  assumes "timer_inv s" "\<not> DisableIdle cfg"
  shows "pending_for (Container cfg) (exec (resetIdleTimer e cfg) s) =
    {(next_id s, \<lparr>pt_fires = fst (env_now e (world s)) + IdleTimeout cfg, pt_cfg = cfg,
                  pt_fields = idle_fields cfg\<rparr>)}"
proof -
  let ?stop = "case map_of (idleTimers s) (Container cfg) of Some tid \<Rightarrow> timer_Stop tid | None \<Rightarrow> ret ()"
  have none: "Container (pt_cfg pt) \<noteq> Container cfg" if "map_of (timers (exec ?stop s)) tid = Some pt" for tid pt
    using that timer_inv_named [OF assms(1), of tid pt]
    by (auto simp: timer_Stop_def split: option.splits if_splits)
  have same: "world (exec ?stop s) = world s" "next_id (exec ?stop s) = next_id s"
    by (simp_all add: timer_Stop_def split: option.splits)
  show ?thesis
    using none assms(2) same
    by (auto simp: resetIdleTimer_def exec_set_idle_timer pending_for_def Let_def time_Add_def
        split: prod.splits if_splits)
qed

text \<open>A request postpones the idle stop. After \<open>resetIdleTimer\<close> exactly one timer is pending for
  the container: the new one, which fires one idle timeout after the clock reading. Every
  earlier timer of the container is gone.\<close>

theorem reset_leaves_one_timer:
  assumes "timer_inv s" "\<not> DisableIdle cfg"
  shows "pending_for (Container cfg) (exec (resetIdleTimer e cfg) s) =
    {(next_id s, \<lparr>pt_fires = fst (env_now e (world s)) + IdleTimeout cfg, pt_cfg = cfg,
                  pt_fields = idle_fields cfg\<rparr>)}"
  using assms by (rule reset_pending)

definition example_cfg :: config where
  "example_cfg = \<lparr>Subdomain = ''app'', Container = ''app-1'', TargetPort = 80, IdleTimeout = 300 * Second,
     StartupTimeout = Minute, Title = [], Subtitle = [], Icon = [], Theme = ''green'', ShowLogs = True,
     ShowStats = True, LiveLogs = False, HealthPath = [], BootMessages = [], DisableIdle = False,
     Strategy = ''stop''\<rparr>"

text \<open>A world for examples: a clock that ticks once per reading, and a daemon with one answer.\<close>

definition example_env :: "err option \<Rightarrow> nat env" where
  "example_env r =
     \<lparr>env_version = ''dev'', env_go_version = ''go1.22'',
      env_now = (\<lambda>w. (int w, Suc w)), env_list = (\<lambda>_ w. (Inr [], w)),
      env_inspect = (\<lambda>_ w. (Inl ''no such container'', w)), env_start = (\<lambda>_ w. (r, w)),
      env_unpause = (\<lambda>_ w. (r, w)), env_stop = (\<lambda>_ _ w. (r, w)), env_pause = (\<lambda>_ w. (r, w)),
      env_dial = (\<lambda>_ w. (r, w)), env_get = (\<lambda>_ _ w. (Inr 200, w)),
      env_rand = (\<lambda>n w. (Inr (replicate n CHR ''x''), w)), env_proxy = (\<lambda>_ _ w. (([], ProxyDone), w))\<rparr>"

definition example_state :: "nat docknap" where
  "example_state = newDocknap NewRegistry 7"

lemma example_state_sel [simp]:
  "timers example_state = []" "idleTimers example_state = []" "configs example_state = []"
  "world example_state = 7" "next_id example_state = 0" "startedAt example_state = Map.empty"
  "bootStarts example_state = Map.empty" "events example_state = Map.empty"
  by (simp_all add: example_state_def newDocknap_def split: prod.splits)

lemma timer_inv_example [simp]: "timer_inv example_state"
  by (simp add: timer_inv_def)

theorem reset_leaves_one_timer_witness:
  "pending_for ''app-1'' (exec (resetIdleTimer (example_env None) example_cfg) example_state) =
    {(0, \<lparr>pt_fires = 7 + 300 * Second, pt_cfg = example_cfg, pt_fields = idle_fields example_cfg\<rparr>)}"
  using reset_leaves_one_timer [of example_state example_cfg "example_env None"]
  by (simp add: example_cfg_def example_env_def)

lemma cancel_sel [simp]:
  "configs (exec (cancelIdleTimer n) s) = configs s"
  "world (exec (cancelIdleTimer n) s) = world s" "startedAt (exec (cancelIdleTimer n) s) = startedAt s"
  "ipCache (exec (cancelIdleTimer n) s) = ipCache s" "reg (exec (cancelIdleTimer n) s) = reg s"
  "mm (exec (cancelIdleTimer n) s) = mm s" "events (exec (cancelIdleTimer n) s) = events s"
  "service_events (exec (cancelIdleTimer n) s) = service_events s"
  by (auto simp: cancelIdleTimer_def timer_Stop_def service_events_def split: option.splits)

lemma cancel_pending: "timer_inv s \<Longrightarrow> pending_for n (exec (cancelIdleTimer n) s) = {}"
  using timer_inv_named [of s]
  by (auto simp: pending_for_def cancelIdleTimer_def timer_Stop_def split: option.splits if_splits)

lemma pending_cong: "timers s = timers s' \<Longrightarrow> pending_for n s = pending_for n s'"
  by (simp add: pending_for_def)



end
