(* ===== verification/Idlestop.thy ===== *)
theory Idlestop
  imports Timers
begin

text \<open>
  The idle timers (\<open>timers.go\<close>) against the traffic (\<open>proxy.go\<close>). In the other theories a timer that
  fires runs its function to the end, and a request is served in one go. Here the function that
  \<open>time.AfterFunc\<close> starts is a goroutine whose parts interleave with requests, and a request that
  found its service up goes on being forwarded after it has reset the timer.
\<close>

subsection \<open>The goroutines\<close>

text \<open>The function of a timer has been started, has noted the event, has cancelled the timer that the
  program knows for the container, and has returned.\<close>

datatype stop_pc = TFired | TNoted | TStops | TReturned

record 'w idle_sys =
  is_app :: "'w docknap"
  is_fired :: "nat \<rightharpoonup> pending_timer \<times> stop_pc"
  is_flights :: "nat \<rightharpoonup> config"

definition clock :: "'w env \<Rightarrow> 'w idle_sys \<Rightarrow> time" where
  "clock e s = fst (env_now e (world (is_app s)))"

text \<open>The parts of the function of a timer, up to where others may interleave.\<close>

definition note_idle :: "'w env \<Rightarrow> config \<Rightarrow> fields \<Rightarrow> ('w, unit) prog" where
  "note_idle e cfg flds = do {
     count_at mh_IdleStop (sub_label (Subdomain cfg));
     recordEvent e (Subdomain cfg) ''idle_stop'' ''idle timeout reached'' flds;
     notify_at e ''idle_stop'' (Subdomain cfg) (Container cfg) ''idle timeout reached'' flds;
     log_at LevelInfo ''idle timeout, stopping''
       [(''subdomain'', JStr (Subdomain cfg)), (''container'', JStr (Container cfg)),
        (''idle'', JStr (duration_String (IdleTimeout cfg)))]
   }"

definition stop_by_strategy :: "'w env \<Rightarrow> config \<Rightarrow> string \<Rightarrow> ('w, unit) prog" where
  "stop_by_strategy e cfg reason =
     (if Strategy cfg = ''pause'' then pauseContainer e cfg reason else stopContainerWithDocker e cfg reason)"

fun idle_turn :: "'w env \<Rightarrow> nat \<Rightarrow> pending_timer \<Rightarrow> stop_pc \<Rightarrow> 'w idle_sys \<Rightarrow> 'w idle_sys" where
  "idle_turn e tid pt TFired s =
     s\<lparr>is_app := exec (note_idle e (pt_cfg pt) (pt_fields pt)) (is_app s), is_fired := (is_fired s)(tid \<mapsto> (pt, TNoted))\<rparr>"
| "idle_turn e tid pt TNoted s =
     s\<lparr>is_app := exec (cancelIdleTimer (Container (pt_cfg pt))) (is_app s), is_fired := (is_fired s)(tid \<mapsto> (pt, TStops))\<rparr>"
| "idle_turn e tid pt TStops s =
     s\<lparr>is_app := exec (stop_by_strategy e (pt_cfg pt) ''idle'') (is_app s), is_fired := (is_fired s)(tid \<mapsto> (pt, TReturned))\<rparr>"
| "idle_turn e tid pt TReturned s = s"

definition request_passes :: "'w env \<Rightarrow> nat \<Rightarrow> config \<Rightarrow> 'w idle_sys \<Rightarrow> 'w idle_sys" where
  "request_passes e f cfg s =
     s\<lparr>is_app := exec (resetIdleTimer e cfg) (is_app s), is_flights := (is_flights s)(f \<mapsto> cfg)\<rparr>"

definition timer_fires :: "nat \<Rightarrow> pending_timer \<Rightarrow> 'w idle_sys \<Rightarrow> 'w idle_sys" where
  "timer_fires tid pt s =
     s\<lparr>is_app := exec (timer_Stop tid) (is_app s), is_fired := (is_fired s)(tid \<mapsto> (pt, TFired))\<rparr>"

text \<open>The steps, for the configurations \<open>K\<close>. A stop by hand and a container that disappears cancel a timer;
  the rest of the program does not touch the timers.\<close>

inductive idle_step :: "'w env \<Rightarrow> (config \<Rightarrow> bool) \<Rightarrow> 'w idle_sys \<Rightarrow> 'w idle_sys \<Rightarrow> bool"
  for e :: "'w env" and K where
  pass: "is_flights s f = None \<Longrightarrow> K cfg \<Longrightarrow> idle_step e K s (request_passes e f cfg s)"
| land: "idle_step e K s (s\<lparr>is_flights := (is_flights s)(f := None)\<rparr>)"
| arm: "K cfg \<Longrightarrow> idle_step e K s (s\<lparr>is_app := exec (armIdleTimer e cfg) (is_app s)\<rparr>)"
| cancel: "idle_step e K s (s\<lparr>is_app := exec (cancelIdleTimer n) (is_app s)\<rparr>)"
| fire: "map_of (timers (is_app s)) tid = Some pt \<Longrightarrow> pt_fires pt \<le> clock e s \<Longrightarrow> idle_step e K s (timer_fires tid pt s)"
| turn: "is_fired s tid = Some (pt, pc) \<Longrightarrow> pc \<noteq> TReturned \<Longrightarrow> idle_step e K s (idle_turn e tid pt pc s)"
| other: "timers a = timers (is_app s) \<Longrightarrow> idleTimers a = idleTimers (is_app s) \<Longrightarrow> next_id (is_app s) \<le> next_id a \<Longrightarrow>
    idle_step e K s (s\<lparr>is_app := a\<rparr>)"

abbreviation idle_run :: "'w env \<Rightarrow> (config \<Rightarrow> bool) \<Rightarrow> 'w idle_sys \<Rightarrow> 'w idle_sys \<Rightarrow> bool" where
  "idle_run e K \<equiv> (idle_step e K)\<^sup>*\<^sup>*"

definition idle_init :: "'w docknap \<Rightarrow> 'w idle_sys" where
  "idle_init a = \<lparr>is_app = a, is_fired = Map.empty, is_flights = Map.empty\<rparr>"

text \<open>The parts make up the function.\<close>

lemma exec_idle_parts:
  "exec (idle_expired e cfg flds) s =
    exec (stop_by_strategy e cfg ''idle'') (exec (cancelIdleTimer (Container cfg)) (exec (note_idle e cfg flds) s))"
  by (simp add: idle_expired_def note_idle_def stopContainerWithReason_def stop_by_strategy_def)

text \<open>The function of a timer that has been started can run to its end at any time.\<close>

lemma finish_from_noted:
  assumes "is_fired s tid = Some (pt, TNoted)"
  shows "idle_run e K s (s\<lparr>is_app := exec (stop_by_strategy e (pt_cfg pt) ''idle'')
      (exec (cancelIdleTimer (Container (pt_cfg pt))) (is_app s)), is_fired := (is_fired s)(tid \<mapsto> (pt, TReturned))\<rparr>)"
proof -
  let ?s1 = "idle_turn e tid pt TNoted s"
  have "idle_step e K s ?s1" by (rule idle_step.turn [OF assms]) simp
  moreover have "idle_step e K ?s1 (idle_turn e tid pt TStops ?s1)" by (rule idle_step.turn) simp_all
  ultimately have "idle_run e K s (idle_turn e tid pt TStops ?s1)" by (meson rtranclp.rtrancl_into_rtrancl rtranclp.rtrancl_refl)
  then show ?thesis by simp
qed

lemma finish_from_fired:
  assumes "is_fired s tid = Some (pt, TFired)"
  shows "idle_run e K s (s\<lparr>is_app := exec (idle_expired e (pt_cfg pt) (pt_fields pt)) (is_app s),
      is_fired := (is_fired s)(tid \<mapsto> (pt, TReturned))\<rparr>)"
proof -
  let ?s1 = "idle_turn e tid pt TFired s"
  have "idle_step e K s ?s1" by (rule idle_step.turn [OF assms]) simp
  moreover have "is_fired ?s1 tid = Some (pt, TNoted)" by simp
  from finish_from_noted [OF this, of e K] have "idle_run e K ?s1 (s\<lparr>is_app := exec (idle_expired e (pt_cfg pt) (pt_fields pt)) (is_app s),
      is_fired := (is_fired s)(tid \<mapsto> (pt, TReturned))\<rparr>)"
    by (simp add: exec_idle_parts)
  ultimately show ?thesis by (rule converse_rtranclp_into_rtranclp)
qed

text \<open>A timer that fires with nobody interfering is \<open>fire_timer\<close>. When it is due, its goroutine's turns
  in a row lead to the state that the program \<open>fire_timer\<close> of theory \<open>Timers\<close> gives in one go.\<close>

theorem lone_firing_refines:
  assumes "map_of (timers (is_app s)) tid = Some pt" "pt_fires pt \<le> clock e s"
  shows "idle_run e K s (s\<lparr>is_app := exec (fire_timer e tid) (is_app s), is_fired := (is_fired s)(tid \<mapsto> (pt, TReturned))\<rparr>)"
proof -
  have "idle_step e K s (timer_fires tid pt s)" using assms by (rule idle_step.fire)
  moreover have "is_fired (timer_fires tid pt s) tid = Some (pt, TFired)" by (simp add: timer_fires_def)
  from finish_from_fired [OF this, of e K]
  have "idle_run e K (timer_fires tid pt s)
      (s\<lparr>is_app := exec (fire_timer e tid) (is_app s), is_fired := (is_fired s)(tid \<mapsto> (pt, TReturned))\<rparr>)"
    using assms(1) by (simp add: timer_fires_def fire_timer_def)
  ultimately show ?thesis by (rule converse_rtranclp_into_rtranclp)
qed

subsection \<open>What keeps a container up\<close>

lemma note_stop_sel [simp]:
  "timers (exec (note_idle e cfg f) s) = timers s" "timers (exec (stop_by_strategy e cfg r) s) = timers s"
  by (simp_all add: note_idle_def stop_by_strategy_def pauseContainer_def stopContainerWithDocker_def stop_failed_def
      stop_done_def clearServiceRuntimeState_def split: option.split)

lemma inv_note_stop [preserve_rules]:
  "preserves timer_inv (note_idle e cfg f)" "preserves timer_inv (stop_by_strategy e cfg r)"
  unfolding note_idle_def stop_by_strategy_def by (intro preserve_rules)+

lemma pending_timer_Stop: "pending_for n (exec (timer_Stop tid) s) \<subseteq> pending_for n s"
  by (auto simp: pending_for_def timer_Stop_def split: if_splits)

lemma pending_cancel: "pending_for n (exec (cancelIdleTimer m) s) \<subseteq> pending_for n s"
  by (auto simp: pending_for_def cancelIdleTimer_def timer_Stop_def split: option.splits if_splits)

lemma pending_set:
  "pending_for n (exec (set_idle_timer e cfg f) s) \<subseteq> pending_for n s \<union>
    {(tid, pt). Container cfg = n \<and> pt_fires pt = fst (env_now e (world s)) + IdleTimeout cfg}"
  by (auto simp: pending_for_def exec_set_idle_timer time_Add_def Let_def split: prod.splits if_splits)

lemma pending_new:
  "pending_for n (exec (armIdleTimer e cfg) s) \<subseteq> pending_for n s \<union>
    {(tid, pt). Container cfg = n \<and> pt_fires pt = fst (env_now e (world s)) + IdleTimeout cfg}"
  "pending_for n (exec (resetIdleTimer e cfg) s) \<subseteq> pending_for n s \<union>
    {(tid, pt). Container cfg = n \<and> pt_fires pt = fst (env_now e (world s)) + IdleTimeout cfg}"
proof -
  show "pending_for n (exec (armIdleTimer e cfg) s) \<subseteq> pending_for n s \<union>
      {(tid, pt). Container cfg = n \<and> pt_fires pt = fst (env_now e (world s)) + IdleTimeout cfg}"
    using pending_set [of n e cfg _ s] by (auto simp: armIdleTimer_def split: option.split)
  let ?stop = "case map_of (idleTimers s) (Container cfg) of Some tid \<Rightarrow> timer_Stop tid | None \<Rightarrow> ret ()"
  have "pending_for n (exec ?stop s) \<subseteq> pending_for n s" "world (exec ?stop s) = world s"
    using pending_timer_Stop by (auto simp: timer_Stop_def split: option.split)
  then show "pending_for n (exec (resetIdleTimer e cfg) s) \<subseteq> pending_for n s \<union>
      {(tid, pt). Container cfg = n \<and> pt_fires pt = fst (env_now e (world s)) + IdleTimeout cfg}"
    using pending_set [of n e cfg "idle_fields cfg" "exec ?stop s"] by (auto simp: resetIdleTimer_def)
qed

lemma idle_turn_parts:
  "pending_for n (is_app (idle_turn e tid pt pc s)) \<subseteq> pending_for n (is_app s)"
  "pc \<noteq> TReturned \<Longrightarrow> \<exists>pc'. is_fired (idle_turn e tid pt pc s) = (is_fired s)(tid \<mapsto> (pt, pc'))"
proof -
  have "pending_for n (exec (note_idle e cfg f) a) = pending_for n a"
    "pending_for n (exec (stop_by_strategy e cfg r) a) = pending_for n a" for a :: "'a docknap" and cfg f r
    by (simp_all add: pending_for_def)
  then show "pending_for n (is_app (idle_turn e tid pt pc s)) \<subseteq> pending_for n (is_app s)"
    using pending_cancel by (cases pc) simp_all
  show "\<exists>pc'. is_fired (idle_turn e tid pt pc s) = (is_fired s)(tid \<mapsto> (pt, pc'))" if "pc \<noteq> TReturned"
    using that by (cases pc) auto
qed

lemma inv_idle_step: "idle_step e K s s' \<Longrightarrow> timer_inv (is_app s) \<Longrightarrow> timer_inv (is_app s')"
proof (induction rule: idle_step.induct)
  case (pass s f cfg)
  then show ?case using preservesD [OF inv_resetIdleTimer] by (simp add: request_passes_def)
next
  case (arm cfg s)
  then show ?case using preservesD [OF inv_armIdleTimer] by simp
next
  case (cancel s n)
  then show ?case using preservesD [OF inv_cancelIdleTimer] by simp
next
  case (fire s tid pt)
  then show ?case using preservesD [OF inv_timer_Stop] by (simp add: timer_fires_def)
next
  case (turn s tid pt pc)
  then show ?case
    using preservesD [OF inv_note_stop(1)] preservesD [OF inv_note_stop(2)] preservesD [OF inv_cancelIdleTimer]
    by (cases pc) simp_all
next
  case (other a s)
  then show ?case by (fastforce simp: timer_inv_def)
qed simp

text \<open>Until the deadline, the timers of the container are late enough and none of their functions runs
  that had not returned before.\<close>

definition protected_until :: "time \<Rightarrow> string \<Rightarrow> (nat \<rightharpoonup> pending_timer \<times> stop_pc) \<Rightarrow> 'w idle_sys \<Rightarrow> bool" where
  "protected_until T n old s \<longleftrightarrow>
     (\<forall>(tid, pt) \<in> pending_for n (is_app s). T \<le> pt_fires pt) \<and>
     (\<forall>tid pt pc. is_fired s tid = Some (pt, pc) \<longrightarrow> Container (pt_cfg pt) = n \<longrightarrow> old tid = Some (pt, pc))"

lemma protected_step:
  assumes "idle_step e K s s'" "protected_until T n old s" "clock e s < T" "T \<le> clock e s + d"
    and "\<And>cfg. K cfg \<Longrightarrow> Container cfg = n \<Longrightarrow> d \<le> IdleTimeout cfg"
    and "\<And>tid pt pc. old tid = Some (pt, pc) \<Longrightarrow> Container (pt_cfg pt) = n \<Longrightarrow> pc = TReturned"
  shows "protected_until T n old s'"
proof -
  have sub: "protected_until T n old s'"
    if "pending_for n (is_app s') \<subseteq> pending_for n (is_app s) \<union>
      {(tid, pt). Container cfg = n \<and> pt_fires pt = clock e s + IdleTimeout cfg}" "is_fired s' = is_fired s" "K cfg" for cfg
    using that assms(2,4) assms(5) [of cfg] unfolding protected_until_def by fastforce
  have fewer: "protected_until T n old s'"
    if "pending_for n (is_app s') \<subseteq> pending_for n (is_app s)"
      and "\<And>tid pt pc. is_fired s' tid = Some (pt, pc) \<Longrightarrow> Container (pt_cfg pt) = n \<Longrightarrow> old tid = Some (pt, pc)"
    using that assms(2) unfolding protected_until_def by fastforce
  have old: "is_fired s tid = Some (pt, pc) \<Longrightarrow> Container (pt_cfg pt) = n \<Longrightarrow> old tid = Some (pt, pc)" for tid pt pc
    using assms(2) unfolding protected_until_def by blast
  show ?thesis
    using assms(1)
  proof (cases rule: idle_step.cases)
    case (pass f cfg)
    then show ?thesis
      using pending_new(2) [of n e cfg "is_app s"] by (intro sub [of cfg]) (simp_all add: request_passes_def clock_def)
  next
    case (arm cfg)
    then show ?thesis
      using pending_new(1) [of n e cfg "is_app s"] by (intro sub [of cfg]) (simp_all add: clock_def)
  next
    case (fire tid pt)
    then have "Container (pt_cfg pt) \<noteq> n"
      using assms(2,3) by (fastforce simp: protected_until_def pending_for_def)
    then show ?thesis
      using fire pending_timer_Stop old by (intro fewer) (auto simp: timer_fires_def split: if_splits)
  next
    case (turn tid pt pc)
    then have "Container (pt_cfg pt) \<noteq> n" using old assms(6) by blast
    moreover obtain pc' where "is_fired s' = (is_fired s)(tid \<mapsto> (pt, pc'))"
      using idle_turn_parts(2) [OF turn(3)] turn(1) by blast
    ultimately show ?thesis
      using turn(1) old by (intro fewer) (auto split: if_splits dest: idle_turn_parts(1) [THEN subsetD])
  next
    case (other a)
    then show ?thesis using old pending_cong [of a "is_app s" n] by (intro fewer) simp_all
  next
    case (cancel m)
    then show ?thesis using old by (intro fewer) (auto dest: pending_cancel [THEN subsetD])
  next
    case (land f)
    then show ?thesis using old by (intro fewer) auto
  qed
qed

text \<open>C9: Traffic keeps a container up. After a request has passed, and if no function of an earlier timer of
  the container is still running then, no such function runs for one idle timeout, whatever
  else happens - other requests, stops by hand, synchronisations, timers of other containers -
  on a clock that does not run backwards. So nothing is stopped for idling too early.\<close>

theorem traffic_keeps_up:
  assumes "timer_inv (is_app s0)" "\<not> DisableIdle cfg" "Container cfg = n"
    and "\<forall>tid pt pc. is_fired s0 tid = Some (pt, pc) \<and> Container (pt_cfg pt) = n \<longrightarrow> pc = TReturned"
    and "\<forall>c. K c \<and> Container c = n \<longrightarrow> d \<le> IdleTimeout c" "K cfg"
    and "s1 = request_passes e f cfg s0" "clock e s0 \<le> clock e s1"
    and "(\<lambda>s s'. idle_step e K s s' \<and> clock e s \<le> clock e s')\<^sup>*\<^sup>* s1 s" "clock e s < clock e s0 + d"
  shows "\<forall>tid pt pc. is_fired s tid = Some (pt, pc) \<and> Container (pt_cfg pt) = n \<longrightarrow> pc = TReturned"
proof -
  let ?T = "clock e s0 + d"
  have "d \<le> IdleTimeout cfg" using assms(3,5,6) by blast
  then have "protected_until ?T n (is_fired s0) s1"
    using reset_pending [OF assms(1,2), of e] assms(3) by (simp add: protected_until_def assms(7) request_passes_def clock_def)
  with assms(9,10) have "protected_until ?T n (is_fired s0) s \<and> clock e s0 \<le> clock e s"
  proof (induction rule: rtranclp_induct)
    case (step s s')
    then have "protected_until ?T n (is_fired s0) s" "clock e s0 \<le> clock e s" by simp_all
    moreover have "protected_until ?T n (is_fired s0) s'"
      using step calculation assms(4,5) by (intro protected_step [of e K s s' ?T n _ d]) auto
    ultimately show ?case using step.hyps(2) by simp
  qed (use assms(8) in simp)
  then show ?thesis using assms(4) unfolding protected_until_def by blast
qed

subsection \<open>What does not keep it up\<close>

lemma stop_event:
  assumes "Strategy cfg \<noteq> ''pause''" "\<forall>w. fst (env_stop e (Container cfg) 30 w) = None"
  shows "ev_Type (last (service_events (exec (stop_by_strategy e cfg r) s) (Subdomain cfg))) = ''stopped''"
  using assms by (simp add: stop_by_strategy_def stopContainerWithDocker_def stop_done_def clearServiceRuntimeState_def)

text \<open>A request under way does not keep its container up. A request that is still being forwarded when
  the timer that it set comes due has its container stopped beneath it: the timer is set when
  the request comes in and not again until it ends.\<close>

theorem long_request_is_stopped:
  assumes "is_flights s f = Some cfg" "map_of (timers (is_app s)) tid = Some pt" "pt_cfg pt = cfg" "pt_fires pt \<le> clock e s"
    and "Strategy cfg \<noteq> ''pause''" "\<forall>w. fst (env_stop e (Container cfg) 30 w) = None"
  shows "\<exists>s'. idle_run e K s s' \<and> is_flights s' f = Some cfg \<and>
    ev_Type (last (service_events (is_app s') (Subdomain cfg))) = ''stopped''"
proof -
  let ?s = "s\<lparr>is_app := exec (fire_timer e tid) (is_app s), is_fired := (is_fired s)(tid \<mapsto> (pt, TReturned))\<rparr>"
  have "idle_run e K s ?s" by (rule lone_firing_refines [OF assms(2,4)])
  moreover have "exec (fire_timer e tid) (is_app s) = exec (idle_expired e cfg (pt_fields pt)) (exec (timer_Stop tid) (is_app s))"
    using assms(2,3) by (simp add: fire_timer_def)
  ultimately show ?thesis
    using assms(1) stop_event [OF assms(5,6)] by (intro exI [of _ ?s]) (simp add: exec_idle_parts)
qed

lemma inv_idle_run: "idle_run e K s s' \<Longrightarrow> timer_inv (is_app s) \<Longrightarrow> timer_inv (is_app s')"
  by (induction rule: rtranclp_induct) (auto intro: inv_idle_step)


subsection \<open>Examples\<close>

definition passed_example :: "nat idle_sys" where
  "passed_example = request_passes (example_env None) 0 example_cfg (idle_init example_state)"

lemma passed_example_timer:
  "map_of (timers (is_app passed_example)) 0 =
    Some \<lparr>pt_fires = 7 + 300 * Second, pt_cfg = example_cfg, pt_fields = idle_fields example_cfg\<rparr>"
  "is_flights passed_example = [0 \<mapsto> example_cfg]" "is_fired passed_example = Map.empty"
  by (simp_all add: passed_example_def request_passes_def idle_init_def resetIdleTimer_def exec_set_idle_timer
      example_cfg_def example_env_def time_Add_def)

lemma passed_example_run: "idle_run (example_env None) (\<lambda>_. True) (idle_init example_state) passed_example"
  unfolding passed_example_def by (intro r_into_rtranclp idle_step.pass) (simp_all add: idle_init_def)

theorem lone_firing_refines_witness:
  "idle_run (example_env None) (\<lambda>_. True) (passed_example\<lparr>is_app := (is_app passed_example)\<lparr>world := 10 ^ 12\<rparr>\<rparr>)
     (passed_example\<lparr>is_app := exec (fire_timer (example_env None) 0) ((is_app passed_example)\<lparr>world := 10 ^ 12\<rparr>),
        is_fired := [0 \<mapsto> (\<lparr>pt_fires = 7 + 300 * Second, pt_cfg = example_cfg, pt_fields = idle_fields example_cfg\<rparr>, TReturned)]\<rparr>)"
  using lone_firing_refines [of "passed_example\<lparr>is_app := (is_app passed_example)\<lparr>world := 10 ^ 12\<rparr>\<rparr>" 0
      "\<lparr>pt_fires = 7 + 300 * Second, pt_cfg = example_cfg, pt_fields = idle_fields example_cfg\<rparr>" "example_env None"]
  by (simp add: passed_example_timer clock_def example_env_def Second_def)

text \<open>A second request passes while the first one is under way.\<close>

theorem traffic_keeps_up_witness:
  "\<not> (\<exists>tid pt pc. is_fired (request_passes (example_env None) 1 example_cfg passed_example) tid = Some (pt, pc) \<and>
     Container (pt_cfg pt) = ''app-1'' \<and> pc \<noteq> TReturned)"
proof -
  let ?e = "example_env None" and ?K = "\<lambda>c. IdleTimeout c = 300 * Second"
  let ?s = "request_passes ?e 1 example_cfg passed_example"
  have clock: "clock ?e (idle_init example_state) = 7" "clock ?e passed_example = 8" "clock ?e ?s = 9"
    by (simp_all add: passed_example_def request_passes_def idle_init_def resetIdleTimer_def exec_set_idle_timer clock_def
      timer_Stop_def example_cfg_def example_env_def)
  have cfg: "?K example_cfg" "\<not> DisableIdle example_cfg" "Container example_cfg = ''app-1''" by (simp_all add: example_cfg_def)
  have "idle_step ?e ?K passed_example ?s"
    by (rule idle_step.pass) (simp_all add: passed_example_timer cfg)
  then have "(\<lambda>s s'. idle_step ?e ?K s s' \<and> clock ?e s \<le> clock ?e s')\<^sup>*\<^sup>* passed_example ?s"
    using clock by (intro r_into_rtranclp) simp
  then have "\<forall>tid pt pc. is_fired ?s tid = Some (pt, pc) \<and> Container (pt_cfg pt) = ''app-1'' \<longrightarrow> pc = TReturned"
    using traffic_keeps_up [of "idle_init example_state" example_cfg "''app-1''" ?K "300 * Second" passed_example ?e 0 ?s]
      cfg clock by (simp add: passed_example_def idle_init_def Second_def)
  then show ?thesis by blast
qed

theorem long_request_is_stopped_witness:
  "\<exists>s s'. idle_run (example_env None) (\<lambda>_. True) (idle_init example_state) s \<and> is_flights s 0 = Some example_cfg \<and>
     idle_run (example_env None) (\<lambda>_. True) s s' \<and> is_flights s' 0 = Some example_cfg \<and>
     ev_Type (last (service_events (is_app s') ''app'')) = ''stopped''"
proof -
  let ?e = "example_env None" and ?s = "passed_example\<lparr>is_app := (is_app passed_example)\<lparr>world := 10 ^ 12\<rparr>\<rparr>"
  have "idle_step ?e (\<lambda>_. True) passed_example ?s" by (rule idle_step.other) simp_all
  then have "idle_run ?e (\<lambda>_. True) (idle_init example_state) ?s"
    using passed_example_run by (rule rtranclp.rtrancl_into_rtrancl [rotated])
  moreover obtain s' where "idle_run ?e (\<lambda>_. True) ?s s'" "is_flights s' 0 = Some example_cfg"
      "ev_Type (last (service_events (is_app s') (Subdomain example_cfg))) = ''stopped''"
    using long_request_is_stopped [of ?s 0 example_cfg 0
        "\<lparr>pt_fires = 7 + 300 * Second, pt_cfg = example_cfg, pt_fields = idle_fields example_cfg\<rparr>" ?e "\<lambda>_. True"]
    by (auto simp: passed_example_timer clock_def example_env_def Second_def example_cfg_def)
  moreover have "Subdomain example_cfg = ''app''" by (simp add: example_cfg_def)
  ultimately show ?thesis using passed_example_timer(2) by (intro exI [of _ ?s] exI [of _ s']) simp
qed


end
