(* ===== verification/Docker.thy ===== *)
theory Docker
  imports Timers
begin

text \<open>
  \<open>docker.go\<close>: finding the labelled containers (\<open>discover\<close>, \<open>syncContainers\<close>), probing a
  container (\<open>getContainerIP\<close>, \<open>checkPort\<close>, \<open>checkHTTPHealth\<close>, \<open>getTargetURL\<close>) and starting one
  (\<open>startContainer\<close>, and \<open>wait_tick\<close> for one tick of the goroutine \<open>waitForReady\<close>). A container
  summary without a name makes the code index an empty slice and panic; that is the outcome
  \<open>Crashed\<close>. The event loop around \<open>syncContainers\<close> is in the theory \<open>Watch\<close>.
\<close>

datatype outcome = Done | Failed err | Crashed

definition container_name :: "container_summary \<Rightarrow> string" where
  "container_name c = strings_TrimPrefix (hd (cs_Names c)) ''/''"

text \<open>The receiver's defaults go into \<open>parseLabels\<close>.\<close>

definition labels_config :: "container_summary \<Rightarrow> 'w docknap \<Rightarrow> config option" where
  "labels_config c s = parseLabels (idleDefault s) (startTimeoutDefault s) (cs_Labels c)"

definition register_config :: "config \<Rightarrow> ('w, unit) prog" where
  "register_config cfg = modify (\<lambda>s. s\<lparr>configs := AList.update (Subdomain cfg) cfg (configs s)\<rparr>)"

definition set_startedAt :: "string \<Rightarrow> time \<Rightarrow> ('w, unit) prog" where
  "set_startedAt sub t = modify (\<lambda>s. s\<lparr>startedAt := (startedAt s)(sub \<mapsto> t)\<rparr>)"

subsection \<open>Discovery\<close>

text \<open>The state and the start time of a listed container, and its idle timer.\<close>

definition discover_state :: "'w env \<Rightarrow> container_summary \<Rightarrow> config \<Rightarrow> ('w, unit) prog" where
  "discover_state e c cfg = do {
     st \<leftarrow> gets (\<lambda>s. map_of (states s) (Subdomain cfg));
     when_do (st = None) (modify (put_state (Subdomain cfg) (zero_service\<lparr>ss_State := cs_State c\<rparr>)));
     if cs_State c \<noteq> ''running'' then ret ()
     else do {
       r \<leftarrow> ask (env_inspect e (Container cfg));
       case r of
         Inl er \<Rightarrow> ret ()
       | Inr info \<Rightarrow>
           if in_Running info \<and> in_StartedAt info \<noteq> []
           then (case time_ParseRFC3339 (in_StartedAt info) of
                   None \<Rightarrow> ret ()
                 | Some t \<Rightarrow> do { set_startedAt (Subdomain cfg) t; armIdleTimer e cfg })
           else ret ()
     }
   }"

definition discover_one :: "'w env \<Rightarrow> container_summary \<Rightarrow> config \<Rightarrow> ('w, unit) prog" where
  "discover_one e c cfg = do { register_config cfg; discover_state e c cfg }"

fun discover_loop :: "'w env \<Rightarrow> container_summary list \<Rightarrow> ('w, outcome) prog" where
  "discover_loop e [] = ret Done"
| "discover_loop e (c # cs) = do {
     p \<leftarrow> gets (labels_config c);
     case p of
       None \<Rightarrow> discover_loop e cs
     | Some cfg \<Rightarrow>
         if cs_Names c = [] then ret Crashed
         else do { discover_one e c (cfg\<lparr>Container := container_name c\<rparr>); discover_loop e cs }
   }"

definition discover :: "'w env \<Rightarrow> ('w, outcome) prog" where
  "discover e = do {
     net \<leftarrow> gets networkName;
     r \<leftarrow> ask (env_list e net);
     case r of
       Inl er \<Rightarrow> ret (Failed er)
     | Inr cs \<Rightarrow> discover_loop e cs
   }"

subsection \<open>Synchronisation\<close>

definition recordEventLocked :: "'w env \<Rightarrow> string \<Rightarrow> string \<Rightarrow> string \<Rightarrow> fields \<Rightarrow> ('w, unit) prog" where
  "recordEventLocked e sub eventType message flds = do {
     now \<leftarrow> time_Now e;
     modify (store_event \<lparr>ev_Time = now, ev_Type = eventType, ev_Message = message, ev_Fields = flds\<rparr> sub)
   }"

definition known_containers :: "(string, config) gomap \<Rightarrow> (string, config) gomap" where
  "known_containers cfgs = fold (\<lambda>(k, cfg) m. AList.update (Container cfg) cfg m) cfgs []"

definition forget_container :: "'w env \<Rightarrow> string \<Rightarrow> config \<Rightarrow> ('w, unit) prog" where
  "forget_container e name cfg = do {
     log_at LevelInfo ''container disappeared'' [(''container'', JStr name), (''subdomain'', JStr (Subdomain cfg))];
     notify_at e ''disappeared'' (Subdomain cfg) name ''container no longer present in registry'' [];
     modify (\<lambda>s. s\<lparr>configs := AList.delete (Subdomain cfg) (configs s)\<rparr>);
     cancelIdleTimer name;
     modify (\<lambda>s. s\<lparr>bootStarts := (bootStarts s)(Subdomain cfg := None),
                   startedAt := (startedAt s)(Subdomain cfg := None),
                   startLocks := (startLocks s)(name := None),
                   states := AList.delete (Subdomain cfg) (states s),
                   ipCache := (ipCache s)(Subdomain cfg := None),
                   ipCacheAt := (ipCacheAt s)(Subdomain cfg := None)\<rparr>);
     recordEventLocked e (Subdomain cfg) ''disappeared'' ''container no longer present in registry'' []
   }"

text \<open>One listed container with labels: it is registered if it is new, then its state and start
  time are refreshed. The result is the configuration to arm, if any.\<close>

definition sync_config :: "container_summary \<Rightarrow> config \<Rightarrow> ('w, config) prog" where
  "sync_config c cfg = do {
     ex \<leftarrow> gets (\<lambda>s. map_of (configs s) (Subdomain cfg));
     if (case ex of None \<Rightarrow> True | Some old \<Rightarrow> Container old \<noteq> container_name c)
     then do {
       register_config (cfg\<lparr>Container := container_name c\<rparr>);
       log_at LevelInfo ''registered''
         [(''subdomain'', JStr (Subdomain cfg)), (''container'', JStr (container_name c))];
       ret (cfg\<lparr>Container := container_name c\<rparr>)
     }
     else ret cfg
   }"

definition sync_state :: "'w env \<Rightarrow> container_summary \<Rightarrow> config \<Rightarrow> ('w, config list) prog" where
  "sync_state e c cfg = do {
     st \<leftarrow> gets (\<lambda>s. map_of (states s) (Subdomain cfg));
     modify (put_state (Subdomain cfg)
       ((case st of None \<Rightarrow> zero_service | Some x \<Rightarrow> x)\<lparr>ss_State := cs_State c\<rparr>));
     if cs_State c \<noteq> ''running'' then ret []
     else do {
       r \<leftarrow> ask (env_inspect e (container_name c));
       (case r of
          Inl er \<Rightarrow> ret ()
        | Inr info \<Rightarrow>
            if in_StartedAt info = [] then ret ()
            else (case time_ParseRFC3339 (in_StartedAt info) of
                    None \<Rightarrow> ret ()
                  | Some t \<Rightarrow> set_startedAt (Subdomain cfg) t));
       ret [cfg]
     }
   }"

definition sync_one :: "'w env \<Rightarrow> container_summary \<Rightarrow> config \<Rightarrow> ('w, config list) prog" where
  "sync_one e c cfg0 = do { cfg \<leftarrow> sync_config c cfg0; sync_state e c cfg }"

fun sync_register :: "'w env \<Rightarrow> container_summary list \<Rightarrow> ('w, config list) prog" where
  "sync_register e [] = ret []"
| "sync_register e (c # cs) = do {
     p \<leftarrow> gets (labels_config c);
     case p of
       None \<Rightarrow> sync_register e cs
     | Some cfg \<Rightarrow> do {
         a \<leftarrow> sync_one e c cfg;
         rest \<leftarrow> sync_register e cs;
         ret (a @ rest)
       }
   }"

definition sync_listed :: "'w env \<Rightarrow> container_summary list \<Rightarrow> ('w, unit) prog" where
  "sync_listed e cs = do {
     cfgs \<leftarrow> gets configs;
     for_each (known_containers cfgs) (\<lambda>(name, cfg).
       when_do (name \<notin> set (List.map container_name cs)) (forget_container e name cfg));
     toArm \<leftarrow> sync_register e cs;
     for_each toArm (armIdleTimer e);
     n \<leftarrow> gets (\<lambda>s. length (configs s));
     set_gauge mh_Registered Map.empty (f64_of_int (int n))
   }"

definition syncContainers :: "'w env \<Rightarrow> ('w, outcome) prog" where
  "syncContainers e = do {
     net \<leftarrow> gets networkName;
     r \<leftarrow> ask (env_list e net);
     case r of
       Inl er \<Rightarrow> do { log_at LevelWarn ''watch list failed'' [(''err'', JStr er)]; ret Done }
     | Inr cs \<Rightarrow>
         if list_ex (\<lambda>c. cs_Names c = []) cs then ret Crashed
         else do { sync_listed e cs; ret Done }
   }"

subsection \<open>Probing a container\<close>

definition getContainerIP :: "'w env \<Rightarrow> string \<Rightarrow> ('w, err + string) prog" where
  "getContainerIP e name = do {
     r \<leftarrow> ask (env_inspect e name);
     net \<leftarrow> gets networkName;
     ret (case r of
       Inl er \<Rightarrow> Inl er
     | Inr info \<Rightarrow>
         (case in_Networks info net of
            None \<Rightarrow> Inl (''container '' @ name @ '' not attached to network '' @ net)
          | Some ip \<Rightarrow>
              if ip = [] then Inl (''container '' @ name @ '' not attached to network '' @ net) else Inr ip))
   }"

definition checkHTTPHealth :: "'w env \<Rightarrow> string \<Rightarrow> config \<Rightarrow> ('w, string \<times> bool) prog" where
  "checkHTTPHealth e ip cfg = do {
     r \<leftarrow> ask (env_get e (net_JoinHostPort ip (strconv_Itoa (TargetPort cfg))) (HealthPath cfg));
     ret (case r of
       Inl er \<Rightarrow> (ip, False)
     | Inr status \<Rightarrow> if 200 \<le> status \<and> status < 400 then (ip, True) else (ip, False))
   }"

definition checkPort :: "'w env \<Rightarrow> config \<Rightarrow> ('w, string \<times> bool) prog" where
  "checkPort e cfg = do {
     r \<leftarrow> getContainerIP e (Container cfg);
     case r of
       Inl er \<Rightarrow> ret ([], False)
     | Inr ip \<Rightarrow>
         if ip = [] then ret ([], False)
         else if Strategy cfg = ''pause'' \<and> HealthPath cfg = [] then do {
           log_at LevelWarn ''pause strategy requires docknap.health_path label; treating as not ready''
             [(''subdomain'', JStr (Subdomain cfg)), (''container'', JStr (Container cfg))];
           ret (ip, False)
         }
         else if HealthPath cfg \<noteq> [] then checkHTTPHealth e ip cfg
         else do {
           d \<leftarrow> ask (env_dial e (net_JoinHostPort ip (strconv_Itoa (TargetPort cfg))));
           ret (case d of Some er \<Rightarrow> (ip, False) | None \<Rightarrow> (ip, True))
         }
   }"

text \<open>\<open>url.Parse\<close> of \<open>http://ip:port\<close> fails for a negative port, which the label may give.\<close>

definition target_url :: "string \<Rightarrow> int \<Rightarrow> err + string" where
  "target_url ip port =
     (let u = ''http://'' @ ip @ '':'' @ show_int port
      in if port < 0 then Inl (''parse '' @ u @ '': invalid port'') else Inr u)"

definition getTargetURL :: "'w env \<Rightarrow> config \<Rightarrow> ('w, err + string) prog" where
  "getTargetURL e cfg = do {
     r \<leftarrow> getContainerIP e (Container cfg);
     ret (case r of
       Inl er \<Rightarrow> Inl er
     | Inr ip \<Rightarrow> if ip = [] then Inl (''no IP for '' @ Container cfg) else target_url ip (TargetPort cfg))
   }"

subsection \<open>Starting a container\<close>

definition acquireStartLock :: "string \<Rightarrow> ('w, nat) prog" where
  "acquireStartLock name = do {
     l \<leftarrow> gets (\<lambda>s. startLocks s name);
     case l of
       Some lock \<Rightarrow> ret lock
     | None \<Rightarrow> do {
         lock \<leftarrow> fresh_id;
         modify (\<lambda>s. s\<lparr>startLocks := (startLocks s)(name \<mapsto> lock)\<rparr>);
         ret lock
       }
   }"

definition start_failed :: "'w env \<Rightarrow> config \<Rightarrow> err \<Rightarrow> ('w, err option) prog" where
  "start_failed e cfg er = do {
     clearBootStart (Subdomain cfg);
     recordEvent e (Subdomain cfg) ''start_error'' er [];
     notify_at e ''start_error'' (Subdomain cfg) (Container cfg) er [];
     ret (Some er)
   }"

text \<open>The body of \<open>startContainer\<close> once the container was found not to run.\<close>

definition announce_start :: "'w env \<Rightarrow> config \<Rightarrow> ('w, unit) prog" where
  "announce_start e cfg = do {
     count_at mh_Starts (sub_label (Subdomain cfg));
     recordEvent e (Subdomain cfg) ''start_requested'' ''container start requested'' [];
     notify_at e ''start_requested'' (Subdomain cfg) (Container cfg) ''container start requested'' [];
     markBootStart e (Subdomain cfg);
     log_at LevelInfo ''starting container''
       [(''subdomain'', JStr (Subdomain cfg)), (''container'', JStr (Container cfg))]
   }"

definition start_stopped :: "'w env \<Rightarrow> config \<Rightarrow> inspect_info \<Rightarrow> ('w, err option) prog" where
  "start_stopped e cfg info = do {
     announce_start e cfg;
     bootStart \<leftarrow> time_Now e;
     r \<leftarrow> (if Strategy cfg = ''pause'' \<and> in_Paused info
           then ask (env_unpause e (Container cfg))
           else ask (env_start e (Container cfg)));
     case r of
       Some er \<Rightarrow> start_failed e cfg er
     | None \<Rightarrow> do {
         modify (\<lambda>s. s\<lparr>waiters := waiters s @ [(cfg, bootStart)]\<rparr>);
         ret None
       }
   }"

definition startContainer :: "'w env \<Rightarrow> config \<Rightarrow> ('w, err option) prog" where
  "startContainer e cfg = do {
     acquireStartLock (Container cfg);
     r \<leftarrow> ask (env_inspect e (Container cfg));
     case r of
       Inl er \<Rightarrow> ret (Some (''inspect: '' @ er))
     | Inr info \<Rightarrow>
         if in_Running info \<and> \<not> (Strategy cfg = ''pause'' \<and> in_Paused info) then ret None
         else start_stopped e cfg info
   }"

text \<open>What \<open>waitForReady\<close> does when the probe succeeds.\<close>

definition container_ready :: "'w env \<Rightarrow> config \<Rightarrow> time \<Rightarrow> string \<Rightarrow> ('w, unit) prog" where
  "container_ready e cfg bootStart ip = do {
     now \<leftarrow> time_Now e;
     let elapsed = time_Sub now bootStart;
     let flds = [(''elapsed_ms'', JInt (duration_Milliseconds elapsed)), (''ip'', JStr ip)];
     observe_at mh_StartDur (sub_label (Subdomain cfg)) (duration_Seconds elapsed);
     clearBootStart (Subdomain cfg);
     now1 \<leftarrow> time_Now e;
     set_startedAt (Subdomain cfg) now1;
     modify (\<lambda>s. s\<lparr>ipCache := (ipCache s)(Subdomain cfg \<mapsto> ip)\<rparr>);
     now2 \<leftarrow> time_Now e;
     modify (\<lambda>s. s\<lparr>ipCacheAt := (ipCacheAt s)(Subdomain cfg \<mapsto> now2)\<rparr>);
     recordEvent e (Subdomain cfg) ''ready'' ''container port is accepting connections'' flds;
     notify_at e ''ready'' (Subdomain cfg) (Container cfg) ''container port is accepting connections'' flds;
     log_at LevelInfo ''container ready''
       ([(''subdomain'', JStr (Subdomain cfg)), (''container'', JStr (Container cfg))] @ flds);
     broadcastReady (Subdomain cfg)
   }"

text \<open>One tick of \<open>waitForReady\<close> for one of the goroutines, which ends when it is ready or when
  the root context is done.\<close>

definition end_waiter :: "config \<times> time \<Rightarrow> ('w, unit) prog" where
  "end_waiter w = modify (\<lambda>s. s\<lparr>waiters := remove1 w (waiters s)\<rparr>)"

definition wait_tick :: "'w env \<Rightarrow> config \<times> time \<Rightarrow> ('w, unit) prog" where
  "wait_tick e w = do {
     d \<leftarrow> gets rootDone;
     if d then end_waiter w
     else do {
       p \<leftarrow> checkPort e (fst w);
       if \<not> snd p then ret ()
       else do { container_ready e (fst w) (snd w) (fst p); end_waiter w }
     }
   }"

subsection \<open>Invariants\<close>

context frame_invariant
begin

lemma keeps_put_state [preserve_rules]: "preserves P (modify (put_state sub st))"
  unfolding put_state_def by (intro preserves_modify frame_facts)

lemma keeps_set_startedAt [preserve_rules]: "preserves P (set_startedAt sub t)"
  unfolding set_startedAt_def by (intro preserves_modify frame_facts)

lemma keeps_recordEventLocked [preserve_rules]: "preserves P (recordEventLocked e sub t m f)"
  unfolding recordEventLocked_def store_event_def by (intro preserve_rules preserves_modify frame_facts)

lemma keeps_getContainerIP [preserve_rules]: "preserves P (getContainerIP e n)"
  unfolding getContainerIP_def by (intro preserve_rules)

lemma keeps_checkHTTPHealth [preserve_rules]: "preserves P (checkHTTPHealth e ip cfg)"
  unfolding checkHTTPHealth_def by (intro preserve_rules)

lemma keeps_checkPort [preserve_rules]: "preserves P (checkPort e cfg)"
  unfolding checkPort_def by (intro preserve_rules)

lemma keeps_getTargetURL [preserve_rules]: "preserves P (getTargetURL e cfg)"
  unfolding getTargetURL_def by (intro preserve_rules)

lemma keeps_acquireStartLock [preserve_rules]: "preserves P (acquireStartLock n)"
  unfolding acquireStartLock_def by (intro preserve_rules preserves_modify frame_facts)

lemma keeps_start_failed [preserve_rules]: "preserves P (start_failed e cfg er)"
  unfolding start_failed_def by (intro preserve_rules)

lemma keeps_announce_start [preserve_rules]: "preserves P (announce_start e cfg)"
  unfolding announce_start_def by (intro preserve_rules)

lemma keeps_start_stopped [preserve_rules]: "preserves P (start_stopped e cfg info)"
  unfolding start_stopped_def by (intro preserve_rules preserves_modify frame_facts)

lemma keeps_startContainer [preserve_rules]: "preserves P (startContainer e cfg)"
  unfolding startContainer_def by (intro preserve_rules)

lemma keeps_sync_state [preserve_rules]: "preserves P (sync_state e c cfg)"
  unfolding sync_state_def put_state_def by (intro preserve_rules preserves_modify frame_facts)

lemma keeps_container_ready [preserve_rules]: "preserves P (container_ready e cfg b ip)"
  unfolding container_ready_def by (intro preserve_rules preserves_modify frame_facts)

lemma keeps_end_waiter [preserve_rules]: "preserves P (end_waiter w)"
  unfolding end_waiter_def by (intro preserves_modify frame_facts)

lemma keeps_wait_tick [preserve_rules]: "preserves P (wait_tick e w)"
  unfolding wait_tick_def by (intro preserve_rules)

end

lemma labels_config_Some: "labels_config c s = Some cfg \<Longrightarrow> Subdomain cfg \<noteq> []"
  by (auto simp: labels_config_def dest: parseLabels_Some)

text \<open>A branch on a labelled container may use that its subdomain is not empty.\<close>

lemma preserves_labels_config:
  assumes "preserves P m" "\<And>cfg. Subdomain cfg \<noteq> [] \<Longrightarrow> preserves P (f cfg)"
  shows "preserves P (gets (labels_config c) \<bind> (\<lambda>p. case p of None \<Rightarrow> m | Some cfg \<Rightarrow> f cfg))"
proof (rule preservesI)
  fix s
  assume "P s"
  then show "P (exec (gets (labels_config c) \<bind> (\<lambda>p. case p of None \<Rightarrow> m | Some cfg \<Rightarrow> f cfg)) s)"
    using assms labels_config_Some [of c s]
    by (cases "labels_config c s") (auto simp: preserves_def)
qed

context service_invariant
begin

lemma keeps_register_config: "Subdomain cfg \<noteq> [] \<Longrightarrow> preserves P (register_config cfg)"
  unfolding register_config_def by (rule preserves_modify) (rule keeps_config_update)

lemma keeps_forget_container [preserve_rules]: "preserves P (forget_container e n cfg)"
  unfolding forget_container_def
  by (intro preserve_rules preserves_modify keeps_config_delete frame_facts)

lemma keeps_discover_state [preserve_rules]: "preserves P (discover_state e c cfg)"
  unfolding discover_state_def by (intro preserve_rules)

lemma keeps_discover_one: "Subdomain cfg \<noteq> [] \<Longrightarrow> preserves P (discover_one e c cfg)"
  unfolding discover_one_def by (intro preserve_rules keeps_register_config)

lemma keeps_sync_one: "Subdomain cfg \<noteq> [] \<Longrightarrow> preserves P (sync_one e c cfg)"
  unfolding sync_one_def sync_config_def by (intro preserve_rules keeps_register_config) simp

lemma keeps_discover_loop [preserve_rules]: "preserves P (discover_loop e cs)"
proof (induction cs)
  case (Cons c cs)
  then show ?case
    unfolding discover_loop.simps
    by (intro preserves_labels_config preserves_if preserves_bind keeps_discover_one) simp_all
qed simp

lemma keeps_discover [preserve_rules]: "preserves P (discover e)"
  unfolding discover_def by (intro preserve_rules)

lemma keeps_sync_register [preserve_rules]: "preserves P (sync_register e cs)"
proof (induction cs)
  case (Cons c cs)
  then show ?case
    unfolding sync_register.simps
    by (intro preserves_labels_config preserves_bind keeps_sync_one) simp_all
qed simp

lemma keeps_sync_listed [preserve_rules]: "preserves P (sync_listed e cs)"
  unfolding sync_listed_def by (intro preserve_rules)

lemma keeps_syncContainers [preserve_rules]: "preserves P (syncContainers e)"
  unfolding syncContainers_def by (intro preserve_rules)

end

text \<open>Services are registered under their own subdomain, which is not empty.\<close>

definition config_inv :: "'w docknap \<Rightarrow> bool" where
  "config_inv s \<longleftrightarrow>
     wf_gomap (configs s) \<and>
     (\<forall>k cfg. map_of (configs s) k = Some cfg \<longrightarrow> Subdomain cfg = k \<and> k \<noteq> [])"

interpretation config_service: service_invariant config_inv
  by (unfold_locales; (intro keeps_timers_of_fields)?) (auto simp: config_inv_def split: if_splits)

subsection \<open>What stays the same\<close>

text \<open>Equations as invariants: a program that keeps \<open>field s = x\<close> for every \<open>x\<close> does not change it.\<close>

lemma preserves_eq: "(\<And>x. preserves (\<lambda>s. f s = x) m) \<Longrightarrow> f (exec m s) = f s"
  by (simp add: preserves_def)

interpretation same_configs: frame_invariant "\<lambda>s. configs s = c" for c
  by unfold_locales auto

interpretation same_timers: frame_invariant "\<lambda>s. (timers s, idleTimers s) = t" for t
  by unfold_locales auto

lemma configs_idle [preserve_rules]:
  "preserves (\<lambda>s. configs s = x) (armIdleTimer e cfg)"
  "preserves (\<lambda>s. configs s = x) (resetIdleTimer e cfg)"
  "preserves (\<lambda>s. configs s = x) (cancelIdleTimer n)"
  by (rule keeps_timers_of_fields; simp)+

abbreviation settings :: "'w docknap \<Rightarrow> duration \<times> duration \<times> string" where
  "settings s \<equiv> (idleDefault s, startTimeoutDefault s, networkName s)"

interpretation same_settings: service_invariant "\<lambda>s. settings s = d" for d
  by (unfold_locales; (intro keeps_timers_of_fields)?) auto

lemma settings_discover_one [preserve_rules]: "preserves (\<lambda>s. settings s = x) (discover_one e c cfg)"
  "preserves (\<lambda>s. settings s = x) (sync_one e c cfg)"
  unfolding discover_one_def sync_one_def sync_config_def register_config_def
  by (intro preserve_rules preserves_modify; simp)+

lemma configs_discover_state [preserve_rules]: "preserves (\<lambda>s. configs s = x) (discover_state e c cfg)"
  unfolding discover_state_def by (intro preserve_rules)

lemma labels_config_cong: "settings s = settings s' \<Longrightarrow> labels_config c s = labels_config c s'"
  by (simp add: labels_config_def)

lemmas configs_kept = preserves_eq [of configs]
lemmas settings_kept = preserves_eq [of settings]

lemma configs_discover_one:
  "configs (exec (discover_one e c cfg) s) = AList.update (Subdomain cfg) cfg (configs s)"
proof -
  have "configs (exec (discover_state e c cfg) u) = configs u" for u
    by (rule configs_kept) (intro preserve_rules)
  then show ?thesis by (simp add: discover_one_def register_config_def)
qed

subsection \<open>Discovery registers the labelled containers\<close>

text \<open>The services of a listing, in its order.\<close>

definition listed_services :: "'w docknap \<Rightarrow> container_summary list \<Rightarrow> (string \<times> config) list" where
  "listed_services s cs =
     List.concat (List.map (\<lambda>c. case labels_config c s of
        None \<Rightarrow> []
      | Some cfg \<Rightarrow> [(Subdomain cfg, cfg\<lparr>Container := container_name c\<rparr>)]) cs)"

lemma listed_services_cong: "settings s = settings s' \<Longrightarrow> listed_services s cs = listed_services s' cs"
  unfolding listed_services_def using labels_config_cong [of s s'] by simp

lemma listed_services_Cons:
  "listed_services s (c # cs) =
    (case labels_config c s of
       None \<Rightarrow> []
     | Some cfg \<Rightarrow> [(Subdomain cfg, cfg\<lparr>Container := container_name c\<rparr>)]) @ listed_services s cs"
  by (simp add: listed_services_def)

lemma discover_loop_result:
  assumes "list_all (\<lambda>c. cs_Names c \<noteq> []) cs"
  shows "result (discover_loop e cs) s = Done
    \<and> map_of (configs (exec (discover_loop e cs) s)) k =
        (case map_of (rev (listed_services s cs)) k of
           None \<Rightarrow> map_of (configs s) k
         | Some cfg \<Rightarrow> Some cfg)"
  using assms
proof (induction cs arbitrary: s)
  case Nil
  then show ?case by (simp add: listed_services_def)
next
  case (Cons c cs)
  show ?case
  proof (cases "labels_config c s")
    case None
    with Cons show ?thesis by (simp add: listed_services_Cons)
  next
    case (Some cfg)
    let ?cfg = "cfg\<lparr>Container := container_name c\<rparr>"
    let ?s = "exec (discover_one e c ?cfg) s"
    have "settings ?s = settings s" by (rule settings_kept) (intro preserve_rules)
    then have "listed_services ?s cs = listed_services s cs" by (rule listed_services_cong)
    with Cons.IH [of ?s] Cons.prems Some show ?thesis
      by (simp add: listed_services_Cons configs_discover_one map_add_def split: option.splits)
  qed
qed

text \<open>C27: Discovery. When the daemon lists containers (each with a name), \<open>discover\<close> succeeds, and
  afterwards a subdomain belongs to the last listed container whose labels give this
  subdomain, with the configuration of its labels and its name without the slash; other
  subdomains are as before. Containers without proper labels register nothing.\<close>

theorem discover_registers:
  assumes "env_list e (networkName s) (world s) = (Inr cs, w)" "list_all (\<lambda>c. cs_Names c \<noteq> []) cs"
  shows "result (discover e) s = Done
    \<and> map_of (configs (exec (discover e) s)) k =
        (case map_of (rev (listed_services s cs)) k of
           None \<Rightarrow> map_of (configs s) k
         | Some cfg \<Rightarrow> Some cfg)"
proof -
  have "listed_services (s\<lparr>world := w\<rparr>) cs = listed_services s cs"
    by (rule listed_services_cong) simp
  with discover_loop_result [OF assms(2), of e "s\<lparr>world := w\<rparr>" k] show ?thesis
    by (simp add: discover_def assms(1) split: option.splits)
qed

subsection \<open>Synchronisation brings the registry in line with the listing\<close>

text \<open>The effect of one listed service on the configurations.\<close>

definition sync_entry :: "string \<times> config \<Rightarrow> (string, config) gomap \<Rightarrow> (string, config) gomap" where
  "sync_entry p m =
     (case map_of m (fst p) of
        None \<Rightarrow> AList.update (fst p) (snd p) m
      | Some old \<Rightarrow> if Container old = Container (snd p) then m else AList.update (fst p) (snd p) m)"

lemma configs_sync_one:
  "configs (exec (sync_one e c cfg) s) =
    sync_entry (Subdomain cfg, cfg\<lparr>Container := container_name c\<rparr>) (configs s)"
proof -
  have "configs (exec (sync_state e c cfg') u) = configs u" for cfg' u
    by (rule configs_kept) (intro preserve_rules)
  then show ?thesis
    by (simp add: sync_one_def sync_config_def register_config_def sync_entry_def split: option.splits)
qed

lemma configs_sync_register:
  "configs (exec (sync_register e cs) s) = fold sync_entry (listed_services s cs) (configs s)"
proof (induction cs arbitrary: s)
  case Nil
  then show ?case by (simp add: listed_services_def)
next
  case (Cons c cs)
  show ?case
  proof (cases "labels_config c s")
    case None
    with Cons show ?thesis by (simp add: listed_services_Cons)
  next
    case (Some cfg)
    let ?s = "exec (sync_one e c cfg) s"
    have "settings ?s = settings s" by (rule settings_kept) (intro preserve_rules)
    then have "listed_services ?s cs = listed_services s cs" by (rule listed_services_cong)
    with Cons.IH [of ?s] Some show ?thesis
      by (simp add: listed_services_Cons configs_sync_one)
  qed
qed

lemma lookup_sync_entry:
  "map_of (sync_entry p m) k =
    (if k \<noteq> fst p then map_of m k
     else case map_of m k of
       Some old \<Rightarrow> if Container old = Container (snd p) then Some old else Some (snd p)
     | None \<Rightarrow> Some (snd p))"
  by (auto simp: sync_entry_def split: option.splits)

lemma sync_fold_other: "k \<notin> fst ` set ps \<Longrightarrow> map_of (fold sync_entry ps m) k = map_of m k"
  by (induction ps arbitrary: m) (auto simp: lookup_sync_entry)

lemma sync_fold_listed:
  assumes "distinct (List.map fst ps)" "(k, cfg) \<in> set ps"
  shows "\<exists>cfg'. map_of (fold sync_entry ps m) k = Some cfg' \<and> Container cfg' = Container cfg"
  using assms
proof (induction ps arbitrary: m)
  case (Cons p ps)
  show ?case
  proof (cases "p = (k, cfg)")
    case True
    then have "k \<notin> fst ` set ps" using Cons.prems by auto
    then show ?thesis
      by (auto simp: True sync_fold_other lookup_sync_entry split: option.splits)
  next
    case False
    with Cons show ?thesis by auto
  qed
qed simp

lemma sync_fold_origin:
  "map_of (fold sync_entry ps m) k = Some cfg \<Longrightarrow>
    map_of m k = Some cfg \<or> (\<exists>cfg'. (k, cfg') \<in> set ps \<and> Container cfg = Container cfg')"
proof (induction ps arbitrary: m)
  case (Cons p ps)
  from Cons.IH [of "sync_entry p m"] Cons.prems show ?case
    by (cases p) (auto simp: lookup_sync_entry split: if_splits option.splits)
qed simp

abbreviation know :: "string \<times> config \<Rightarrow> (string, config) gomap \<Rightarrow> (string, config) gomap" where
  "know \<equiv> \<lambda>(k, cfg) m. AList.update (Container cfg) cfg m"

lemma fold_know_sound:
  "map_of (fold know cfgs m) n = Some cfg \<Longrightarrow>
    map_of m n = Some cfg \<or> (\<exists>k. (k, cfg) \<in> set cfgs \<and> Container cfg = n)"
proof (induction cfgs arbitrary: m)
  case (Cons p cfgs)
  from Cons.IH [of "know p m"] Cons.prems show ?case
    by (cases p) (auto split: if_splits)
qed simp

lemma fold_know_keep: "map_of m n \<noteq> None \<Longrightarrow> map_of (fold know cfgs m) n \<noteq> None"
proof (induction cfgs arbitrary: m)
  case (Cons p cfgs)
  then have "map_of (know p m) n \<noteq> None" by (cases p) auto
  with Cons.IH [of "know p m"] show ?case by simp
qed simp

lemma fold_know_complete:
  "(k, cfg) \<in> set cfgs \<Longrightarrow> map_of (fold know cfgs m) (Container cfg) \<noteq> None"
proof (induction cfgs arbitrary: m)
  case (Cons p cfgs)
  then show ?case
  proof (cases "p = (k, cfg)")
    case True
    then have "map_of (know p m) (Container cfg) \<noteq> None" by simp
    from fold_know_keep [OF this] show ?thesis by simp
  qed auto
qed simp

lemma known_sound:
  "map_of (known_containers cfgs) n = Some cfg \<Longrightarrow> \<exists>k. (k, cfg) \<in> set cfgs \<and> Container cfg = n"
  using fold_know_sound [of cfgs "[]" n cfg] by (simp add: known_containers_def)

lemma known_complete:
  "(k, cfg) \<in> set cfgs \<Longrightarrow> map_of (known_containers cfgs) (Container cfg) \<noteq> None"
  unfolding known_containers_def by (rule fold_know_complete)

lemma wf_known: "wf_gomap (known_containers cfgs)"
proof -
  have "wf_gomap m0 \<Longrightarrow> wf_gomap (fold know cfgs m0)" for m0
    by (induction cfgs arbitrary: m0) auto
  then show ?thesis by (simp add: known_containers_def)
qed

lemma configs_forget:
  "configs (exec (forget_container e n cfg) s) = AList.delete (Subdomain cfg) (configs s)"
proof -
  have "configs (exec (recordEventLocked e (Subdomain cfg) t m f) u) = configs u" for t m f u
    by (rule configs_kept) (intro preserve_rules)
  moreover have "configs (exec (cancelIdleTimer n) u) = configs u" for u
    by (rule configs_kept) (intro preserve_rules)
  ultimately show ?thesis by (simp add: forget_container_def)
qed

lemma configs_forget_loop:
  "map_of (configs (exec (for_each ks (\<lambda>(name, cfg). when_do (name \<notin> N) (forget_container e name cfg))) s)) k =
    (if \<exists>(name, cfg) \<in> set ks. name \<notin> N \<and> Subdomain cfg = k then None else map_of (configs s) k)"
proof (induction ks arbitrary: s)
  case (Cons p ks)
  obtain name cfg where p: "p = (name, cfg)" by force
  show ?case
    using Cons [of "if name \<in> N then s else exec (forget_container e name cfg) s"]
    by (auto simp: p configs_forget)
qed simp

text \<open>What the loop leaves registered has a container among the given names.\<close>

lemma forget_loop_keeps:
  assumes "config_inv s" "distinct (List.map (\<lambda>p. Container (snd p)) (configs s))" "configs u = configs s"
    and k: "map_of (configs (exec (for_each (known_containers (configs s))
      (\<lambda>(name, cfg). when_do (name \<notin> N) (forget_container e name cfg))) u)) k = Some cfg"
  shows "Container cfg \<in> N"
proof (rule ccontr)
  assume out: "Container cfg \<notin> N"
  have in_s: "map_of (configs s) k = Some cfg" and
    no: "\<not> (\<exists>(name, c) \<in> set (known_containers (configs s)). name \<notin> N \<and> Subdomain c = k)"
    using k by (auto simp: configs_forget_loop assms(3) split: if_splits)
  then have mem: "(k, cfg) \<in> set (configs s)" by (simp add: map_of_SomeD)
  obtain c where c: "map_of (known_containers (configs s)) (Container cfg) = Some c"
    using known_complete [OF mem] by auto
  then obtain k' where k': "(k', c) \<in> set (configs s)" "Container c = Container cfg"
    using known_sound by blast
  then have "(k', c) = (k, cfg)"
    using assms(2) mem inj_onD [of "\<lambda>p. Container (snd p)" "set (configs s)" "(k', c)" "(k, cfg)"]
    by (simp add: distinct_map)
  then have "Subdomain c = k" using assms(1) in_s by (simp add: config_inv_def)
  moreover have "(Container cfg, c) \<in> set (known_containers (configs s))"
    using c by (rule map_of_SomeD)
  ultimately show False using no out by auto
qed

lemma settings_forget_loop:
  "settings (exec (for_each ks (\<lambda>(name, cfg). when_do (name \<notin> N) (forget_container e name cfg))) s) = settings s"
  by (rule settings_kept) (intro preserve_rules)

text \<open>C3: Synchronisation. When the daemon lists containers (each with a name, no two labelled with
  one subdomain) and no two registered services share a container, \<open>syncContainers\<close> succeeds,
  and afterwards every listed service is registered with its container, and no service is
  registered whose container is not listed.\<close>

theorem sync_matches_listing:
  assumes "env_list e (networkName s) (world s) = (Inr cs, w)" "list_all (\<lambda>c. cs_Names c \<noteq> []) cs"
    and "config_inv s" "distinct (List.map (\<lambda>p. Container (snd p)) (configs s))"
    and "distinct (List.map fst (listed_services s cs))"
  shows "result (syncContainers e) s = Done
    \<and> (\<forall>k cfg. (k, cfg) \<in> set (listed_services s cs) \<longrightarrow>
        (\<exists>cfg'. map_of (configs (exec (syncContainers e) s)) k = Some cfg' \<and> Container cfg' = Container cfg))
    \<and> (\<forall>k cfg'. map_of (configs (exec (syncContainers e) s)) k = Some cfg' \<longrightarrow>
        Container cfg' \<in> container_name ` set cs)"
proof -
  define u where "u = s\<lparr>world := w\<rparr>"
  define N where "N = set (List.map container_name cs)"
  define v where "v = exec (for_each (known_containers (configs s))
      (\<lambda>(name, cfg). when_do (name \<notin> N) (forget_container e name cfg))) u"
  have lst: "listed_services v cs = listed_services s cs"
    by (rule listed_services_cong) (simp add: v_def settings_forget_loop u_def)
  have arm: "configs (exec (for_each toArm (armIdleTimer e)) x) = configs x" for toArm x
    by (rule configs_kept) (intro preserve_rules)
  have run: "configs (exec (syncContainers e) s) = fold sync_entry (listed_services s cs) (configs v)"
    using assms(2) lst
    by (simp add: syncContainers_def assms(1) sync_listed_def list_ex_iff list_all_iff arm
        configs_sync_register v_def u_def N_def)
  have ok: "result (syncContainers e) s = Done"
    using assms(2) by (simp add: syncContainers_def assms(1) list_ex_iff list_all_iff)
  have listed: "Container cfg \<in> N" if "(k, cfg) \<in> set (listed_services s cs)" for k cfg
    using that by (auto simp: listed_services_def N_def split: option.splits)
  have kept: "Container cfg \<in> N" if "map_of (configs v) k = Some cfg" for k cfg
    using forget_loop_keeps [OF assms(3,4), of u N e k cfg] that by (simp add: v_def u_def)
  show ?thesis
  proof (intro conjI allI impI)
    fix k cfg
    assume "(k, cfg) \<in> set (listed_services s cs)"
    then show "\<exists>cfg'. map_of (configs (exec (syncContainers e) s)) k = Some cfg' \<and> Container cfg' = Container cfg"
      unfolding run by (rule sync_fold_listed [OF assms(5)])
  next
    fix k cfg'
    assume "map_of (configs (exec (syncContainers e) s)) k = Some cfg'"
    then show "Container cfg' \<in> container_name ` set cs"
      using sync_fold_origin [of "listed_services s cs" "configs v" k cfg'] listed kept
      unfolding run by (auto simp: N_def)
  qed (rule ok)
qed

subsection \<open>Examples\<close>

definition example_container :: container_summary where
  "example_container =
     \<lparr>cs_Names = [''/app-1''],
      cs_Labels = [''docknap.enable'' \<mapsto> ''true'', ''docknap.subdomain'' \<mapsto> ''app'', ''docknap.target_port'' \<mapsto> ''80''],
      cs_State = ''exited''\<rparr>"

definition listing_env :: "container_summary list \<Rightarrow> nat env" where
  "listing_env cs = (example_env None)\<lparr>env_list := (\<lambda>_ w. (Inr cs, w))\<rparr>"

lemma Atoi_80: "strconv_Atoi ''80'' = Some 80"
  using Atoi_Itoa [of 80] by (simp add: strconv_Itoa_def show_int_def go_simps digit_def)

lemma example_services: "\<exists>cfg. Container cfg = ''app-1'' \<and> listed_services s [example_container] = [(''app'', cfg)]"
  by (simp add: listed_services_def labels_config_def parseLabels_def example_container_def Atoi_80
      container_name_def strings_TrimPrefix_def)

theorem discover_registers_witness:
  "map_of (configs (exec (discover (listing_env [example_container])) example_state)) ''app'' \<noteq> None"
proof -
  obtain cfg where "listed_services example_state [example_container] = [(''app'', cfg)]"
    using example_services by blast
  then show ?thesis
    using discover_registers [of "listing_env [example_container]" example_state "[example_container]" 7 "''app''"]
    by (simp add: listing_env_def) (simp add: example_container_def)
qed

theorem sync_matches_listing_witness:
  "map_of (configs (exec (syncContainers (listing_env [example_container])) example_state)) ''app'' \<noteq> None"
proof -
  obtain cfg where "listed_services example_state [example_container] = [(''app'', cfg)]"
    using example_services by blast
  then show ?thesis
    using sync_matches_listing [of "listing_env [example_container]" example_state "[example_container]" 7]
    by (simp add: listing_env_def config_inv_def) (auto simp: example_container_def)
qed

subsection \<open>Probing and starting\<close>

text \<open>A probe changes the world and perhaps the log.\<close>

definition probed :: "'w docknap \<Rightarrow> 'w docknap \<Rightarrow> bool" where
  "probed s u \<longleftrightarrow> u\<lparr>world := world s, logs := logs s\<rparr> = s"

lemma probed_refl: "probed s s"
  by (simp add: probed_def)

lemma probedD: "probed s u \<Longrightarrow> \<exists>w l. u = s\<lparr>world := w, logs := l\<rparr>"
proof -
  assume "probed s u"
  then have eq: "u\<lparr>world := world s, logs := logs s\<rparr> = s" by (simp add: probed_def)
  have "u = (u\<lparr>world := world s, logs := logs s\<rparr>)\<lparr>world := world u, logs := logs u\<rparr>" by simp
  also have "\<dots> = s\<lparr>world := world u, logs := logs u\<rparr>" by (simp only: eq)
  finally show ?thesis by blast
qed

lemma probed_ask [preserve_rules]: "preserves (probed s) (ask f)"
  by (rule preservesI) (auto simp: probed_def)

lemma probed_log_at [preserve_rules]: "preserves (probed s) (log_at l m f)"
  by (rule preservesI) (auto simp: probed_def)

lemma probed_getContainerIP [preserve_rules]: "preserves (probed s) (getContainerIP e n)"
  unfolding getContainerIP_def by (intro preserve_rules)

lemma probed_checkPort: "preserves (probed s) (checkPort e cfg)"
  unfolding checkPort_def checkHTTPHealth_def by (intro preserve_rules)

lemma exec_checkPort: "\<exists>w l. exec (checkPort e cfg) s = s\<lparr>world := w, logs := l\<rparr>"
  using preservesD [OF probed_checkPort probed_refl] by (rule probedD)

lemma checkPort_sel [simp]:
  "configs (exec (checkPort e cfg) s) = configs s"
  "bootStarts (exec (checkPort e cfg) s) = bootStarts s"
  "startedAt (exec (checkPort e cfg) s) = startedAt s"
  "ipCache (exec (checkPort e cfg) s) = ipCache s"
  "waiters (exec (checkPort e cfg) s) = waiters s"
  "timers (exec (checkPort e cfg) s) = timers s"
  "idleTimers (exec (checkPort e cfg) s) = idleTimers s"
  "states (exec (checkPort e cfg) s) = states s"
  "reg (exec (checkPort e cfg) s) = reg s" "mm (exec (checkPort e cfg) s) = mm s"
  "resp (exec (checkPort e cfg) s) = resp s" "recorder (exec (checkPort e cfg) s) = recorder s"
  "service_events (exec (checkPort e cfg) s) = service_events s"
  using exec_checkPort [of e cfg s] by auto

text \<open>A frozen container is never taken for ready by its open port. With strategy \<open>pause\<close> and no
  health path, \<open>checkPort\<close> answers no, whatever the container and the network do.\<close>

theorem pause_needs_health_path:
  assumes "Strategy cfg = ''pause''" "HealthPath cfg = []"
  shows "\<not> snd (result (checkPort e cfg) s)"
  using assms by (simp add: checkPort_def split: sum.splits)

theorem pause_needs_health_path_witness:
  "\<not> snd (result (checkPort (example_env None) (example_cfg\<lparr>Strategy := ''pause''\<rparr>)) example_state)"
  by (rule pause_needs_health_path) (simp_all add: example_cfg_def)

lemma broadcastReady_sel [simp]:
  "bootStarts (exec (broadcastReady sub) s) = bootStarts s"
  "startedAt (exec (broadcastReady sub) s) = startedAt s"
  "ipCache (exec (broadcastReady sub) s) = ipCache s"
  "waiters (exec (broadcastReady sub) s) = waiters s"
  "reg (exec (broadcastReady sub) s) = reg s" "mm (exec (broadcastReady sub) s) = mm s"
  "resp (exec (broadcastReady sub) s) = resp s"
  "service_events (exec (broadcastReady sub) s) = service_events s"
proof -
  have t: "bootStarts (try_send ch u) = bootStarts u" "startedAt (try_send ch u) = startedAt u"
    "ipCache (try_send ch u) = ipCache u" "waiters (try_send ch u) = waiters u" "resp (try_send ch u) = resp u"
    "reg (try_send ch u) = reg u" "mm (try_send ch u) = mm u" "service_events (try_send ch u) = service_events u" for ch and u :: "'a docknap"
    by (simp_all add: try_send_def)
  have loop: "(bootStarts v, startedAt v, ipCache v, waiters v, reg v, mm v, resp v, service_events v) =
      (bootStarts u, startedAt u, ipCache u, waiters u, reg u, mm u, resp u, service_events u)"
    if "v = exec (for_each chs (\<lambda>ch. modify (try_send ch))) u" for chs and u v :: "'a docknap"
    using that by (induction chs arbitrary: u) (simp_all add: t)
  show "bootStarts (exec (broadcastReady sub) s) = bootStarts s"
    "startedAt (exec (broadcastReady sub) s) = startedAt s"
    "ipCache (exec (broadcastReady sub) s) = ipCache s"
    "waiters (exec (broadcastReady sub) s) = waiters s"
    "reg (exec (broadcastReady sub) s) = reg s" "mm (exec (broadcastReady sub) s) = mm s"
    "resp (exec (broadcastReady sub) s) = resp s"
    "service_events (exec (broadcastReady sub) s) = service_events s"
    using loop [OF refl] by (simp_all add: broadcastReady_def put_state_def split: option.splits)
qed





lemma acquireStartLock_sel [simp]:
  "configs (exec (acquireStartLock k) s) = configs s"
  "bootStarts (exec (acquireStartLock k) s) = bootStarts s"
  "startedAt (exec (acquireStartLock k) s) = startedAt s"
  "waiters (exec (acquireStartLock k) s) = waiters s"
  "world (exec (acquireStartLock k) s) = world s"
  "reg (exec (acquireStartLock k) s) = reg s" "mm (exec (acquireStartLock k) s) = mm s"
  "resp (exec (acquireStartLock k) s) = resp s" "recorder (exec (acquireStartLock k) s) = recorder s"
  "timers (exec (acquireStartLock k) s) = timers s"
  "idleTimers (exec (acquireStartLock k) s) = idleTimers s"
  "service_events (exec (acquireStartLock k) s) = service_events s"
  by (simp_all add: acquireStartLock_def service_events_def fun_eq_iff split: option.splits)

lemma result_start_failed [simp]: "result (start_failed e cfg er) s = Some er"
  by (simp add: start_failed_def)

lemma markBootStart_sel [simp]:
  "bootStarts (exec (markBootStart e sub) s) =
    (bootStarts s)(sub \<mapsto> (case bootStarts s sub of Some t \<Rightarrow> t | None \<Rightarrow> fst (env_now e (world s))))"
  "waiters (exec (markBootStart e sub) s) = waiters s"
  "reg (exec (markBootStart e sub) s) = reg s" "mm (exec (markBootStart e sub) s) = mm s"
  "resp (exec (markBootStart e sub) s) = resp s"
  "service_events (exec (markBootStart e sub) s) = service_events s"
  by (auto simp: markBootStart_def fun_eq_iff split: option.splits)

lemma announce_start_sel [simp]:
  "bootStarts (exec (announce_start e cfg) s) (Subdomain cfg) \<noteq> None"
  "sub \<noteq> Subdomain cfg \<Longrightarrow> bootStarts (exec (announce_start e cfg) s) sub = bootStarts s sub"
  "bootStarts s (Subdomain cfg) = Some t \<Longrightarrow> bootStarts (exec (announce_start e cfg) s) (Subdomain cfg) = Some t"
  "waiters (exec (announce_start e cfg) s) = waiters s"
  "reg (exec (announce_start e cfg) s) = Counter_Add (mh_Starts (mm s)) (sub_label (Subdomain cfg)) 1 (reg s)"
  "ev_Type (last (service_events (exec (announce_start e cfg) s) (Subdomain cfg))) = ''start_requested''"
  by (simp_all add: announce_start_def)

lemma announce_bootStarts:
  "\<exists>t. bootStarts (exec (announce_start e cfg) s) = (bootStarts s)(Subdomain cfg \<mapsto> t)
     \<and> (\<forall>old. bootStarts s (Subdomain cfg) = Some old \<longrightarrow> t = old)"
proof -
  obtain t where t: "bootStarts (exec (announce_start e cfg) s) (Subdomain cfg) = Some t"
    using announce_start_sel(1) [of e cfg s] unfolding not_None_eq by blast
  then have "bootStarts (exec (announce_start e cfg) s) = (bootStarts s)(Subdomain cfg \<mapsto> t)"
    by (auto simp: fun_eq_iff)
  moreover have "t = old" if "bootStarts s (Subdomain cfg) = Some old" for old
    using announce_start_sel(3) [OF that, of e] t by simp
  ultimately show ?thesis by blast
qed

lemma announce_forget:
  "(bootStarts (exec (announce_start e cfg) s))(Subdomain cfg := None) = (bootStarts s)(Subdomain cfg := None)"
  by (auto simp: fun_eq_iff)

lemma start_failed_sel [simp]:
  "bootStarts (exec (start_failed e cfg er) s) = (bootStarts s)(Subdomain cfg := None)"
  "waiters (exec (start_failed e cfg er) s) = waiters s"
  "reg (exec (start_failed e cfg er) s) = reg s"
  "ev_Type (last (service_events (exec (start_failed e cfg er) s) (Subdomain cfg))) = ''start_error''"
  "ev_Message (last (service_events (exec (start_failed e cfg er) s) (Subdomain cfg))) = er"
  by (simp_all add: start_failed_def clearBootStart_def)



subsection \<open>Two defects of the synchronisation\<close>



text \<open>A changed label leaves the old route. When a registered container is recreated under its
  name with another subdomain label, synchronisation registers the new subdomain and keeps
  the old one, since the container is still listed.\<close>

theorem sync_keeps_stale_route:
  assumes "env_list e (networkName s) (world s) = (Inr [c], w)" "cs_Names c \<noteq> []"
    and "labels_config c s = Some cfg" "configs s = [(k, old)]" "k \<noteq> Subdomain cfg"
    and "Container old = container_name c"
  shows "map_of (configs (exec (syncContainers e) s)) k = Some old
    \<and> map_of (configs (exec (syncContainers e) s)) (Subdomain cfg) = Some (cfg\<lparr>Container := container_name c\<rparr>)"
proof -
  have lc: "labels_config c (s\<lparr>world := w\<rparr>) = Some cfg"
    using assms(3) labels_config_cong [of "s\<lparr>world := w\<rparr>" s c] by simp
  have arm: "configs (exec (for_each toArm (armIdleTimer e)) x) = configs x" for toArm x
    by (rule configs_kept) (intro preserve_rules)
  have "configs (exec (syncContainers e) s) = sync_entry (Subdomain cfg, cfg\<lparr>Container := container_name c\<rparr>) (configs s)"
    using assms(1,2,4,6) lc
    by (simp add: syncContainers_def sync_listed_def known_containers_def arm configs_sync_one)
  then show ?thesis using assms(4,5) by (simp add: lookup_sync_entry)
qed

theorem sync_keeps_stale_route_witness:
  "map_of (configs (exec (syncContainers (listing_env [example_container]))
      (example_state\<lparr>configs := [(''old'', example_cfg\<lparr>Subdomain := ''old''\<rparr>)]\<rparr>))) ''old'' \<noteq> None"
proof -
  let ?s = "example_state\<lparr>configs := [(''old'', example_cfg\<lparr>Subdomain := ''old''\<rparr>)]\<rparr>"
  obtain cfg where c: "labels_config example_container ?s = Some cfg" "Subdomain cfg = ''app''"
    by (simp add: labels_config_def parseLabels_def example_container_def Atoi_80 config_of_labels_def Let_def)
  have n: "container_name example_container = ''app-1''"
    by (simp add: container_name_def example_container_def strings_TrimPrefix_def)
  show ?thesis
    using sync_keeps_stale_route [of "listing_env [example_container]" ?s example_container 7 cfg "''old''"
        "example_cfg\<lparr>Subdomain := ''old''\<rparr>"] c n
    by (simp add: listing_env_def) (simp add: example_container_def example_cfg_def)
qed

end
