(* ===== verification/Templates.thy ===== *)
theory Templates
  imports Docker
begin

text \<open>
  \<open>templates.go\<close>, with \<open>loginErrorBlock\<close> and \<open>htmlEscape\<close> of \<open>auth.go\<close>: the pages. A page is the
  template's name and the data it gets (\<open>Page\<close>). A handler writes either to the server's
  writer or through the status recorder of the proxy (\<open>writer\<close>); both end in the response of
  the state.
\<close>

subsection \<open>Writing\<close>

datatype writer = Raw | Recorded

definition w_call :: "writer \<Rightarrow> wcall \<Rightarrow> ('w, unit) prog" where
  "w_call wr c =
     (case wr of
        Raw \<Rightarrow> modify (\<lambda>s. s\<lparr>resp := raw_call c (resp s)\<rparr>)
      | Recorded \<Rightarrow> modify (\<lambda>s. case rec_call c (recorder s, resp s) of
          (rc, w) \<Rightarrow> s\<lparr>recorder := rc, resp := w\<rparr>))"

definition set_header :: "string \<Rightarrow> string \<Rightarrow> ('w, unit) prog" where
  "set_header k v = modify (\<lambda>s. s\<lparr>resp := rw_Set k v (resp s)\<rparr>)"

definition respond :: "(response \<Rightarrow> response) \<Rightarrow> ('w, unit) prog" where
  "respond f = modify (\<lambda>s. s\<lparr>resp := f (resp s)\<rparr>)"

definition http_error_to :: "writer \<Rightarrow> string \<Rightarrow> int \<Rightarrow> ('w, unit) prog" where
  "http_error_to wr msg code = do {
     respond (\<lambda>w. w\<lparr>rw_header := AList.delete ''Content-Length'' (rw_header w)\<rparr>);
     set_header ''Content-Type'' ''text/plain; charset=utf-8'';
     set_header ''X-Content-Type-Options'' ''nosniff'';
     w_call wr (WHeader code);
     w_call wr (WBody (Text (msg @ [chr 10])))
   }"

text \<open>The test of the renderers whether the writer is the recorder and has sent its header.\<close>

definition already_sent :: "writer \<Rightarrow> 'w docknap \<Rightarrow> bool" where
  "already_sent wr s \<longleftrightarrow> wr = Recorded \<and> headersSent (recorder s)"

subsection \<open>Escaping\<close>

definition htmlEscape :: "string \<Rightarrow> string" where
  "htmlEscape s =
     List.concat (List.map (\<lambda>c.
       if c = CHR ''&'' then ''&amp;''
       else if c = CHR ''<'' then ''&lt;''
       else if c = CHR ''>'' then ''&gt;''
       else if c = CHR 0x22 then ''&quot;''
       else if c = CHR 0x27 then ''&#39;''
       else [c]) s)"

definition loginErrorText :: "string \<Rightarrow> string" where
  "loginErrorText errCode =
     (if errCode = ''invalid'' then ''invalid credentials''
      else if errCode = ''missing'' then ''username and password required''
      else if errCode = ''method'' then ''unsupported method''
      else if errCode = ''bad_request'' then ''bad request''
      else if errCode = ''rate_limited'' then ''too many attempts, try again shortly''
      else errCode)"

definition loginErrorBlock :: "string \<Rightarrow> string" where
  "loginErrorBlock errCode =
     (if errCode = [] then []
      else ''<div class='' @ [CHR 0x22] @ ''err'' @ [CHR 0x22] @ ''>[!] '' @
           htmlEscape (loginErrorText errCode) @ ''</div>'')"

text \<open>\<open>%q\<close> for ASCII text; printable text outside ASCII is kept (the escapes of its
  unprintable characters are left out).\<close>

definition quote_char :: "char \<Rightarrow> string" where
  "quote_char c =
     (if c = CHR 0x22 then [CHR 0x5C, CHR 0x22]
      else if c = CHR 0x5C then [CHR 0x5C, CHR 0x5C]
      else if c = CHR 0x07 then [CHR 0x5C, CHR ''a'']
      else if c = CHR 0x08 then [CHR 0x5C, CHR ''b'']
      else if c = CHR 0x0C then [CHR 0x5C, CHR ''f'']
      else if c = CHR 0x0A then [CHR 0x5C, CHR ''n'']
      else if c = CHR 0x0D then [CHR 0x5C, CHR ''r'']
      else if c = CHR 0x09 then [CHR 0x5C, CHR ''t'']
      else if c = CHR 0x0B then [CHR 0x5C, CHR ''v'']
      else if byte c < 32 \<or> byte c = 127
      then [CHR 0x5C, CHR ''x'', ''0123456789abcdef'' ! (byte c div 16), ''0123456789abcdef'' ! (byte c mod 16)]
      else [c])"

definition strconv_Quote :: "string \<Rightarrow> string" where
  "strconv_Quote s = [CHR 0x22] @ List.concat (List.map quote_char s) @ [CHR 0x22]"

definition bootJSON :: "string list \<Rightarrow> string" where
  "bootJSON boot = ''['' @ strings_Join (List.map strconv_Quote boot) '','' @ '']''"

subsection \<open>Pages\<close>

definition theme_of :: "string \<Rightarrow> theme" where
  "theme_of name =
     (case themes name of Some t \<Rightarrow> t | None \<Rightarrow> the (themes ''green''))"

definition orElse :: "string \<Rightarrow> string \<Rightarrow> string" where
  "orElse s dflt = (if s = [] then dflt else s)"

text \<open>The data of the pages; a template gets the fields by their names.\<close>

record loading_page =
  ld_Subdomain :: string
  ld_Title :: string
  ld_Subtitle :: string
  ld_Icon :: string
  ld_ThemeBG :: string
  ld_ThemeFG :: string
  ld_ThemeDim :: string
  ld_ThemeAccent :: string
  ld_ThemeBorder :: string
  ld_Timeout :: int
  ld_ShowLogs :: string
  ld_ShowStats :: string
  ld_BootLines :: string

record admin_page =
  ad_DocknapVersion :: string
  ad_CSRFToken :: string

record login_page =
  lo_ErrBlock :: string
  lo_Next :: string

record notfound_page =
  nf_Subdomain :: string

definition loading_fields :: "loading_page \<Rightarrow> (string \<times> jval) list" where
  "loading_fields d =
     [(''Subdomain'', JStr (ld_Subdomain d)), (''Title'', JStr (ld_Title d)), (''Subtitle'', JStr (ld_Subtitle d)),
      (''Icon'', JStr (ld_Icon d)), (''ThemeBG'', JStr (ld_ThemeBG d)), (''ThemeFG'', JStr (ld_ThemeFG d)),
      (''ThemeDim'', JStr (ld_ThemeDim d)), (''ThemeAccent'', JStr (ld_ThemeAccent d)),
      (''ThemeBorder'', JStr (ld_ThemeBorder d)), (''Timeout'', JInt (ld_Timeout d)),
      (''ShowLogs'', JStr (ld_ShowLogs d)), (''ShowStats'', JStr (ld_ShowStats d)), (''BootLines'', JStr (ld_BootLines d))]"

definition admin_fields :: "admin_page \<Rightarrow> (string \<times> jval) list" where
  "admin_fields d = [(''DocknapVersion'', JStr (ad_DocknapVersion d)), (''CSRFToken'', JStr (ad_CSRFToken d))]"

definition login_fields :: "login_page \<Rightarrow> (string \<times> jval) list" where
  "login_fields d = [(''ErrBlock'', JStr (lo_ErrBlock d)), (''Next'', JStr (lo_Next d))]"

definition notfound_fields :: "notfound_page \<Rightarrow> (string \<times> jval) list" where
  "notfound_fields d = [(''Subdomain'', JStr (nf_Subdomain d))]"

definition loadingData :: "config \<Rightarrow> loading_page" where
  "loadingData cfg =
     (let theme = theme_of (Theme cfg);
          boot = (if BootMessages cfg = [] then strings_Split CHR ''|'' defaultBootMessages
                  else BootMessages cfg)
      in \<lparr>ld_Subdomain = Subdomain cfg,
          ld_Title = orElse (Title cfg) (Subdomain cfg),
          ld_Subtitle = orElse (Subtitle cfg) ''service is starting up'',
          ld_Icon = orElse (Icon cfg) [CHR 0xE2, CHR 0x97, CHR 0x90],
          ld_ThemeBG = BG theme, ld_ThemeFG = FG theme, ld_ThemeDim = Dim theme,
          ld_ThemeAccent = Accent theme, ld_ThemeBorder = Border theme,
          ld_Timeout = f64_to_int (duration_Seconds (StartupTimeout cfg)),
          ld_ShowLogs = (if ShowLogs cfg then ''true'' else ''false''),
          ld_ShowStats = (if ShowStats cfg then ''true'' else ''false''),
          ld_BootLines = bootJSON boot\<rparr>)"

definition serveLoading :: "writer \<Rightarrow> request \<Rightarrow> config \<Rightarrow> ('w, unit) prog" where
  "serveLoading wr r cfg = do {
     sent \<leftarrow> gets (already_sent wr);
     if sent then ret ()
     else do {
       set_header ''Content-Type'' ''text/html; charset=utf-8'';
       set_header ''Cache-Control'' ''no-store'';
       w_call wr (WHeader 503);
       w_call wr (WBody (Page ''loading.html'' (loading_fields (loadingData cfg))))
     }
   }"

definition csrfCookieName :: string where "csrfCookieName = ''docknap_csrf''"

text \<open>\<open>renderAdminCtx\<close> of \<open>handlers_admin.go\<close>: the token that goes into the admin page.\<close>

definition renderAdminCtx :: "request \<Rightarrow> string" where
  "renderAdminCtx r = (case request_Cookie r csrfCookieName of Some v \<Rightarrow> v | None \<Rightarrow> [])"

definition renderAdmin :: "'w env \<Rightarrow> request \<Rightarrow> ('w, unit) prog" where
  "renderAdmin e r = do {
     set_header ''Content-Type'' ''text/html; charset=utf-8'';
     set_header ''Cache-Control'' ''no-store'';
     w_call Raw (WHeader 200);
     w_call Raw (WBody (Page ''admin.html''
       (admin_fields \<lparr>ad_DocknapVersion = env_version e, ad_CSRFToken = renderAdminCtx r\<rparr>)))
   }"

definition renderLogin :: "writer \<Rightarrow> request \<Rightarrow> string \<Rightarrow> string \<Rightarrow> ('w, unit) prog" where
  "renderLogin wr r errCode next = do {
     sent \<leftarrow> gets (already_sent wr);
     if sent then ret ()
     else do {
       set_header ''Content-Type'' ''text/html; charset=utf-8'';
       set_header ''Cache-Control'' ''no-store'';
       w_call wr (WHeader 401);
       w_call wr (WBody (Page ''login.html''
         (login_fields \<lparr>lo_ErrBlock = loginErrorBlock errCode, lo_Next = next\<rparr>)))
     }
   }"

definition renderNotFound :: "string \<Rightarrow> ('w, unit) prog" where
  "renderNotFound sub = do {
     set_header ''Content-Type'' ''text/html; charset=utf-8'';
     set_header ''Cache-Control'' ''no-store'';
     w_call Raw (WHeader 404);
     w_call Raw (WBody (Page ''notfound.html'' (notfound_fields \<lparr>nf_Subdomain = sub\<rparr>)))
   }"

text \<open>\<open>renderTemplate\<close> of \<open>handlers_status.go\<close>, which no handler calls.\<close>

definition renderTemplate :: "string \<Rightarrow> (string \<times> jval) list \<Rightarrow> ('w, unit) prog" where
  "renderTemplate name data = w_call Raw (WBody (Page (name @ ''.html'') data))"

context frame_invariant
begin

lemma keeps_w_call [preserve_rules]: "preserves P (w_call wr c)"
  unfolding w_call_def
  by (cases wr) (auto intro!: preserves_modify frame_facts split: prod.splits)

lemma keeps_set_header [preserve_rules]: "preserves P (set_header k v)"
  unfolding set_header_def by (intro preserves_modify frame_facts)

lemma keeps_respond [preserve_rules]: "preserves P (respond f)"
  unfolding respond_def by (intro preserves_modify frame_facts)

lemma keeps_http_error_to [preserve_rules]: "preserves P (http_error_to wr m c)"
  unfolding http_error_to_def by (intro preserve_rules)

lemma keeps_serveLoading [preserve_rules]: "preserves P (serveLoading wr r cfg)"
  unfolding serveLoading_def by (intro preserve_rules)

lemma keeps_renderAdmin [preserve_rules]: "preserves P (renderAdmin e r)"
  unfolding renderAdmin_def by (intro preserve_rules)

lemma keeps_renderLogin [preserve_rules]: "preserves P (renderLogin wr r ec next)"
  unfolding renderLogin_def by (intro preserve_rules)

end

lemma exec_w_call_Raw [simp]: "exec (w_call Raw c) s = s\<lparr>resp := raw_call c (resp s)\<rparr>"
  by (simp add: w_call_def)

lemma exec_set_header [simp]: "exec (set_header k v) s = s\<lparr>resp := rw_Set k v (resp s)\<rparr>"
  by (simp add: set_header_def)

lemma exec_respond [simp]: "exec (respond f) s = s\<lparr>resp := f (resp s)\<rparr>"
  by (simp add: respond_def)

lemma exec_renderLogin_Raw:
  "exec (renderLogin Raw r ec next) s =
    s\<lparr>resp := rw_Write (Page ''login.html'' (login_fields \<lparr>lo_ErrBlock = loginErrorBlock ec, lo_Next = next\<rparr>))
        (rw_WriteHeader 401 (rw_Set ''Cache-Control'' ''no-store''
          (rw_Set ''Content-Type'' ''text/html; charset=utf-8'' (resp s))))\<rparr>"
  by (simp add: renderLogin_def already_sent_def)

subsection \<open>Properties\<close>

text \<open>Reading a JavaScript string literal from its opening quote.\<close>

fun js_body :: "string \<Rightarrow> (string \<times> string) option" where
  "js_body [] = None"
| "js_body (c # s) =
     (if c = CHR 0x22 then Some ([], s)
      else if c = CHR 0x5C then
        (case s of [] \<Rightarrow> None | d # t \<Rightarrow> map_option (\<lambda>(a, b). (d # a, b)) (js_body t))
      else map_option (\<lambda>(a, b). (c # a, b)) (js_body s))"

definition js_string :: "string \<Rightarrow> (string \<times> string) option" where
  "js_string s = (case s of [] \<Rightarrow> None | c # t \<Rightarrow> if c = CHR 0x22 then js_body t else None)"

definition printable :: "char \<Rightarrow> bool" where
  "printable c \<longleftrightarrow> 32 \<le> byte c \<and> byte c \<le> 126"

lemma js_body_quote:
  "list_all printable s \<Longrightarrow> js_body (List.concat (List.map quote_char s) @ CHR 0x22 # rest) = Some (s, rest)"
proof (induction s)
  case (Cons c s)
  then have "byte c \<noteq> 7" "byte c \<noteq> 8" "byte c \<noteq> 12" "byte c \<noteq> 10" "byte c \<noteq> 13" "byte c \<noteq> 9" "byte c \<noteq> 11"
    "\<not> byte c < 32" "byte c \<noteq> 127"
    by (auto simp: printable_def)
  then have "c \<noteq> CHR 0x07" "c \<noteq> CHR 0x08" "c \<noteq> CHR 0x0C" "c \<noteq> CHR 0x0A" "c \<noteq> CHR 0x0D" "c \<noteq> CHR 0x09" "c \<noteq> CHR 0x0B"
    by (auto simp: byte_def)
  with Cons \<open>\<not> byte c < 32\<close> \<open>byte c \<noteq> 127\<close> show ?case by (simp add: quote_char_def)
qed simp

fun js_array_body :: "nat \<Rightarrow> string \<Rightarrow> string list option" where
  "js_array_body 0 s = None"
| "js_array_body (Suc n) s =
     (case js_string s of
        Some (x, r) \<Rightarrow>
          (if r = '']'' then Some [x]
           else if prefix '','' r then map_option (\<lambda>xs. x # xs) (js_array_body n (tl r)) else None)
      | None \<Rightarrow> None)"

lemma js_array_Join:
  assumes "list_all (list_all printable) xs" "xs \<noteq> []" "length xs \<le> n"
  shows "js_array_body n (strings_Join (List.map strconv_Quote xs) '','' @ '']'') = Some xs"
  using assms
proof (induction xs arbitrary: n rule: induct_list012)
  case (2 x)
  then show ?case
    by (cases n) (simp_all add: strconv_Quote_def js_string_def js_body_quote)
next
  case (3 x y zs)
  then obtain m where n: "n = Suc m" "length (y # zs) \<le> m" by (cases n) auto
  with 3 have "js_array_body m (strings_Join (List.map strconv_Quote (y # zs)) '','' @ '']'') = Some (y # zs)"
    by simp
  moreover have "js_string (strings_Join (List.map strconv_Quote (x # y # zs)) '','' @ '']'') =
      Some (x, '','' @ strings_Join (List.map strconv_Quote (y # zs)) '','' @ '']'')"
    using 3 by (simp add: strconv_Quote_def js_string_def js_body_quote)
  ultimately show ?case by (simp add: n)
qed simp

text \<open>The boot messages in the page are the configured ones. For messages of printable ASCII, the
  array literal that \<open>bootJSON\<close> puts into the script reads back as the list of messages: no
  message can end its string early.\<close>

theorem bootJSON_reads_back:
  assumes "list_all (list_all printable) boot" "boot \<noteq> []"
  shows "\<exists>body. bootJSON boot = ''['' @ body \<and> js_array_body (length boot) body = Some boot"
  using js_array_Join [OF assms order_refl] by (auto simp: bootJSON_def)

theorem bootJSON_reads_back_witness:
  "\<exists>body. bootJSON [[CHR 0x22, CHR 0x5C], ''ok''] = ''['' @ body \<and> js_array_body 2 body = Some [[CHR 0x22, CHR 0x5C], ''ok'']"
  using bootJSON_reads_back [of "[[CHR 0x22, CHR 0x5C], ''ok'']"]
  by (simp add: printable_def byte_def numeral_2_eq_2)

text \<open>A boot message can end the script element. The quoting leaves \<open></script>\<close> as it is, and the
  result goes into the page as trusted script text.\<close>

theorem bootJSON_ends_script:
  "bootJSON [''</script><script>''] = ''['' @ [CHR 0x22] @ ''</script><script>'' @ [CHR 0x22] @ '']''"
  by (simp add: bootJSON_def strconv_Quote_def quote_char_def byte_def)

text \<open>No markup from the error code. Whatever error code the login link carries, the error block
  is the fixed frame around a text without angle brackets and quotes.\<close>

theorem loginErrorBlock_safe:
  "loginErrorBlock c = [] \<or>
   (\<exists>t. loginErrorBlock c = ''<div class='' @ [CHR 0x22] @ ''err'' @ [CHR 0x22] @ ''>[!] '' @ t @ ''</div>'' \<and>
        list_all (\<lambda>x. x \<noteq> CHR ''<'' \<and> x \<noteq> CHR ''>'' \<and> x \<noteq> CHR 0x22 \<and> x \<noteq> CHR 0x27) t)"
proof -
  have "list_all (\<lambda>x. x \<noteq> CHR ''<'' \<and> x \<noteq> CHR ''>'' \<and> x \<noteq> CHR 0x22 \<and> x \<noteq> CHR 0x27) (htmlEscape t)" for t
    by (induction t) (auto simp: htmlEscape_def)
  then show ?thesis unfolding loginErrorBlock_def by auto
qed

end
