(* ===== verification/Auth.thy ===== *)
theory Auth
  imports Templates
begin

text \<open>
  \<open>auth.go\<close>: who may use the admin pages. \<open>requireAuth\<close> and \<open>requireCSRF\<close> wrap a handler;
  \<open>handleLogin\<close> with \<open>processLogin\<close> issues a session, \<open>handleLogout\<close> revokes it. The locale
  \<open>auth_gate\<close> is the contract of a wrapper that decides before the handler runs; it is
  interpreted on both wrappers.
\<close>

definition authCookieName :: string where "authCookieName = ''docknap_auth''"
definition csrfHeaderName :: string where "csrfHeaderName = ''X-CSRF-Token''"
definition csrfFormField :: string where "csrfFormField = ''csrf''"
definition authCookieMaxAge :: duration where "authCookieMaxAge = 12 * Hour"
definition loginPath :: string where "loginPath = ''/_docknap/auth/login''"

subsection \<open>Credentials\<close>

definition authEnabled :: "'w docknap \<Rightarrow> bool" where
  "authEnabled s \<longleftrightarrow> adminUser s \<noteq> [] \<and> 0 < length (adminPassHash s)"

definition hashPassword :: "string \<Rightarrow> string" where
  "hashPassword pass = sha256_Sum256 pass"

definition verifyCredentials :: "string \<Rightarrow> string \<Rightarrow> 'w docknap \<Rightarrow> bool" where
  "verifyCredentials user pass s \<longleftrightarrow>
     ConstantTimeCompare (sha256_Sum256 user) (adminUserHash s) = 1 \<and>
     ConstantTimeCompare (sha256_Sum256 pass) (adminPassHash s) = 1"

definition parseBasicAuth :: "string \<Rightarrow> (string \<times> string) option" where
  "parseBasicAuth header =
     (if \<not> prefix ''Basic '' header then None
      else case std_DecodeString (strings_TrimPrefix header ''Basic '') of
        None \<Rightarrow> None
      | Some decoded \<Rightarrow> strings_Cut CHR '':'' decoded)"

text \<open>The operations of the session store and the rate limiter, with their clock readings.\<close>

definition sessions_valid :: "'w env \<Rightarrow> string \<Rightarrow> ('w, bool) prog" where
  "sessions_valid e tok = do {
     ss \<leftarrow> gets sessions;
     if tok = [] \<or> map_of (tokens ss) tok = None then ret False
     else do {
       now \<leftarrow> time_Now e;
       (if fst (session_valid now now tok ss)
        then do {
          now' \<leftarrow> time_Now e;
          modify (\<lambda>s. s\<lparr>sessions := snd (session_valid now now' tok ss)\<rparr>);
          ret True
        }
        else do {
          modify (\<lambda>s. s\<lparr>sessions := snd (session_valid now now tok ss)\<rparr>);
          ret False
        })
     }
   }"

definition sessions_issue :: "'w env \<Rightarrow> ('w, err + string) prog" where
  "sessions_issue e = do {
     r \<leftarrow> ask (env_rand e 32);
     case r of
       Inl er \<Rightarrow> ret (Inl er)
     | Inr b \<Rightarrow> do {
         now \<leftarrow> time_Now e;
         modify (\<lambda>s. s\<lparr>sessions := snd (session_issue (Inr b) now (sessions s))\<rparr>);
         ret (Inr (rawurl_EncodeToString b))
       }
   }"

definition sessions_revoke :: "string \<Rightarrow> ('w, unit) prog" where
  "sessions_revoke tok = modify (\<lambda>s. s\<lparr>sessions := session_revoke tok (sessions s)\<rparr>)"

definition rateLimiter_allow :: "'w env \<Rightarrow> string \<Rightarrow> ('w, bool) prog" where
  "rateLimiter_allow e key = do {
     rl \<leftarrow> gets rateLimiter;
     case rl of
       None \<Rightarrow> ret True
     | Some _ \<Rightarrow> do {
         now \<leftarrow> time_Now e;
         modify (\<lambda>s. s\<lparr>rateLimiter := snd (rate_allow key now rl)\<rparr>);
         ret (fst (rate_allow key now rl))
       }
   }"

definition checkRequestAuth :: "'w env \<Rightarrow> request \<Rightarrow> ('w, bool) prog" where
  "checkRequestAuth e r =
     (case parseBasicAuth (header_Get r ''Authorization'') of
        Some (user, pass) \<Rightarrow> gets (verifyCredentials user pass)
      | None \<Rightarrow>
          (case request_Cookie r authCookieName of
             None \<Rightarrow> ret False
           | Some v \<Rightarrow> if v = [] then ret False else sessions_valid e v))"

subsection \<open>Wrappers\<close>

definition serveLogin :: "request \<Rightarrow> string \<Rightarrow> ('w, unit) prog" where
  "serveLogin r errMsg = renderLogin Raw r errMsg (query_Get r ''next'')"

definition fail_labels :: "request \<Rightarrow> string \<Rightarrow> label_map" where
  "fail_labels r reason = [''path'' \<mapsto> rq_Path r, ''reason'' \<mapsto> reason]"

definition failAuth :: "request \<Rightarrow> string \<Rightarrow> ('w, unit) prog" where
  "failAuth r reason = do {
     count_at mh_AuthFail (fail_labels r reason);
     log_at LevelWarn ''auth failed''
       [(''path'', JStr (rq_Path r)), (''reason'', JStr reason), (''remote'', JStr (rq_RemoteAddr r))];
     serveLogin r ''invalid''
   }"

definition requireAuth :: "'w env \<Rightarrow> (request \<Rightarrow> ('w, unit) prog) \<Rightarrow> request \<Rightarrow> ('w, unit) prog" where
  "requireAuth e next r = do {
     en \<leftarrow> gets authEnabled;
     if \<not> en then next r
     else do {
       ok \<leftarrow> checkRequestAuth e r;
       if ok then next r
       else if header_Get r ''Authorization'' \<noteq> [] then failAuth r ''invalid''
       else serveLogin r []
     }
   }"

definition csrf_rejected :: "request \<Rightarrow> string \<Rightarrow> string \<Rightarrow> ('w, unit) prog" where
  "csrf_rejected r what msg = do {
     log_at LevelWarn what [(''path'', JStr (rq_Path r)), (''remote'', JStr (rq_RemoteAddr r))];
     respond (http_Error msg 403)
   }"

text \<open>The token of the header, or else of the form.\<close>

definition csrf_token :: "request \<Rightarrow> string" where
  "csrf_token r =
     (if header_Get r csrfHeaderName = [] then lookup_or [] (rq_PostFormValue r) csrfFormField
      else header_Get r csrfHeaderName)"

definition requireCSRF :: "(request \<Rightarrow> ('w, unit) prog) \<Rightarrow> request \<Rightarrow> ('w, unit) prog" where
  "requireCSRF next r = do {
     en \<leftarrow> gets authEnabled;
     if \<not> en \<or> rq_Method r \<noteq> ''POST'' then next r
     else if header_Get r ''Authorization'' \<noteq> [] then next r
     else case request_Cookie r csrfCookieName of
       None \<Rightarrow> csrf_rejected r ''csrf rejected: missing token'' ''csrf token missing''
     | Some v \<Rightarrow>
         if v = [] then csrf_rejected r ''csrf rejected: missing token'' ''csrf token missing''
         else if ConstantTimeCompare v (csrf_token r) \<noteq> 1
         then csrf_rejected r ''csrf rejected: token mismatch'' ''csrf token invalid''
         else next r
   }"

subsection \<open>Login and logout\<close>

definition safeRedirect :: "string \<Rightarrow> string \<Rightarrow> string" where
  "safeRedirect next defaultPath =
     (if next = [] then defaultPath
      else if \<not> prefix ''/'' next \<or> prefix ''//'' next \<or> prefix [CHR ''/'', CHR 0x5C] next then defaultPath
      else if sublist ''://'' next then defaultPath
      else next)"

definition clientKey :: "request \<Rightarrow> 'w docknap \<Rightarrow> string" where
  "clientKey r s =
     (let xff = header_Get r ''X-Forwarded-For'';
          first = strings_TrimSpace (hd (strings_Split CHR '','' xff))
      in if trustedProxy (trustedProxies s) r \<and> xff \<noteq> [] \<and> first \<noteq> [] then first
         else remote_host r)"

definition requestIsHTTPS :: "request \<Rightarrow> 'w docknap \<Rightarrow> bool" where
  "requestIsHTTPS r s =
     (if rq_TLS r then True
      else if \<not> trustedProxy (trustedProxies s) r then False
      else strings_EqualFold (header_Get r ''X-Forwarded-Proto'') ''https'')"

definition login_error_url :: "string \<Rightarrow> string \<Rightarrow> string" where
  "login_error_url next errCode =
     (let target = safeRedirect next loginPath; sep = (if CHR ''?'' \<in> set target then ''&'' else ''?'')
      in target @ sep @ ''error='' @ url_QueryEscape errCode)"

definition failLogin :: "request \<Rightarrow> string \<Rightarrow> string \<Rightarrow> ('w, unit) prog" where
  "failLogin r next errCode = respond (http_Redirect r (login_error_url next errCode) 302)"

definition session_cookie :: "string \<Rightarrow> string \<Rightarrow> bool \<Rightarrow> bool \<Rightarrow> int \<Rightarrow> cookie" where
  "session_cookie name v httpOnly secure maxAge =
     \<lparr>ck_Name = name, ck_Value = v, ck_Path = ''/'', ck_HttpOnly = httpOnly, ck_Secure = secure,
      ck_SameSite = ''Lax'', ck_MaxAge = maxAge\<rparr>"

definition set_session_cookies :: "request \<Rightarrow> string \<Rightarrow> int \<Rightarrow> ('w, unit) prog" where
  "set_session_cookies r v maxAge = do {
     https \<leftarrow> gets (requestIsHTTPS r);
     respond (rw_SetCookie (session_cookie authCookieName v True https maxAge));
     respond (rw_SetCookie (session_cookie csrfCookieName v False https maxAge))
   }"

definition login_granted :: "'w env \<Rightarrow> request \<Rightarrow> string \<Rightarrow> string \<Rightarrow> ('w, unit) prog" where
  "login_granted e r user next = do {
     t \<leftarrow> sessions_issue e;
     case t of
       Inl er \<Rightarrow> do {
         log_at LevelError ''session issue failed'' [(''err'', JStr er)];
         respond (http_Error ''internal error'' 500)
       }
     | Inr tok \<Rightarrow> do {
         set_session_cookies r tok (f64_to_int (duration_Seconds authCookieMaxAge));
         log_at LevelInfo ''admin login''
           [(''user'', JStr user), (''remote'', JStr (rq_RemoteAddr r)), (''method'', JStr ''session_cookie'')];
         respond (http_Redirect r (safeRedirect next ''/_docknap/'') 302)
       }
   }"

definition processLogin :: "'w env \<Rightarrow> request \<Rightarrow> ('w, unit) prog" where
  "processLogin e r = do {
     key \<leftarrow> gets (clientKey r);
     allowed \<leftarrow> rateLimiter_allow e key;
     if \<not> allowed then do {
       count_at mh_AuthFail (fail_labels r ''rate_limited'');
       log_at LevelWarn ''login rate-limited'' [(''remote'', JStr (rq_RemoteAddr r))];
       failLogin r [] ''rate_limited''
     }
     else if rq_ParseForm r \<noteq> None then renderLogin Raw r ''bad_request'' []
     else do {
       let user = lookup_or [] (rq_PostForm r) ''user'';
       let pass = lookup_or [] (rq_PostForm r) ''pass'';
       let next = lookup_or [] (rq_PostForm r) ''next'';
       if user = [] \<or> pass = [] then failLogin r next ''missing''
       else do {
         ok \<leftarrow> gets (verifyCredentials user pass);
         if \<not> ok then do {
           count_at mh_AuthFail (fail_labels r ''invalid'');
           log_at LevelWarn ''auth failed''
             [(''path'', JStr (rq_Path r)), (''reason'', JStr ''invalid''), (''remote'', JStr (rq_RemoteAddr r))];
           failLogin r next ''invalid''
         }
         else login_granted e r user next
       }
     }
   }"

definition handleLogin :: "'w env \<Rightarrow> request \<Rightarrow> ('w, unit) prog" where
  "handleLogin e r = do {
     en \<leftarrow> gets authEnabled;
     if \<not> en then respond http_NotFound
     else if rq_Method r = ''POST'' then processLogin e r
     else if rq_Method r \<noteq> ''GET'' \<and> rq_Method r \<noteq> ''HEAD'' then do {
       set_header ''Allow'' ''GET, POST'';
       renderLogin Raw r ''method'' (query_Get r ''next'')
     }
     else do {
       ok \<leftarrow> checkRequestAuth e r;
       if ok then respond (http_Redirect r (safeRedirect (query_Get r ''next'') ''/_docknap/'') 302)
       else renderLogin Raw r (query_Get r ''error'') (query_Get r ''next'')
     }
   }"

definition handleLogout :: "request \<Rightarrow> ('w, unit) prog" where
  "handleLogout r =
     (if rq_Method r \<noteq> ''POST'' then do {
        set_header ''Allow'' ''POST'';
        respond (http_Error ''method not allowed'' 405)
      }
      else do {
        (case request_Cookie r authCookieName of Some v \<Rightarrow> sessions_revoke v | None \<Rightarrow> ret ());
        set_session_cookies r [] (- 1);
        respond (http_Redirect r loginPath 302)
      })"

subsection \<open>Invariants\<close>

context frame_invariant
begin

lemma keeps_sessions_valid [preserve_rules]: "preserves P (sessions_valid e tok)"
  unfolding sessions_valid_def by (intro preserve_rules preserves_modify frame_facts)

lemma keeps_sessions_issue [preserve_rules]: "preserves P (sessions_issue e)"
  unfolding sessions_issue_def by (intro preserve_rules preserves_modify frame_facts)

lemma keeps_sessions_revoke [preserve_rules]: "preserves P (sessions_revoke tok)"
  unfolding sessions_revoke_def by (intro preserves_modify frame_facts)

lemma keeps_rateLimiter_allow [preserve_rules]: "preserves P (rateLimiter_allow e k)"
  unfolding rateLimiter_allow_def by (intro preserve_rules preserves_modify frame_facts)

lemma keeps_checkRequestAuth [preserve_rules]: "preserves P (checkRequestAuth e r)"
  unfolding checkRequestAuth_def by (intro preserve_rules)

lemma keeps_serveLogin [preserve_rules]: "preserves P (serveLogin r m)"
  unfolding serveLogin_def by (intro preserve_rules)

lemma keeps_failAuth [preserve_rules]: "preserves P (failAuth r m)"
  unfolding failAuth_def by (intro preserve_rules)

lemma keeps_csrf_rejected [preserve_rules]: "preserves P (csrf_rejected r w m)"
  unfolding csrf_rejected_def by (intro preserve_rules)

lemma keeps_failLogin [preserve_rules]: "preserves P (failLogin r n c)"
  unfolding failLogin_def by (intro preserve_rules)

lemma keeps_set_session_cookies [preserve_rules]: "preserves P (set_session_cookies r v m)"
  unfolding set_session_cookies_def by (intro preserve_rules)

lemma keeps_login_granted [preserve_rules]: "preserves P (login_granted e r u n)"
  unfolding login_granted_def by (intro preserve_rules)

lemma keeps_processLogin [preserve_rules]: "preserves P (processLogin e r)"
  unfolding processLogin_def by (intro preserve_rules)

lemma keeps_handleLogin [preserve_rules]: "preserves P (handleLogin e r)"
  unfolding handleLogin_def by (intro preserve_rules)

lemma keeps_handleLogout [preserve_rules]: "preserves P (handleLogout r)"
  unfolding handleLogout_def by (intro preserve_rules)

lemma keeps_requireAuth [preserve_rules]:
  "(\<And>r. preserves P (next r)) \<Longrightarrow> preserves P (requireAuth e next r)"
  unfolding requireAuth_def by (intro preserve_rules)

lemma keeps_requireCSRF [preserve_rules]:
  "(\<And>r. preserves P (next r)) \<Longrightarrow> preserves P (requireCSRF next r)"
  unfolding requireCSRF_def by (intro preserve_rules)

end

subsection \<open>Gates\<close>

text \<open>A gate runs the handler, in a state in which only the gate's own bookkeeping has changed, or
  answers itself with a fixed status; then the handler has no effect at all.\<close>

locale auth_gate =
  fixes gate :: "(request \<Rightarrow> ('w, unit) prog) \<Rightarrow> request \<Rightarrow> ('w, unit) prog"
    and passes :: "request \<Rightarrow> 'w docknap \<Rightarrow> bool"
    and checked :: "request \<Rightarrow> 'w docknap \<Rightarrow> 'w docknap"
    and refusal :: int
  assumes pass: "passes r s \<Longrightarrow> exec (gate h r) s = exec (h r) (checked r s)"
    and refuse: "\<not> passes r s \<Longrightarrow> exec (gate h r) s = exec (gate h' r) s"
    and refuse_status: "\<not> passes r s \<Longrightarrow> \<not> rw_wrote (resp s) \<Longrightarrow>
          rw_status (resp (exec (gate h r) s)) = refusal \<and> rw_wrote (resp (exec (gate h r) s))"
    and checked_resp: "resp (checked r s) = resp s"

text \<open>Two gates around one handler.\<close>

locale double_gate = auth_gate gate passes checked refusal + inner: auth_gate gate2 passes2 checked2 refusal2
  for gate :: "(request \<Rightarrow> ('w, unit) prog) \<Rightarrow> request \<Rightarrow> ('w, unit) prog"
    and passes checked refusal
    and gate2 :: "(request \<Rightarrow> ('w, unit) prog) \<Rightarrow> request \<Rightarrow> ('w, unit) prog"
    and passes2 checked2 refusal2
begin

lemma both_pass:
  "passes r s \<Longrightarrow> passes2 r (checked r s) \<Longrightarrow>
    exec (gate (gate2 h) r) s = exec (h r) (checked2 r (checked r s))"
  by (simp add: pass inner.pass)

lemma any_refuses:
  "\<not> (passes r s \<and> passes2 r (checked r s)) \<Longrightarrow>
    exec (gate (gate2 h) r) s = exec (gate (gate2 h') r) s"
  by (cases "passes r s")
     (simp_all add: pass inner.refuse [of r "checked r s" h h'] refuse [of r s "gate2 h" "gate2 h'"])

lemma refusal_status:
  "\<not> (passes r s \<and> passes2 r (checked r s)) \<Longrightarrow> \<not> rw_wrote (resp s) \<Longrightarrow>
    rw_status (resp (exec (gate (gate2 h) r) s)) = (if passes r s then refusal2 else refusal)"
  by (cases "passes r s") (simp_all add: pass inner.refuse_status refuse_status checked_resp)

end

lemma sessions_valid_sel [simp]:
  "resp (exec (sessions_valid e tok) s) = resp s"
  "adminUser (exec (sessions_valid e tok) s) = adminUser s"
  "adminPassHash (exec (sessions_valid e tok) s) = adminPassHash s"
  by (simp_all add: sessions_valid_def)

lemma checkRequestAuth_sel [simp]:
  "resp (exec (checkRequestAuth e r) s) = resp s"
  "authEnabled (exec (checkRequestAuth e r) s) = authEnabled s"
  by (simp_all add: checkRequestAuth_def authEnabled_def split: option.splits)

definition auth_passes :: "'w env \<Rightarrow> request \<Rightarrow> 'w docknap \<Rightarrow> bool" where
  "auth_passes e r s \<longleftrightarrow> \<not> authEnabled s \<or> result (checkRequestAuth e r) s"

definition auth_checked :: "'w env \<Rightarrow> request \<Rightarrow> 'w docknap \<Rightarrow> 'w docknap" where
  "auth_checked e r s = (if authEnabled s then exec (checkRequestAuth e r) s else s)"

definition csrf_passes :: "request \<Rightarrow> 'w docknap \<Rightarrow> bool" where
  "csrf_passes r s \<longleftrightarrow>
     \<not> authEnabled s \<or> rq_Method r \<noteq> ''POST'' \<or> header_Get r ''Authorization'' \<noteq> [] \<or>
     (csrf_token r \<noteq> [] \<and> request_Cookie r csrfCookieName = Some (csrf_token r))"

lemma exec_requireAuth:
  "exec (requireAuth e h r) s =
    (if auth_passes e r s then exec (h r) (auth_checked e r s)
     else if header_Get r ''Authorization'' \<noteq> [] then exec (failAuth r ''invalid'') (auth_checked e r s)
     else exec (serveLogin r []) (auth_checked e r s))"
  by (simp add: requireAuth_def auth_passes_def auth_checked_def)

lemma exec_requireCSRF_pass: "csrf_passes r s \<Longrightarrow> exec (requireCSRF h r) s = exec (h r) s"
  by (auto simp: requireCSRF_def csrf_passes_def)

lemma exec_requireCSRF_refuse:
  "\<not> csrf_passes r s \<Longrightarrow> \<exists>l m. exec (requireCSRF h r) s = s\<lparr>logs := l, resp := http_Error m 403 (resp s)\<rparr>
     \<and> exec (requireCSRF h' r) s = exec (requireCSRF h r) s"
  by (auto simp: requireCSRF_def csrf_passes_def csrf_rejected_def split: option.splits)

interpretation auth: auth_gate "requireAuth e" "auth_passes e" "auth_checked e" 401 for e
  by unfold_locales
     (auto simp: exec_requireAuth auth_checked_def failAuth_def serveLogin_def exec_renderLogin_Raw)

interpretation csrf: auth_gate requireCSRF csrf_passes "\<lambda>r s. s" 403
proof (unfold_locales, goal_cases)
  case (1 r s h)
  then show ?case by (rule exec_requireCSRF_pass)
next
  case (2 r s h h')
  then show ?case using exec_requireCSRF_refuse [of r s h h'] by metis
next
  case (3 r s h)
  then show ?case using exec_requireCSRF_refuse [of r s h h] by auto
qed simp

interpretation guarded: double_gate "requireAuth e" "auth_passes e" "auth_checked e" 401
  requireCSRF csrf_passes "\<lambda>r s. s" 403 for e
  by unfold_locales

subsection \<open>Properties\<close>

text \<open>C12: The state-changing handlers are out of reach. With authentication on, a POST behind
  \<open>requireAuth\<close> and \<open>requireCSRF\<close> whose request is not authenticated gets status 401; an
  authenticated one without an \<open>Authorization\<close> header whose CSRF cookie is missing, empty or
  different from the token gets 403; in both cases the handler has no effect. Only a request
  that passes both checks reaches it.\<close>

theorem guarded_post:
  assumes "authEnabled s" "\<not> rw_wrote (resp s)" "rq_Method r = ''POST''"
    and "authentic = result (checkRequestAuth e r) s"
    and "tokens_match \<longleftrightarrow> csrf_token r \<noteq> [] \<and> request_Cookie r csrfCookieName = Some (csrf_token r)"
  shows "(\<not> authentic \<longrightarrow> rw_status (resp (exec (requireAuth e (requireCSRF h) r) s)) = 401
        \<and> exec (requireAuth e (requireCSRF h) r) s = exec (requireAuth e (requireCSRF h') r) s)
    \<and> (authentic \<and> header_Get r ''Authorization'' = [] \<and> \<not> tokens_match \<longrightarrow>
        rw_status (resp (exec (requireAuth e (requireCSRF h) r) s)) = 403
        \<and> exec (requireAuth e (requireCSRF h) r) s = exec (requireAuth e (requireCSRF h') r) s)
    \<and> (authentic \<and> tokens_match \<longrightarrow>
        exec (requireAuth e (requireCSRF h) r) s = exec (h r) (exec (checkRequestAuth e r) s))"
proof -
  have a: "auth_passes e r s \<longleftrightarrow> authentic"
    using assms(1,4) by (simp add: auth_passes_def)
  have chk: "auth_checked e r s = exec (checkRequestAuth e r) s"
    using assms(1) by (simp add: auth_checked_def)
  have c: "csrf_passes r (auth_checked e r s) \<longleftrightarrow> header_Get r ''Authorization'' \<noteq> [] \<or> tokens_match"
    using assms(1,3,5) by (simp add: csrf_passes_def chk)
  show ?thesis
    using guarded.refusal_status [of e r s h] guarded.any_refuses [of e r s h h'] guarded.both_pass [of e r s h]
      assms(2) a c chk
    by auto
qed

theorem guarded_post_witness:
  "rw_status (resp (exec (requireAuth (example_env None) (requireCSRF (\<lambda>_. ret ()))
      ((get_request ''h'' ''/'')\<lparr>rq_Method := ''POST''\<rparr>))
      (example_state\<lparr>adminUser := ''admin'', adminPassHash := ''x''\<rparr>))) = 401"
proof -
  have r: "resp example_state = new_response"
    by (simp add: example_state_def newDocknap_def split: prod.splits)
  have c: "result (checkRequestAuth (example_env None) ((get_request ''h'' ''/'')\<lparr>rq_Method := ''POST''\<rparr>))
      (example_state\<lparr>adminUser := ''admin'', adminPassHash := ''x''\<rparr>) = False"
    by (simp add: checkRequestAuth_def get_request_def parseBasicAuth_def request_Cookie_def)
  show ?thesis
    using guarded_post [of "example_state\<lparr>adminUser := ''admin'', adminPassHash := ''x''\<rparr>"
        "(get_request ''h'' ''/'')\<lparr>rq_Method := ''POST''\<rparr>" False "example_env None" _ "\<lambda>_. ret ()" "\<lambda>_. ret ()", OF _ _ _ _ refl] c r
    by (simp add: authEnabled_def new_response_def get_request_def)
qed

text \<open>Any \<open>Authorization\<close> header switches the CSRF check off. A POST with a valid session cookie,
  no CSRF token and an \<open>Authorization\<close> header that is not Basic (so that the cookie is what
  authenticates it) reaches the handler.\<close>

theorem csrf_skipped_by_other_scheme:
  assumes "authEnabled s" "rq_Method r = ''POST''" "header_Get r ''Authorization'' = ''Bearer x''"
    and "request_Cookie r authCookieName = Some v" "v \<noteq> []" "result (sessions_valid e v) s"
    and "request_Cookie r csrfCookieName = None"
  shows "exec (requireAuth e (requireCSRF h) r) s = exec (h r) (exec (sessions_valid e v) s)"
proof -
  have p: "parseBasicAuth ''Bearer x'' = None" by (simp add: parseBasicAuth_def)
  have chk: "checkRequestAuth e r = sessions_valid e v"
    using assms(3-5) by (simp add: checkRequestAuth_def p)
  have "auth_passes e r s" using assms(1,6) by (simp add: auth_passes_def chk)
  moreover have "csrf_passes r (auth_checked e r s)" using assms(3) by (simp add: csrf_passes_def)
  moreover have "auth_checked e r s = exec (sessions_valid e v) s"
    using assms(1) by (simp add: auth_checked_def chk)
  ultimately show ?thesis using guarded.both_pass [of e r s h] by simp
qed

lemma example_state_more [simp]:
  "resp example_state = new_response" "sessions example_state = newSessionStore (12 * Hour)"
  "rateLimiter example_state = Some (newLoginRateLimiter 5 Minute)" "trustedProxies example_state = []"
  by (simp_all add: example_state_def newDocknap_def split: prod.splits)

definition session_state :: "nat docknap" where
  "session_state = example_state\<lparr>adminUser := ''admin'', adminPassHash := ''x'',
     sessions := \<lparr>tokens = [(''tok'', \<lparr>createdAt = 1, lastUsed = 1\<rparr>)], ttl = 12 * Hour\<rparr>\<rparr>"

definition bearer_request :: request where
  "bearer_request = (get_request ''h'' ''/'')\<lparr>rq_Method := ''POST'',
     rq_Header := [''Authorization'' \<mapsto> ''Bearer x''], rq_Cookies := [(authCookieName, ''tok'')]\<rparr>"

theorem csrf_skipped_by_other_scheme_witness:
  "resp (exec (requireAuth (example_env None) (requireCSRF (\<lambda>_. respond (http_Error ''done'' 200))) bearer_request) session_state)
     = http_Error ''done'' 200 new_response"
proof -
  have v: "result (sessions_valid (example_env None) ''tok'') session_state"
    by (simp add: sessions_valid_def session_state_def session_valid_def example_env_def time_Sub_def
        sat64_def Hour_def)
  show ?thesis
    using csrf_skipped_by_other_scheme [of session_state bearer_request "''tok''" "example_env None"
        "\<lambda>_. respond (http_Error ''done'' 200)"] v
    by (simp add: bearer_request_def get_request_def request_Cookie_def authEnabled_def session_state_def
        authCookieName_def csrfCookieName_def)
qed

text \<open>Who is authentic. A request with a well-formed Basic header is authenticated by its user
  and password alone, and only if their digests are the configured ones; any other request
  is authenticated exactly by a session cookie whose session is live at the time of the
  check.\<close>

theorem authentic_iff:
  assumes "wf_sessions (sessions s) u"
  shows "result (checkRequestAuth e r) s \<longleftrightarrow>
    (case parseBasicAuth (header_Get r ''Authorization'') of
       Some (user, pass) \<Rightarrow> sha256_Sum256 user = adminUserHash s \<and> sha256_Sum256 pass = adminPassHash s
     | None \<Rightarrow> (\<exists>v. request_Cookie r authCookieName = Some v \<and> v \<noteq> [] \<and>
                  session_live (sessions s) (fst (env_now e (world s))) v))"
proof -
  have "result (sessions_valid e v) s \<longleftrightarrow> v \<noteq> [] \<and> session_live (sessions s) (fst (env_now e (world s))) v" for v
    using valid_iff [OF assms, of "fst (env_now e (world s))" "fst (env_now e (world s))" v]
    by (auto simp: sessions_valid_def session_live_def split: option.splits)
  then show ?thesis
    by (auto simp: checkRequestAuth_def verifyCredentials_def split: option.splits)
qed

theorem authentic_iff_witness:
  "result (checkRequestAuth (example_env None) bearer_request) session_state"
proof -
  have wf: "wf_sessions (sessions session_state) 5"
    by (simp add: wf_sessions_def session_state_def wf_gomap_def keys_of_def in_int64_def Hour_def)
  have "parseBasicAuth ''Bearer x'' = None" by (simp add: parseBasicAuth_def)
  then show ?thesis
    using authentic_iff [OF wf, of "example_env None" bearer_request]
    by (simp add: bearer_request_def request_Cookie_def session_live_def)
       (simp add: session_state_def example_env_def Hour_def)
qed

text \<open>Basic credentials round trip. The header that a client builds for a user name without a
  colon and any password is read back as that user and password.\<close>

theorem basic_auth_roundtrip:
  assumes "CHR '':'' \<notin> set user"
  shows "parseBasicAuth (''Basic '' @ std_EncodeToString (user @ '':'' @ pass)) = Some (user, pass)"
proof -
  have "strings_TrimPrefix (''Basic '' @ x) ''Basic '' = x" for x by (rule TrimPrefix_append)
  moreover have "prefix ''Basic '' (''Basic '' @ x)" for x by (rule prefixI [OF refl])
  ultimately show ?thesis
    using assms Cut_append [of "CHR '':''" user pass] by (simp add: parseBasicAuth_def)
qed

theorem basic_auth_roundtrip_witness:
  "parseBasicAuth (''Basic '' @ std_EncodeToString (''admin'' @ '':'' @ ''a:b'')) = Some (''admin'', ''a:b'')"
  by (rule basic_auth_roundtrip) simp

subsection \<open>Login\<close>

lemma sessions_misc [simp]:
  "sessions (exec (set_session_cookies r v m) s) = sessions s"
  "sessions (exec (failLogin r n c) s) = sessions s"
  "sessions (exec (renderLogin Raw r ec next) s) = sessions s"
  "sessions (exec (rateLimiter_allow e k) s) = sessions s"
  "resp (exec (rateLimiter_allow e k) s) = resp s"
  "verifyCredentials u p (exec (rateLimiter_allow e k) s) = verifyCredentials u p s"
  "world (exec (set_session_cookies r v m) s) = world s"
  by (simp_all add: set_session_cookies_def failLogin_def exec_renderLogin_Raw rateLimiter_allow_def
      verifyCredentials_def split: option.splits)

lemma resp_set_session_cookies:
  "resp (exec (set_session_cookies r v m) s) =
    rw_SetCookie (session_cookie csrfCookieName v False (requestIsHTTPS r s) m)
      (rw_SetCookie (session_cookie authCookieName v True (requestIsHTTPS r s) m) (resp s))"
  by (simp add: set_session_cookies_def)

text \<open>A login needs the credentials. A login attempt changes the sessions only if the limiter
  allows it and user and password are given and match; every other attempt leaves the
  session store as it is.\<close>

theorem login_needs_credentials:
  assumes "sessions (exec (processLogin e r) s) \<noteq> sessions s"
  shows "result (rateLimiter_allow e (clientKey r s)) s
    \<and> sha256_Sum256 (lookup_or [] (rq_PostForm r) ''user'') = adminUserHash s
    \<and> sha256_Sum256 (lookup_or [] (rq_PostForm r) ''pass'') = adminPassHash s
    \<and> lookup_or [] (rq_PostForm r) ''user'' \<noteq> [] \<and> lookup_or [] (rq_PostForm r) ''pass'' \<noteq> []"
  using assms
  by (auto simp: processLogin_def Let_def verifyCredentials_def [symmetric] split: if_splits)
     (auto simp: verifyCredentials_def)

definition login_state :: "nat docknap" where
  "login_state = example_state\<lparr>adminUser := ''admin'', adminUserHash := sha256_Sum256 ''admin'',
     adminPassHash := sha256_Sum256 ''secret''\<rparr>"

definition login_request :: request where
  "login_request = (get_request ''h'' loginPath)\<lparr>rq_Method := ''POST'',
     rq_PostForm := [''user'' \<mapsto> ''admin'', ''pass'' \<mapsto> ''secret'']\<rparr>"

lemma login_example:
  "result (rateLimiter_allow (example_env None) k) login_state"
  "verifyCredentials ''admin'' ''secret'' login_state"
  by (simp_all add: login_state_def rateLimiter_allow_def rate_allow_def rate_allow_locked_def
      newLoginRateLimiter_def lookup_or_def verifyCredentials_def)

text \<open>C21: A successful login. If the limiter allows the attempt, the form parses and the credentials
  match, and the random source gives 32 bytes, then the answer is a redirect that sets the
  session cookie (hidden from scripts) and the CSRF cookie to the same new token, and the
  token's session is live from then on for the lifetime of the store.\<close>

theorem login_issues_session:
  assumes "result (rateLimiter_allow e (clientKey r s)) s" "rq_ParseForm r = None"
    and "lookup_or [] (rq_PostForm r) ''user'' \<noteq> []" "lookup_or [] (rq_PostForm r) ''pass'' \<noteq> []"
    and "verifyCredentials (lookup_or [] (rq_PostForm r) ''user'') (lookup_or [] (rq_PostForm r) ''pass'') s"
    and "s1 = exec (rateLimiter_allow e (clientKey r s)) s"
    and "env_rand e 32 (world s1) = (Inr b, w)" "length b = 32" "env_now e w = (now, w')"
    and "wf_sessions (sessions s) u" "u \<le> now" "\<not> rw_wrote (resp s)"
    and "s' = exec (processLogin e r) s" "tok = rawurl_EncodeToString b"
  shows "rw_status (resp s') = 302
    \<and> (\<exists>secure. snd (rw_sent (resp s')) = rw_cookies (resp s) @
          [session_cookie authCookieName tok True secure 43200, session_cookie csrfCookieName tok False secure 43200])
    \<and> (\<forall>t. now \<le> t \<longrightarrow> session_live (sessions s') t tok \<longleftrightarrow> t - now \<le> ttl (sessions s))"
proof -
  define s2 where "s2 = s1\<lparr>world := w', sessions := snd (session_issue (Inr b) now (sessions s1))\<rparr>"
  have age: "f64_to_int (duration_Seconds authCookieMaxAge) = 43200"
  proof -
    have "duration_Seconds authCookieMaxAge = f64_add (f64_of_int 43200) (f64_div (f64_of_int 0) 1000000000)"
      by (simp add: duration_Seconds_def authCookieMaxAge_def Hour_def Second_def tdiv_def tmod_def)
    moreover have "f64_of_int 43200 = 43200"
      using f64_round_of_nat [of 43200] by (simp add: f64_of_int_def)
    ultimately have "duration_Seconds authCookieMaxAge = 43200"
      using f64_add_of_nat [of 43200 0] by (simp add: f64_of_int_def f64_div_def)
    then show ?thesis by (simp add: f64_to_int_def)
  qed
  have sess: "sessions s1 = sessions s" "resp s1 = resp s"
    and ver: "verifyCredentials x y s1 = verifyCredentials x y s" for x y
    using assms(6) by simp_all
  have run: "s' = exec (do {
      set_session_cookies r tok 43200;
      log_at LevelInfo ''admin login'' [(''user'', JStr (lookup_or [] (rq_PostForm r) ''user'')),
         (''remote'', JStr (rq_RemoteAddr r)), (''method'', JStr ''session_cookie'')];
      respond (http_Redirect r (safeRedirect (lookup_or [] (rq_PostForm r) ''next'') ''/_docknap/'') 302) }) s2"
    using assms(1-5) assms(7,9,13,14) age
    by (simp add: ver processLogin_def Let_def login_granted_def sessions_issue_def s2_def assms(6) [symmetric])
  then have "sessions s' = snd (session_issue (Inr b) now (sessions s))"
    by (simp add: s2_def sess)
  then have live: "\<forall>t. now \<le> t \<longrightarrow> session_live (sessions s') t tok \<longleftrightarrow> t - now \<le> ttl (sessions s)"
    using live_issue_store [OF assms(10,11)] by (simp add: assms(14))
  have "resp s2 = resp s" by (simp add: s2_def sess)
  then show ?thesis
    using live run assms(12) by (auto simp: resp_set_session_cookies http_Redirect_simps)
qed

theorem login_issues_session_witness:
  "rw_status (resp (exec (processLogin (example_env None) login_request) login_state)) = 302"
proof -
  let ?e = "example_env None"
  define s1 where "s1 = exec (rateLimiter_allow ?e (clientKey login_request login_state)) login_state"
  have w: "world s1 = 8"
    by (simp add: s1_def login_state_def rateLimiter_allow_def) (simp add: example_env_def)
  have wf: "wf_sessions (sessions login_state) 0"
    by (simp add: login_state_def wf_newSessionStore in_int64_def Hour_def)
  show ?thesis
    using login_issues_session [OF login_example(1) _ _ _ _ s1_def _ _ _ wf, of "replicate 32 CHR ''x''" 8 8 9]
      login_example(2) w
    by (simp add: login_request_def get_request_def) (simp add: example_env_def login_state_def new_response_def)
qed

theorem login_needs_credentials_witness:
  "sha256_Sum256 ''secret'' = adminPassHash login_state"
proof -
  let ?e = "example_env None"
  have "sessions (exec (processLogin ?e login_request) login_state) \<noteq> sessions login_state"
    using login_example
    by (simp add: processLogin_def login_request_def get_request_def Let_def login_granted_def sessions_issue_def)
       (simp add: example_env_def session_issue_def session_gcLocked_def newSessionStore_def Let_def
         login_state_def rateLimiter_allow_def time_Sub_def sat64_def Hour_def)
  from login_needs_credentials [OF this] show ?thesis
    by (simp add: login_request_def)
qed

text \<open>Logout ends the session. After a POST to the logout handler the session of the request's
  cookie is not live at any time, and the answer clears both cookies.\<close>

theorem logout_revokes:
  assumes "rq_Method r = ''POST''" "request_Cookie r authCookieName = Some v" "v \<noteq> []" "\<not> rw_wrote (resp s)"
  shows "\<not> session_live (sessions (exec (handleLogout r) s)) t v
    \<and> (\<exists>secure. snd (rw_sent (resp (exec (handleLogout r) s))) = rw_cookies (resp s) @
          [session_cookie authCookieName [] True secure (- 1), session_cookie csrfCookieName [] False secure (- 1)])"
  using assms
  by (auto simp: handleLogout_def sessions_revoke_def session_revoke_def live_drop resp_set_session_cookies
      http_Redirect_simps)

theorem logout_revokes_witness:
  "\<not> session_live (sessions (exec (handleLogout bearer_request) session_state)) 2 ''tok''"
  using logout_revokes [of bearer_request "''tok''" session_state 2]
  by (simp add: bearer_request_def request_Cookie_def session_state_def new_response_def)

subsection \<open>Redirects after a login\<close>

lemma clean_step_set: "set (clean_step st c) \<subseteq> set st \<union> (if c = [] then {} else {c})"
  by (auto simp: clean_step_def dest: in_set_butlastD)

lemma clean_fold_set: "set (foldl clean_step st cs) \<subseteq> set st \<union> (set cs - {[]})"
proof (induction cs arbitrary: st)
  case (Cons c cs)
  then show ?case using Cons [of "clean_step st c"] clean_step_set [of st c]
    by (auto split: if_splits)
qed simp

lemma hd_Join: "x \<noteq> [] \<Longrightarrow> hd (strings_Join (x # xs) sep) = hd x"
  by (cases xs) simp_all

text \<open>A path on the same site: a slash, then neither a slash nor a backslash.\<close>

definition local_path :: "string \<Rightarrow> bool" where
  "local_path u \<longleftrightarrow> prefix ''/'' u \<and> \<not> prefix ''//'' u \<and> \<not> prefix [CHR ''/'', CHR 0x5C] u"

lemma local_path_Cons:
  "local_path (CHR ''/'' # t) \<longleftrightarrow> t = [] \<or> hd t \<noteq> CHR ''/'' \<and> hd t \<noteq> CHR 0x5C"
  by (cases t) (auto simp: local_path_def)

lemma Split_subset: "x \<in> set (strings_Split c p) \<Longrightarrow> set x \<subseteq> set p"
proof (induction p arbitrary: x)
  case (Cons a p)
  obtain y ys where y: "strings_Split c p = y # ys"
    by (cases "strings_Split c p") auto
  have "set z \<subseteq> set p" if "z \<in> set (y # ys)" for z
    using Cons.IH [of z] that by (simp add: y)
  then show ?case using Cons.prems
    by (auto simp: y split: if_splits) blast+
qed simp

lemma local_path_Clean:
  assumes "CHR 0x5C \<notin> set p"
  shows "local_path (path_Clean p)" "path_Clean p = ''/'' \<or> length (path_Clean p) > 1"
proof -
  let ?cs = "foldl clean_step [] (strings_Split CHR ''/'' p)"
  have cs: "x \<noteq> [] \<and> CHR ''/'' \<notin> set x \<and> CHR 0x5C \<notin> set x" if "x \<in> set ?cs" for x
  proof -
    have x: "x \<in> set (strings_Split CHR ''/'' p)" "x \<noteq> []"
      using that clean_fold_set [of "[]" "strings_Split CHR ''/'' p"] by auto
    have "set x \<subseteq> set p" by (rule Split_subset [OF x(1)])
    with x Split_no_sep [OF x(1)] assms show ?thesis by auto
  qed
  show "local_path (path_Clean p)"
  proof (cases ?cs)
    case (Cons x xs)
    then have "x \<noteq> []" "hd x \<noteq> CHR ''/''" "hd x \<noteq> CHR 0x5C"
      using cs [of x] by (auto dest: hd_in_set)
    then show ?thesis by (simp add: path_Clean_def local_path_Cons Cons hd_Join)
  qed (simp add: path_Clean_def local_path_def)
  show "path_Clean p = ''/'' \<or> length (path_Clean p) > 1"
    by (auto simp: path_Clean_def)
qed

lemma local_path_append:
  "local_path u \<Longrightarrow> u \<noteq> ''/'' \<Longrightarrow> local_path (u @ v)"
proof -
  assume u: "local_path u" "u \<noteq> ''/''"
  then obtain t where t: "u = CHR ''/'' # t"
    by (cases u) (auto simp: local_path_def)
  with u show ?thesis by (cases t) (simp_all add: local_path_Cons)
qed

lemma redirect_location_local:
  assumes "local_path u" "CHR 0x5C \<notin> set u"
  shows "local_path (redirect_location u)"
proof (cases "prefix ''/'' u \<and> \<not> prefix ''//'' u \<and> rooted_url_ok u")
  case True
  let ?p = "takeWhile (\<lambda>c. c \<noteq> CHR ''?'') u" and ?q = "dropWhile (\<lambda>c. c \<noteq> CHR ''?'') u"
  let ?cl = "path_Clean ?p"
  have nb: "CHR 0x5C \<notin> set ?p" using assms(2) by (auto dest: set_takeWhileD)
  have q: "?q = [] \<or> hd ?q = CHR ''?''"
    using hd_dropWhile [of "\<lambda>c. c \<noteq> CHR ''?''" u] by blast
  have loc: "redirect_location u = (if suffix ''/'' ?p \<and> \<not> suffix ''/'' ?cl then ?cl @ ''/'' else ?cl) @ ?q"
    using True by (simp add: redirect_location_def Let_def)
  show ?thesis
  proof (cases "?cl = ''/''")
    case True
    then show ?thesis using q loc by (auto simp: local_path_Cons)
  next
    case False
    then have "local_path (?cl @ v)" for v
      using local_path_Clean(1) [OF nb] by (simp add: local_path_append)
    then show ?thesis by (simp add: loc)
  qed
next
  case False
  then have "redirect_location u = u" by (auto simp: redirect_location_def)
  with assms(1) show ?thesis by simp
qed



text \<open>Open redirect. The target \<open>/./\evil.example\<close> passes \<open>safeRedirect\<close>, and the clean-up of
  \<open>http.Redirect\<close> turns it into \<open>/\evil.example\<close>, which browsers read as another host.\<close>

theorem open_redirect:
  "safeRedirect (''/./'' @ [CHR 0x5C] @ ''evil.example'') ''/_docknap/'' = ''/./'' @ [CHR 0x5C] @ ''evil.example''
   \<and> redirect_location (''/./'' @ [CHR 0x5C] @ ''evil.example'') = ''/'' @ [CHR 0x5C] @ ''evil.example''"
  by (simp add: safeRedirect_def redirect_location_def rooted_url_ok_def path_Clean_def clean_step_def
      byte_def Let_def suffix_single sublist_code(3))

text \<open>The limiter's key is the client's word. Behind a trusted proxy the key of a login attempt is
  the first entry of \<open>X-Forwarded-For\<close>, whatever the proxy appended after it; from any other
  peer it is the peer's address, whatever the headers say.\<close>

theorem clientKey_from_header:
  "(trustedProxy (trustedProxies s) r \<and> header_Get r ''X-Forwarded-For'' = x @ '','' @ appended
      \<and> CHR '','' \<notin> set x \<and> strings_TrimSpace x \<noteq> [] \<longrightarrow> clientKey r s = strings_TrimSpace x)
   \<and> (\<not> trustedProxy (trustedProxies s) r \<longrightarrow> clientKey r s = remote_host r)"
  by (auto simp: clientKey_def Let_def Split_append_sep)

theorem clientKey_from_header_witness:
  "clientKey ((get_request ''h'' ''/'')\<lparr>rq_RemoteAddr := ''192.0.2.1:4711'', rq_Header := [''X-Forwarded-For'' \<mapsto> ''1.1.1.1'']\<rparr>) example_state
    = ''192.0.2.1''"
proof -
  have "net_SplitHostPort ''192.0.2.1:4711'' = Some (''192.0.2.1'', ''4711'')" by code_simp
  then show ?thesis
    using clientKey_from_header [of example_state
        "(get_request ''h'' ''/'')\<lparr>rq_RemoteAddr := ''192.0.2.1:4711'', rq_Header := [''X-Forwarded-For'' \<mapsto> ''1.1.1.1'']\<rparr>" "[]" "[]"]
    by (simp add: trustedProxy_def remote_host_def get_request_def)
qed

text \<open>The message of a failed login gets lost when the login was for a page of its own. \<open>failLogin\<close>
  adds the error to the target, not to the login page; the wrapper of the target then shows the login
  form without a message, and, since the target names no \<open>next\<close>, without the target.\<close>

theorem login_error_not_shown:
  assumes "authEnabled s" "header_Get r ''Authorization'' = []" "request_Cookie r authCookieName = None"
    and "query_Get r ''next'' = []"
  shows "login_error_url ''/_docknap/status'' ''invalid'' = ''/_docknap/status?error=invalid''
    \<and> rw_body (resp (exec (requireAuth e h r) s)) =
        rw_body (resp s) @ [Page ''login.html'' (login_fields \<lparr>lo_ErrBlock = [], lo_Next = []\<rparr>)]"
proof
  show "login_error_url ''/_docknap/status'' ''invalid'' = ''/_docknap/status?error=invalid''"
    by code_simp
  have "parseBasicAuth [] = None" by (simp add: parseBasicAuth_def)
  then show "rw_body (resp (exec (requireAuth e h r) s)) =
      rw_body (resp s) @ [Page ''login.html'' (login_fields \<lparr>lo_ErrBlock = [], lo_Next = []\<rparr>)]"
    using assms by (simp add: requireAuth_def checkRequestAuth_def serveLogin_def exec_renderLogin_Raw loginErrorBlock_def)
qed

theorem login_error_not_shown_witness:
  "rw_body (resp (exec (requireAuth (example_env None) (\<lambda>r. ret ()) ((get_request ''h'' ''/_docknap/status'')
     \<lparr>rq_Query := [''error'' \<mapsto> ''invalid'']\<rparr>)) login_state)) =
   [Page ''login.html'' (login_fields \<lparr>lo_ErrBlock = [], lo_Next = []\<rparr>)]"
proof -
  have "authEnabled login_state" "rw_body (resp login_state) = []"
    by (simp_all add: login_state_def authEnabled_def example_state_def newDocknap_def new_response_def split: prod.split)
  then show ?thesis
    using login_error_not_shown [of login_state
        "(get_request ''h'' ''/_docknap/status'')\<lparr>rq_Query := [''error'' \<mapsto> ''invalid'']\<rparr>" "example_env None" "\<lambda>r. ret ()"]
    by (simp add: get_request_def request_Cookie_def)
qed

end
