(* ===== verification/Handlers.thy ===== *)
theory Handlers
  imports Auth
begin

text \<open>
  The handlers of the admin interface: \<open>handlers_actions.go\<close> (wake, stop, wake all, stop all,
  wait), \<open>handlers_status.go\<close> (status, metrics, history, configuration) and
  \<open>handlers_admin.go\<close> (health, readiness, version, profiling, admin page). Each handler is one
  program that takes the request. The goroutines of wake all and stop all run to their end
  one after the other, in an order that is a parameter (\<open>sched\<close>); the local time zone is UTC.
\<close>

subsection \<open>Helpers\<close>

definition trimPrefix :: "string \<Rightarrow> string \<Rightarrow> string" where
  "trimPrefix s p = (if length p \<le> length s \<and> take (length p) s = p then drop (length p) s else s)"

definition post_required :: "('w, unit) prog" where
  "post_required = do { set_header ''Allow'' ''POST''; respond (http_Error ''POST required'' 405) }"

definition unknown_service :: "('w, unit) prog" where
  "unknown_service = respond (http_Error ''unknown service'' 404)"

definition reply_text :: "string \<Rightarrow> ('w, unit) prog" where
  "reply_text t = do { w_call Raw (WHeader 200); w_call Raw (WBody (Text t)) }"

definition reply_json :: "jval \<Rightarrow> ('w, unit) prog" where
  "reply_json v = w_call Raw (WBody (JsonBody v))"

text \<open>\<open>int(d.Seconds())\<close>\<close>

definition whole_seconds :: "duration \<Rightarrow> int" where
  "whole_seconds d = f64_to_int (duration_Seconds d)"

subsection \<open>Wake and stop\<close>

definition handleWake :: "'w env \<Rightarrow> request \<Rightarrow> ('w, unit) prog" where
  "handleWake e r =
     (if rq_Method r \<noteq> ''POST'' then post_required
      else do {
        let sub = trimPrefix (rq_Path r) ''/_docknap/wake/'';
        c \<leftarrow> gets (\<lambda>s. map_of (configs s) sub);
        case c of
          None \<Rightarrow> unknown_service
        | Some cfg \<Rightarrow> do {
            err \<leftarrow> startContainer e cfg;
            case err of
              Some er \<Rightarrow> respond (http_Error er 502)
            | None \<Rightarrow> reply_text (''woken: '' @ Container cfg @ [chr 10])
          }
      })"

definition handleStop :: "'w env \<Rightarrow> request \<Rightarrow> ('w, unit) prog" where
  "handleStop e r =
     (if rq_Method r \<noteq> ''POST'' then post_required
      else do {
        let sub = trimPrefix (rq_Path r) ''/_docknap/stop/'';
        c \<leftarrow> gets (\<lambda>s. map_of (configs s) sub);
        case c of
          None \<Rightarrow> unknown_service
        | Some cfg \<Rightarrow> do {
            stopContainerWithReason e cfg ''manual'';
            reply_text (''stopped: '' @ Container cfg @ [chr 10])
          }
      })"

text \<open>One goroutine of \<open>handleWakeAll\<close>.\<close>

definition wake_one :: "'w env \<Rightarrow> string \<times> config \<Rightarrow> ('w, unit) prog" where
  "wake_one e p = (case p of (sub, cfg) \<Rightarrow> do {
     acquireStartLock (Container cfg);
     port \<leftarrow> checkPort e cfg;
     if snd port then ret ()
     else do {
       err \<leftarrow> startContainer e cfg;
       case err of
         Some er \<Rightarrow> log_at LevelWarn ''wake_all: start failed'' [(''subdomain'', JStr sub), (''err'', JStr er)]
       | None \<Rightarrow> ret ()
     }
   })"

type_synonym sched = "(string \<times> config) list \<Rightarrow> (string \<times> config) list"

definition handleWakeAll :: "'w env \<Rightarrow> sched \<Rightarrow> request \<Rightarrow> ('w, unit) prog" where
  "handleWakeAll e sched r =
     (if rq_Method r \<noteq> ''POST'' then post_required
      else do {
        cs \<leftarrow> gets configs;
        for_each (sched cs) (wake_one e);
        reply_text (''waking '' @ show_nat (length cs) @ '' services'' @ [chr 10])
      })"

text \<open>One goroutine of \<open>handleStopAll\<close>; its result is what it adds to the count.\<close>

definition stop_one :: "'w env \<Rightarrow> config \<Rightarrow> ('w, nat) prog" where
  "stop_one e cfg = do {
     i \<leftarrow> ask (env_inspect e (Container cfg));
     case i of
       Inl er \<Rightarrow> ret 0
     | Inr info \<Rightarrow>
         if \<not> in_Running info then ret 0
         else do { stopContainerWithReason e cfg ''manual_all''; ret 1 }
   }"

fun stop_each :: "'w env \<Rightarrow> (string \<times> config) list \<Rightarrow> ('w, nat) prog" where
  "stop_each e [] = ret 0"
| "stop_each e (p # ps) = do { n \<leftarrow> stop_one e (snd p); m \<leftarrow> stop_each e ps; ret (n + m) }"

definition handleStopAll :: "'w env \<Rightarrow> sched \<Rightarrow> request \<Rightarrow> ('w, unit) prog" where
  "handleStopAll e sched r =
     (if rq_Method r \<noteq> ''POST'' then post_required
      else do {
        cs \<leftarrow> gets configs;
        count \<leftarrow> stop_each e (sched cs);
        reply_text (''stopping '' @ show_nat count @ '' services'' @ [chr 10])
      })"

subsection \<open>Wait\<close>

text \<open>Asking for a start, when the probe failed.\<close>

definition wait_start :: "'w env \<Rightarrow> string \<Rightarrow> config \<Rightarrow> ('w, unit) prog" where
  "wait_start e sub cfg = do {
     markBootStart e sub;
     err \<leftarrow> startContainer e cfg;
     case err of
       None \<Rightarrow> ret ()
     | Some er \<Rightarrow> do {
         log_at LevelError ''start failed (wait)'' [(''container'', JStr (Container cfg)), (''err'', JStr er)];
         count_at mh_StartFail [''subdomain'' \<mapsto> sub, ''reason'' \<mapsto> ''start_error'']
       }
   }"

text \<open>How long the boot has taken: since its start, or else since the recorded start time.\<close>

definition wait_elapsed :: "'w env \<Rightarrow> time \<Rightarrow> time \<Rightarrow> ('w, duration) prog" where
  "wait_elapsed e bootStart started =
     (if \<not> time_IsZero bootStart then do { now \<leftarrow> time_Now e; ret (time_Sub now bootStart) }
      else if \<not> time_IsZero started then do { now \<leftarrow> time_Now e; ret (time_Sub now started) }
      else ret 0)"

definition wait_timed_out :: "'w env \<Rightarrow> string \<Rightarrow> config \<Rightarrow> duration \<Rightarrow> ('w, unit) prog" where
  "wait_timed_out e sub cfg elapsed = do {
     let ms = JInt (duration_Milliseconds elapsed);
     let flds = [(''elapsed_ms'', ms), (''timeout_s'', JInt (whole_seconds (StartupTimeout cfg)))];
     count_at mh_StartFail [''subdomain'' \<mapsto> sub, ''reason'' \<mapsto> ''startup_timeout''];
     recordEvent e sub ''startup_timeout'' ''startup timeout exceeded'' flds;
     notify_at e ''startup_timeout'' sub (Container cfg) ''startup timeout exceeded'' flds;
     log_at LevelWarn ''startup timeout''
       [(''subdomain'', JStr sub), (''container'', JStr (Container cfg)), (''elapsed_ms'', ms)]
   }"

definition wait_reply :: "bool \<Rightarrow> bool \<Rightarrow> duration \<Rightarrow> jval" where
  "wait_reply ready timed_out elapsed =
     JObj [(''ready'', JBool ready), (''timed_out'', JBool timed_out), (''elapsed'', JInt (whole_seconds elapsed))]"

definition wait_known :: "'w env \<Rightarrow> string \<Rightarrow> config \<Rightarrow> time \<Rightarrow> ('w, unit) prog" where
  "wait_known e sub cfg started = do {
     set_header ''Content-Type'' ''application/json'';
     set_header ''Cache-Control'' ''no-store'';
     port \<leftarrow> checkPort e cfg;
     when_do (\<not> snd port) (wait_start e sub cfg);
     bootStart \<leftarrow> gets (\<lambda>s. lookup_or 0 (bootStarts s) sub);
     elapsed \<leftarrow> wait_elapsed e bootStart started;
     let timedOut = (\<not> snd port \<and> StartupTimeout cfg < elapsed);
     when_do timedOut (wait_timed_out e sub cfg elapsed);
     when_do (snd port) (do { clearBootStart sub; broadcastReady sub });
     reply_json (wait_reply (snd port) timedOut elapsed)
   }"

definition handleWait :: "'w env \<Rightarrow> request \<Rightarrow> ('w, unit) prog" where
  "handleWait e r = do {
     let sub = trimPrefix (rq_Path r) ''/_docknap/wait/'';
     c \<leftarrow> gets (\<lambda>s. map_of (configs s) sub);
     started \<leftarrow> gets (\<lambda>s. lookup_or 0 (startedAt s) sub);
     case c of None \<Rightarrow> unknown_service | Some cfg \<Rightarrow> wait_known e sub cfg started
   }"

subsection \<open>Status\<close>

definition refreshStateGauges :: "('w, unit) prog" where
  "refreshStateGauges = do {
     sts \<leftarrow> gets states;
     for_each sts (\<lambda>(sub, st). set_gauge mh_State
       [''subdomain'' \<mapsto> sub, ''state'' \<mapsto> (if ss_State st = [] then ''unknown'' else ss_State st)] 1)
   }"

text \<open>The recorded state, or what the daemon says.\<close>

definition shown_state :: "'w env \<Rightarrow> config \<Rightarrow> string \<Rightarrow> ('w, string) prog" where
  "shown_state e cfg recorded =
     (if recorded \<noteq> [] then ret recorded
      else do {
        i \<leftarrow> ask (env_inspect e (Container cfg));
        ret (case i of Inr info \<Rightarrow> in_Status info | Inl er \<Rightarrow> ''unknown'')
      })"

definition started_fields :: "'w env \<Rightarrow> time option \<Rightarrow> ('w, (string \<times> jval) list) prog" where
  "started_fields e t =
     (case t of
        None \<Rightarrow> ret [(''started_at'', JNull), (''uptime_s'', JNull)]
      | Some t \<Rightarrow> do {
          now \<leftarrow> time_Now e;
          ret [(''started_at'', JStr (time_FormatRFC3339 t)), (''uptime_s'', JInt (whole_seconds (time_Sub now t)))]
        })"

definition status_entry :: "'w env \<Rightarrow> string \<Rightarrow> config \<Rightarrow> string \<Rightarrow> time option \<Rightarrow> ('w, string \<times> jval) prog" where
  "status_entry e sub cfg recorded t = do {
     state \<leftarrow> shown_state e cfg recorded;
     st \<leftarrow> started_fields e t;
     ret (state, JObj ([(''subdomain'', JStr sub), (''container'', JStr (Container cfg)),
       (''target_port'', JInt (TargetPort cfg)),
       (''idle_timeout'', JStr (duration_String (IdleTimeout cfg))),
       (''startup_timeout'', JStr (duration_String (StartupTimeout cfg))),
       (''state'', JStr state)] @ st))
   }"

fun status_entries ::
  "'w env \<Rightarrow> (string \<rightharpoonup> config) \<Rightarrow> (string \<rightharpoonup> time) \<Rightarrow> (string \<rightharpoonup> serviceState) \<Rightarrow> string list
    \<Rightarrow> ('w, (string \<times> jval) list) prog" where
  "status_entries e snapshot started sts [] = ret []"
| "status_entries e snapshot started sts (sub # subs) = do {
     entry \<leftarrow> status_entry e sub (the (snapshot sub))
       (case sts sub of None \<Rightarrow> [] | Some st \<Rightarrow> ss_State st) (started sub);
     rest \<leftarrow> status_entries e snapshot started sts subs;
     ret (entry # rest)
   }"

definition handleStatus :: "'w env \<Rightarrow> request \<Rightarrow> ('w, unit) prog" where
  "handleStatus e r = do {
     snapshot \<leftarrow> gets configs;
     started \<leftarrow> gets startedAt;
     sts \<leftarrow> gets (\<lambda>s. map_of (states s));
     entries \<leftarrow> status_entries e (map_of snapshot) started sts (sort (keys_of snapshot));
     set_header ''Content-Type'' ''application/json'';
     reply_json (JObj [
       (''services'', JArr (List.map snd entries)),
       (''registered'', JInt (int (length snapshot))),
       (''running'', JInt (int (length (filter (\<lambda>p. fst p = ''running'') entries)))),
       (''docknap_version'', JStr (env_version e))])
   }"

subsection \<open>Metrics and history\<close>

definition metrics_type :: string where
  "metrics_type = ''text/plain; version=0.0.4; charset=utf-8''"

definition handleMetrics :: "request \<Rightarrow> ('w, unit) prog" where
  "handleMetrics r = do {
     refreshStateGauges;
     set_header ''Content-Type'' metrics_type;
     out \<leftarrow> gets (\<lambda>s. fst (Registry_WriteTo (reg s)));
     w_call Raw (WBody (Text out))
   }"

definition handleServiceMetrics :: "request \<Rightarrow> ('w, unit) prog" where
  "handleServiceMetrics r = do {
     let sub = trimPrefix (rq_Path r) ''/_docknap/metrics/'';
     c \<leftarrow> gets (\<lambda>s. map_of (configs s) sub);
     case c of
       None \<Rightarrow> unknown_service
     | Some cfg \<Rightarrow> do {
         set_header ''Content-Type'' metrics_type;
         out \<leftarrow> gets (\<lambda>s. WriteToFiltered (reg s) sub);
         w_call Raw (WBody (Text out))
       }
   }"

text \<open>\<open>startupStatsFor\<close>: JSON \<open>null\<close> is its nil map.\<close>

definition startupStatsFor :: "'w docknap \<Rightarrow> string \<Rightarrow> jval" where
  "startupStatsFor s sub =
     (case map_of (configs s) sub of
        None \<Rightarrow> JNull
      | Some cfg \<Rightarrow>
          (case HistogramStats ''docknap_start_duration_seconds'' sub (reg s) of (secs, count) \<Rightarrow>
             if count = 0 then JObj [(''count'', JInt 0)]
             else JObj [(''count'', JInt (uint count)), (''avg_s'', JFloat (f64_div secs (f64_of_int (uint count)))),
                        (''sum_s'', JFloat secs), (''idle_timeout_s'', JFloat (duration_Seconds (IdleTimeout cfg)))]))"

fun count_types :: "event list \<Rightarrow> (string, int) gomap \<Rightarrow> (string, int) gomap" where
  "count_types [] counts = counts"
| "count_types (ev # evs) counts =
     count_types evs (AList.update (ev_Type ev) (lookup_or 0 (map_of counts) (ev_Type ev) + 1) counts)"

text \<open>The JSON form of a time is RFC 3339 with the fraction that is needed.\<close>

definition time_json :: "time \<Rightarrow> string" where
  "time_json t =
     (let ns = nat (t mod Second);
          frac = rev (dropWhile (\<lambda>c. c = CHR ''0'') (rev (zero_pad 9 ns)))
      in butlast (time_FormatRFC3339 t) @ (if ns = 0 then [] else ''.'' @ frac) @ ''Z'')"

definition event_to_json :: "event \<Rightarrow> jval" where
  "event_to_json ev =
     JObj ([(''time'', JStr (time_json (ev_Time ev))), (''type'', JStr (ev_Type ev))] @
       (if ev_Message ev = [] then [] else [(''message'', JStr (ev_Message ev))]) @
       (if ev_Fields ev = [] then [] else [(''fields'', JObj (ev_Fields ev))]))"

definition history_started :: "'w env \<Rightarrow> time option \<Rightarrow> ('w, (string \<times> jval) list) prog" where
  "history_started e t =
     (case t of
        None \<Rightarrow> ret [(''docknap_tracks_started_at'', JNull)]
      | Some t \<Rightarrow> do {
          now \<leftarrow> time_Now e;
          ret [(''docknap_tracks_started_at'', JStr (time_FormatRFC3339 t)),
               (''uptime_s'', JInt (whole_seconds (time_Sub now t)))]
        })"

definition history_known :: "'w env \<Rightarrow> string \<Rightarrow> config \<Rightarrow> event list \<Rightarrow> time option \<Rightarrow> ('w, unit) prog" where
  "history_known e sub cfg evs t = do {
     i \<leftarrow> ask (env_inspect e (Container cfg));
     stats \<leftarrow> gets (\<lambda>s. startupStatsFor s sub);
     st \<leftarrow> history_started e t;
     set_header ''Content-Type'' ''application/json'';
     reply_json (JObj ([
       (''subdomain'', JStr sub), (''container'', JStr (Container cfg)), (''target_port'', JInt (TargetPort cfg)),
       (''state'', JStr (case i of Inr info \<Rightarrow> in_Status info | Inl er \<Rightarrow> ''unknown'')),
       (''event_counts'', JObj (List.map (\<lambda>(k, n). (k, JInt n)) (count_types evs []))),
       (''events'', if evs = [] then JNull else JArr (List.map event_to_json evs)),
       (''docker_started_at'', JStr (case i of Inr info \<Rightarrow> in_StartedAt info | Inl er \<Rightarrow> [])),
       (''startup_duration_s'', stats)] @ st))
   }"

definition handleServiceHistory :: "'w env \<Rightarrow> request \<Rightarrow> ('w, unit) prog" where
  "handleServiceHistory e r = do {
     let sub = trimPrefix (rq_Path r) ''/_docknap/history/'';
     c \<leftarrow> gets (\<lambda>s. map_of (configs s) sub);
     evs \<leftarrow> gets (\<lambda>s. service_events s sub);
     t \<leftarrow> gets (\<lambda>s. startedAt s sub);
     case c of None \<Rightarrow> unknown_service | Some cfg \<Rightarrow> history_known e sub cfg evs t
   }"

subsection \<open>Configuration\<close>

definition config_entry :: "string \<times> config \<Rightarrow> jval" where
  "config_entry p = (case p of (sub, cfg) \<Rightarrow> JObj [
     (''subdomain'', JStr sub), (''container'', JStr (Container cfg)), (''target_port'', JInt (TargetPort cfg)),
     (''idle_timeout'', JStr (duration_String (IdleTimeout cfg))),
     (''startup_timeout'', JStr (duration_String (StartupTimeout cfg))),
     (''title'', JStr (Title cfg)), (''subtitle'', JStr (Subtitle cfg)), (''icon'', JStr (Icon cfg)),
     (''theme'', JStr (Theme cfg)), (''show_logs'', JBool (ShowLogs cfg)), (''show_stats'', JBool (ShowStats cfg)),
     (''health_path'', JStr (HealthPath cfg)),
     (''boot_messages'', if BootMessages cfg = [] then JNull else JArr (List.map JStr (BootMessages cfg)))])"

definition handleConfig :: "'w env \<Rightarrow> request \<Rightarrow> ('w, unit) prog" where
  "handleConfig e r = do {
     cs \<leftarrow> gets configs;
     listen \<leftarrow> gets listenAddr;
     net \<leftarrow> gets networkName;
     tld \<leftarrow> gets tldCount;
     set_header ''Content-Type'' ''application/json'';
     reply_json (JObj [
       (''services'', JArr (List.map config_entry (sort_key fst cs))),
       (''registered'', JInt (int (length cs))), (''docknap_version'', JStr (env_version e)),
       (''listen'', JStr listen), (''network'', JStr net), (''tld_count'', JInt tld)])
   }"

subsection \<open>Health, version, profiling, admin page\<close>

definition handleHealthz :: "request \<Rightarrow> ('w, unit) prog" where
  "handleHealthz r = do {
     set_header ''Content-Type'' ''text/plain; charset=utf-8'';
     reply_text ''ok''
   }"

definition handleReadyz :: "request \<Rightarrow> ('w, unit) prog" where
  "handleReadyz r = do {
     ok \<leftarrow> gets eventsHealthy;
     if \<not> ok then do {
       set_header ''Content-Type'' ''application/json'';
       w_call Raw (WHeader 503);
       reply_json (JObj [(''status'', JStr ''degraded''),
         (''reason'', JStr ''docker events stream not active, polling fallback in use'')])
     }
     else do {
       set_header ''Content-Type'' ''text/plain; charset=utf-8'';
       reply_text ''ready''
     }
   }"

definition handleVersion :: "'w env \<Rightarrow> request \<Rightarrow> ('w, unit) prog" where
  "handleVersion e r = do {
     set_header ''Content-Type'' ''application/json'';
     reply_json (JObj [(''version'', JStr (env_version e)), (''go_version'', JStr (env_go_version e))])
   }"

text \<open>Which function of \<open>net/http/pprof\<close> answers; the functions themselves are a parameter.\<close>

datatype pprof_page = PprofIndex | PprofCmdline | PprofProfile | PprofSymbol | PprofTrace | PprofNamed string

definition pprof_page_of :: "string \<Rightarrow> pprof_page" where
  "pprof_page_of suff =
     (if suff = [] then PprofIndex
      else if suff = ''cmdline'' then PprofCmdline
      else if suff = ''profile'' then PprofProfile
      else if suff = ''symbol'' then PprofSymbol
      else if suff = ''trace'' then PprofTrace
      else PprofNamed suff)"

definition handlePprof :: "(pprof_page \<Rightarrow> request \<Rightarrow> ('w, unit) prog) \<Rightarrow> request \<Rightarrow> ('w, unit) prog" where
  "handlePprof pprof r = pprof (pprof_page_of (drop (length ''/_docknap/debug/pprof/'') (rq_Path r))) r"

definition handleAdmin :: "'w env \<Rightarrow> request \<Rightarrow> ('w, unit) prog" where
  "handleAdmin e r =
     (if rq_Path r \<noteq> ''/_docknap'' \<and> rq_Path r \<noteq> ''/_docknap/'' \<and> rq_Path r \<noteq> ''/_docknap/ui''
      then respond http_NotFound
      else renderAdmin e r)"

subsection \<open>Invariants\<close>

context frame_invariant
begin

lemma keeps_replies [preserve_rules]:
  "preserves P post_required" "preserves P unknown_service" "preserves P (reply_text t)" "preserves P (reply_json v)"
  unfolding post_required_def unknown_service_def reply_text_def reply_json_def by (intro preserve_rules)+

lemma keeps_handleWake [preserve_rules]: "preserves P (handleWake e r)"
  unfolding handleWake_def by (intro preserve_rules)

lemma keeps_wake_one [preserve_rules]: "preserves P (wake_one e p)"
  unfolding wake_one_def by (intro preserve_rules)

lemma keeps_handleWakeAll [preserve_rules]: "preserves P (handleWakeAll e sched r)"
  unfolding handleWakeAll_def by (intro preserve_rules)

lemma keeps_wait_elapsed [preserve_rules]: "preserves P (wait_elapsed e b t)"
  unfolding wait_elapsed_def by (intro preserve_rules)

lemma keeps_wait_start [preserve_rules]: "preserves P (wait_start e sub cfg)"
  unfolding wait_start_def by (intro preserve_rules)

lemma keeps_handleWait [preserve_rules]: "preserves P (handleWait e r)"
  unfolding handleWait_def wait_known_def wait_timed_out_def by (intro preserve_rules)

lemma keeps_status_entries [preserve_rules]: "preserves P (status_entries e a b c subs)"
  by (induction subs)
    (auto simp: status_entry_def shown_state_def started_fields_def intro!: preserve_rules)

lemma keeps_handleStatus [preserve_rules]: "preserves P (handleStatus e r)"
  unfolding handleStatus_def by (intro preserve_rules)

lemma keeps_metrics [preserve_rules]: "preserves P (handleMetrics r)" "preserves P (handleServiceMetrics r)"
  unfolding handleMetrics_def refreshStateGauges_def handleServiceMetrics_def by (intro preserve_rules)+

lemma keeps_handleServiceHistory [preserve_rules]: "preserves P (handleServiceHistory e r)"
  unfolding handleServiceHistory_def history_known_def history_started_def by (intro preserve_rules)

lemma keeps_handleConfig [preserve_rules]: "preserves P (handleConfig e r)"
  unfolding handleConfig_def by (intro preserve_rules)

lemma keeps_admin [preserve_rules]:
  "preserves P (handleHealthz r)" "preserves P (handleReadyz r)" "preserves P (handleVersion e r)"
  "preserves P (handleAdmin e r)"
  unfolding handleHealthz_def handleReadyz_def handleVersion_def handleAdmin_def
  by (intro preserve_rules)+

lemma keeps_handlePprof [preserve_rules]: "(\<And>p r. preserves P (pprof p r)) \<Longrightarrow> preserves P (handlePprof pprof r)"
  unfolding handlePprof_def by blast

end

text \<open>The two handlers that stop containers cancel timers.\<close>

context service_invariant
begin

lemma keeps_stop_handlers [preserve_rules]: "preserves P (handleStop e r)" "preserves P (stop_one e cfg)"
  unfolding handleStop_def stop_one_def by (intro preserve_rules)+

lemma keeps_stop_each [preserve_rules]: "preserves P (stop_each e ps)"
  by (induction ps) (auto intro!: preserve_rules)

lemma keeps_handleStopAll [preserve_rules]: "preserves P (handleStopAll e sched r)"
  unfolding handleStopAll_def by (intro preserve_rules)

end

subsection \<open>Waiting for a container\<close>

lemma result_checkPort_cong:
  "world s = world s' \<Longrightarrow> networkName s = networkName s' \<Longrightarrow> result (checkPort e cfg) s = result (checkPort e cfg) s'"
proof -
  assume eq: "world s = world s'" "networkName s = networkName s'"
  have r: "result (getContainerIP e n) s = result (getContainerIP e n) s'"
    and w: "world (exec (getContainerIP e n) s) = world (exec (getContainerIP e n) s')" for n
    by (simp_all add: getContainerIP_def eq split: sum.split option.split)
  show ?thesis
    by (cases "result (getContainerIP e (Container cfg)) s'")
       (simp_all add: checkPort_def checkHTTPHealth_def r w)
qed

lemma resp_startContainer [simp]: "resp (exec (startContainer e cfg) s) = resp s"
  by (simp add: startContainer_def start_stopped_def announce_start_def start_failed_def clearBootStart_def
      split: sum.splits option.splits)

lemma resp_wait_start [simp]: "resp (exec (wait_start e sub cfg) s) = resp s"
  by (simp add: wait_start_def split: option.splits)

lemma resp_wait_timed_out [simp]: "resp (exec (wait_timed_out e sub cfg d) s) = resp s"
  by (simp add: wait_timed_out_def Let_def)

lemma exec_wait_elapsed: "\<exists>w. exec (wait_elapsed e b t) s = s\<lparr>world := w\<rparr>"
proof -
  have "exec (wait_elapsed e b t) s = s\<lparr>world := world (exec (wait_elapsed e b t) s)\<rparr>"
    by (simp add: wait_elapsed_def)
  then show ?thesis by blast
qed

lemma wait_elapsed_sel [simp]:
  "resp (exec (wait_elapsed e b t) s) = resp s" "bootStarts (exec (wait_elapsed e b t) s) = bootStarts s"
  "waiters (exec (wait_elapsed e b t) s) = waiters s" "reg (exec (wait_elapsed e b t) s) = reg s"
  using exec_wait_elapsed [of e b t s] by auto

definition wait_request :: "string \<Rightarrow> request \<Rightarrow> bool" where
  "wait_request sub r \<longleftrightarrow> rq_Path r = ''/_docknap/wait/'' @ sub"

lemma exec_handleWait:
  "wait_request sub r \<Longrightarrow> map_of (configs s) sub = Some cfg \<Longrightarrow>
    exec (handleWait e r) s = exec (wait_known e sub cfg (lookup_or 0 (startedAt s) sub)) s"
  by (simp add: handleWait_def wait_request_def trimPrefix_def)

text \<open>C28: What the loading page is told. A wait request for a known service answers with the result of
  the probe. If the probe succeeds, the answer is ready and never timed out, the boot start of
  the service is forgotten, and no start is asked for. If it fails, the answer is timed out
  exactly when the elapsed time it reports is over the startup timeout.\<close>

theorem wait_reports_probe:
  assumes "wait_request sub r" "map_of (configs s) sub = Some cfg"
    and "ready = snd (result (checkPort e cfg) s)" "s' = exec (handleWait e r) s"
  shows "(ready \<longrightarrow> bootStarts s' = (bootStarts s)(sub := None) \<and> waiters s' = waiters s \<and> reg s' = reg s
        \<and> (\<exists>d. rw_body (resp s') = rw_body (resp s) @ [JsonBody (wait_reply True False d)]))
    \<and> (\<not> ready \<longrightarrow>
        (\<exists>d. rw_body (resp s') = rw_body (resp s) @ [JsonBody (wait_reply False (StartupTimeout cfg < d) d)]))"
proof -
  define s1 where "s1 = s\<lparr>resp := rw_Set ''Cache-Control'' ''no-store''
      (rw_Set ''Content-Type'' ''application/json'' (resp s))\<rparr>"
  have p: "snd (result (checkPort e cfg) s1) = ready"
    using result_checkPort_cong [of s1 s e cfg] assms(3) by (simp add: s1_def)
  have s1: "rw_body (resp s1) = rw_body (resp s)" "bootStarts s1 = bootStarts s" "waiters s1 = waiters s" "reg s1 = reg s"
    by (simp_all add: s1_def)
  have "s' = exec (wait_known e sub cfg (lookup_or 0 (startedAt s) sub)) s"
    using exec_handleWait [OF assms(1,2)] assms(4) by simp
  then have run: "s' = exec (wait_known e sub cfg (lookup_or 0 (startedAt s) sub)) s" .
  define s2 where "s2 = exec (wait_start e sub cfg) (exec (checkPort e cfg) s1)"
  define d where "d = result (wait_elapsed e (lookup_or 0 (bootStarts s2) sub) (lookup_or 0 (startedAt s) sub)) s2"
  have "rw_body (resp s') = rw_body (resp s) @ [JsonBody (wait_reply False (StartupTimeout cfg < d) d)]"
    if "\<not> ready"
  proof -
    have "resp s2 = resp s1" by (simp add: s2_def)
    then show ?thesis
      using run p s1 that
      by (simp add: wait_known_def reply_json_def s1_def [symmetric] s2_def [symmetric] d_def [symmetric] Let_def)
  qed
  then show ?thesis
    using p s1 run
    by (auto simp: wait_known_def reply_json_def s1_def [symmetric] clearBootStart_def Let_def)
qed

theorem wait_reports_probe_witness:
  "\<exists>d. rw_body (resp (exec (handleWait (example_env None) (get_request ''h'' ''/_docknap/wait/app''))
      (example_state\<lparr>configs := [(''app'', example_cfg)]\<rparr>)))
    = [JsonBody (wait_reply False (StartupTimeout example_cfg < d) d)]"
proof -
  have "snd (result (checkPort (example_env None) example_cfg)
      (example_state\<lparr>configs := [(''app'', example_cfg)]\<rparr>)) = False"
    by (simp add: checkPort_def getContainerIP_def) (simp add: example_env_def)
  then show ?thesis
    using wait_reports_probe [of "''app''" "get_request ''h'' ''/_docknap/wait/app''"
        "example_state\<lparr>configs := [(''app'', example_cfg)]\<rparr>" example_cfg False "example_env None"]
    by (simp add: wait_request_def get_request_def new_response_def)
qed


definition stopped_info :: inspect_info where
  "stopped_info = \<lparr>in_Running = False, in_Paused = False, in_Status = ''exited'', in_StartedAt = [], in_Networks = Map.empty\<rparr>"

text \<open>A world in which it is late: the clock reads an hour and more.\<close>

definition late_env :: "nat env" where
  "late_env = (example_env None)\<lparr>env_inspect := (\<lambda>_ w. (Inr stopped_info, w)),
     env_now := (\<lambda>w. (Hour + int (w mod 1000), Suc w))\<rparr>"


subsection \<open>What the status shows\<close>

fun json_field :: "string \<Rightarrow> jval \<Rightarrow> jval option" where
  "json_field k (JObj fs) = map_of fs k"
| "json_field k _ = None"

lemma exec_status_entry: "\<exists>w. exec (status_entry e sub cfg rec t) s = s\<lparr>world := w\<rparr>"
proof -
  have "exec (status_entry e sub cfg rec t) s = s\<lparr>world := world (exec (status_entry e sub cfg rec t) s)\<rparr>"
    by (simp add: status_entry_def shown_state_def started_fields_def split: option.splits)
  then show ?thesis by blast
qed

lemma exec_status_entries: "\<exists>w. exec (status_entries e a b c subs) s = s\<lparr>world := w\<rparr>"
proof (induction subs arbitrary: s)
  case Nil
  then show ?case by (auto intro: exI [of _ "world s"])
next
  case (Cons sub subs)
  obtain w where "exec (status_entry e sub (the (a sub)) (case c sub of None \<Rightarrow> [] | Some st \<Rightarrow> ss_State st) (b sub)) s
      = s\<lparr>world := w\<rparr>"
    by (rule exE [OF exec_status_entry])
  with Cons.IH [of "s\<lparr>world := w\<rparr>"] show ?case by auto
qed

lemma status_entry_fields:
  assumes "result (status_entry e sub cfg rec t) s = (state, row)"
  shows "json_field ''subdomain'' row = Some (JStr sub)" "json_field ''state'' row = Some (JStr state)"
  using assms by (auto simp: status_entry_def)

lemma status_entries_fields:
  assumes "result (status_entries e a b c subs) s = rows"
  shows "List.map (\<lambda>p. json_field ''subdomain'' (snd p)) rows = List.map (\<lambda>sub. Some (JStr sub)) subs
    \<and> (\<forall>p \<in> set rows. json_field ''state'' (snd p) = Some (JStr (fst p)))"
  using assms
proof (induction subs arbitrary: s rows)
  case (Cons sub subs)
  let ?m = "status_entry e sub (the (a sub)) (case c sub of None \<Rightarrow> [] | Some st \<Rightarrow> ss_State st) (b sub)"
  obtain state row where p: "result ?m s = (state, row)" by force
  with Cons.prems Cons.IH [of "exec ?m s", OF refl] show ?case
    using status_entry_fields [OF p] by auto
qed simp

text \<open>The status reply. It lists every registered service once, in the order of the subdomains; it
  says how many are registered, and how many of the listed ones it shows as running.\<close>

theorem status_lists_services:
  "\<exists>rows. rw_body (resp (exec (handleStatus e r) s)) = rw_body (resp s) @ [JsonBody (JObj [
        (''services'', JArr rows),
        (''registered'', JInt (int (length (configs s)))),
        (''running'', JInt (int (length (filter (\<lambda>row. json_field ''state'' row = Some (JStr ''running'')) rows)))),
        (''docknap_version'', JStr (env_version e))])]
    \<and> List.map (json_field ''subdomain'') rows = List.map (\<lambda>sub. Some (JStr sub)) (sort (keys_of (configs s)))"
proof -
  let ?m = "status_entries e (map_of (configs s)) (startedAt s) (map_of (states s)) (sort (keys_of (configs s)))"
  define rows where "rows = result ?m s"
  obtain w where w: "exec ?m s = s\<lparr>world := w\<rparr>" by (rule exE [OF exec_status_entries])
  have fields: "List.map (\<lambda>p. json_field ''subdomain'' (snd p)) rows = List.map (\<lambda>sub. Some (JStr sub)) (sort (keys_of (configs s)))"
    "\<And>p. p \<in> set rows \<Longrightarrow> json_field ''state'' (snd p) = Some (JStr (fst p))"
    using status_entries_fields [OF rows_def [symmetric]] by simp_all
  have "length (filter (\<lambda>row. json_field ''state'' row = Some (JStr ''running'')) (List.map snd rows)) =
      length (filter (\<lambda>p. fst p = ''running'') rows)"
    using fields(2) by (auto simp: filter_map o_def cong: filter_cong)
  then show ?thesis
    using fields(1) w
    by (intro exI [of _ "List.map snd rows"])
       (simp add: handleStatus_def reply_json_def rows_def [symmetric] o_def)
qed

subsection \<open>The state gauge\<close>

definition state_labels :: "string \<Rightarrow> string \<Rightarrow> label_map" where
  "state_labels sub st = [''subdomain'' \<mapsto> sub, ''state'' \<mapsto> st]"

definition shown :: "serviceState \<Rightarrow> string" where
  "shown st = (if ss_State st = [] then ''unknown'' else ss_State st)"

text \<open>The value of the state gauge for a service and a state.\<close>

definition state_gauge :: "'w docknap \<Rightarrow> string \<Rightarrow> string \<Rightarrow> f64" where
  "state_gauge s sub st = metric_value (metrics (reg s) ! mh_State (mm s)) (state_labels sub st)"

definition wf_state_gauge :: "'w docknap \<Rightarrow> bool" where
  "wf_state_gauge s \<longleftrightarrow> mh_State (mm s) < length (metrics (reg s)) \<and>
     m_labels (metrics (reg s) ! mh_State (mm s)) = [''subdomain'', ''state'']"

abbreviation no_nul :: "string \<Rightarrow> bool" where
  "no_nul x \<equiv> CHR 0x00 \<notin> set x"

lemma set_state_gauge:
  assumes "wf_state_gauge s" "no_nul sub" "no_nul st" "no_nul sub'" "no_nul st'"
  shows "wf_state_gauge (exec (set_gauge mh_State (state_labels sub st) v) s)"
    "state_gauge (exec (set_gauge mh_State (state_labels sub st) v) s) sub' st' =
      (if sub' = sub \<and> st' = st then v else state_gauge s sub' st')"
proof -
  let ?m = "metrics (reg s) ! mh_State (mm s)"
  have m: "metrics (reg (exec (set_gauge mh_State (state_labels sub st) v) s)) ! mh_State (mm s) =
      metric_set (state_labels sub st) v ?m"
    using assms(1) by (simp add: Gauge_Set_def update_metric_def wf_state_gauge_def)
  then show "wf_state_gauge (exec (set_gauge mh_State (state_labels sub st) v) s)"
    using assms(1) by (simp add: wf_state_gauge_def Gauge_Set_def update_metric_def)
  have labels: "m_labels ?m = [''subdomain'', ''state'']" using assms(1) by (simp add: wf_state_gauge_def)
  have "metric_value (metric_set (state_labels sub st) v ?m) (state_labels sub' st') =
      (if agree_on (m_labels ?m) (state_labels sub st) (state_labels sub' st') then v
       else metric_value ?m (state_labels sub' st'))"
    by (rule metric_value_set) (simp_all add: labels clean_labels_def state_labels_def assms)
  then show "state_gauge (exec (set_gauge mh_State (state_labels sub st) v) s) sub' st' =
      (if sub' = sub \<and> st' = st then v else state_gauge s sub' st')"
    using m by (auto simp: state_gauge_def agree_on_def labels state_labels_def)
qed

lemma set_state_gauges:
  assumes "wf_state_gauge s" "list_all (\<lambda>(sub, st). no_nul sub \<and> no_nul (shown st)) sts" "no_nul sub'" "no_nul st'"
  shows "state_gauge (exec (for_each sts (\<lambda>(sub, st). set_gauge mh_State (state_labels sub (shown st)) 1)) s) sub' st' =
    (if \<exists>st. (sub', st) \<in> set sts \<and> shown st = st' then 1 else state_gauge s sub' st')"
  using assms
proof (induction sts arbitrary: s)
  case (Cons p sts)
  obtain sub st where p: "p = (sub, st)" by force
  let ?s = "exec (set_gauge mh_State (state_labels sub (shown st)) 1) s"
  have "no_nul sub" "no_nul (shown st)" using Cons.prems(2) by (simp_all add: p)
  note step = set_state_gauge [OF Cons.prems(1) this Cons.prems(3,4), of 1]
  show ?case
    using Cons.IH [OF step(1) _ Cons.prems(3,4)] step(2) Cons.prems(2) by (auto simp: p)
qed simp

text \<open>The state gauge only ever gains ones. Refreshing it sets the series of each service's current
  state to 1 and leaves every other series as it was; in particular the series of a state that
  a service was in before keeps its 1, so several states of one service read as active.\<close>

theorem state_gauge_never_reset:
  assumes "wf_state_gauge s" "list_all (\<lambda>(sub, st). no_nul sub \<and> no_nul (shown st)) (states s)"
    and "no_nul sub" "no_nul old"
  shows "state_gauge (exec refreshStateGauges s) sub old =
    (if \<exists>st. (sub, st) \<in> set (states s) \<and> shown st = old then 1 else state_gauge s sub old)"
  using set_state_gauges [OF assms]
  by (simp add: refreshStateGauges_def state_labels_def [symmetric] shown_def [symmetric] cong: if_cong)

theorem state_gauge_never_reset_witness:
  "state_gauge (exec refreshStateGauges
      ((exec refreshStateGauges (example_state\<lparr>states := [(''app'', zero_service\<lparr>ss_State := ''running''\<rparr>)]\<rparr>))
         \<lparr>states := [(''app'', zero_service\<lparr>ss_State := ''exited''\<rparr>)]\<rparr>)) ''app'' ''running'' = 1"
proof -
  let ?a = "example_state\<lparr>states := [(''app'', zero_service\<lparr>ss_State := ''running''\<rparr>)]\<rparr>"
  let ?b = "(exec refreshStateGauges ?a)\<lparr>states := [(''app'', zero_service\<lparr>ss_State := ''exited''\<rparr>)]\<rparr>"
  have wa: "wf_state_gauge ?a"
    by (simp add: wf_state_gauge_def example_state_def newDocknap_def newMetrics_def Registry_Counter_def
        Registry_Gauge_def Registry_Histogram_def new_metric_def NewRegistry_def Let_def)
  have run: "exec refreshStateGauges ?a = exec (set_gauge mh_State (state_labels ''app'' ''running'') 1) ?a"
    by (simp add: refreshStateGauges_def state_labels_def)
  have one: "state_gauge (exec refreshStateGauges ?a) ''app'' ''running'' = 1" "wf_state_gauge (exec refreshStateGauges ?a)"
    using set_state_gauge [OF wa, of "''app''" "''running''" "''app''" "''running''" 1] unfolding run by simp_all
  then have "state_gauge ?b ''app'' ''running'' = 1" "wf_state_gauge ?b"
    by (simp_all add: state_gauge_def wf_state_gauge_def)
  then show ?thesis
    using state_gauge_never_reset [of ?b "''app''" "''running''"] by (simp add: shown_def)
qed

end
