(* ===== verification/Log_Stream.thy ===== *)
theory Log_Stream
  imports Handlers
begin

text \<open>
  \<open>handleLogs\<close> of \<open>logs.go\<close>: the request that opens a live log. Its checks and the start of the
  stream are one program; from there on the request is a viewer of the hub (theory \<open>Logs\<close>).
  The response writer of Go's server can flush, so the branch for one that cannot is dead.
\<close>

definition handleLogs :: "request \<Rightarrow> ('w, unit) prog" where
  "handleLogs r = do {
     let sub = trimPrefix (rq_Path r) ''/_docknap/logs/'';
     c \<leftarrow> gets (\<lambda>s. map_of (configs s) sub);
     case c of
       None \<Rightarrow> unknown_service
     | Some cfg \<Rightarrow>
         if \<not> LiveLogs cfg
         then respond (http_Error ''live logs disabled for this service (set docknap.live_logs=true)'' 404)
         else do {
           set_header ''Content-Type'' ''text/event-stream'';
           set_header ''Cache-Control'' ''no-store'';
           set_header ''X-Accel-Buffering'' ''no'';
           respond (rw_WriteHeader 200);
           respond rw_Flush;
           modify (\<lambda>s. s\<lparr>the_hub := viewer_open sub (Container cfg) (resp s) (the_hub s)\<rparr>)
         }
   }"

context frame_invariant
begin

lemma keeps_handleLogs:
  "(\<And>s sub c w. P s \<Longrightarrow> P (s\<lparr>the_hub := viewer_open sub c w (the_hub s)\<rparr>)) \<Longrightarrow> preserves P (handleLogs r)"
  unfolding handleLogs_def by (intro preserve_rules preserves_modify frame_facts)

end

lemma viewer_open_attaches:
  assumes "hub_inv h"
  shows "\<exists>ch. is_subscribed (viewer_open sub c w h) sub ch \<and>
      log_queue (viewer_open sub c w h) ch = [] \<and>
      \<lparr>vw_sub = sub, vw_chan = ch, vw_resp = w\<rparr> \<in> set (viewers (viewer_open sub c w h))"
proof -
  have "logSubscribers (tailer_start sub c h') = logSubscribers h'" "log_chans (tailer_start sub c h') = log_chans h'" for h'
    by (simp_all add: tailer_start_def cancel_ctx_def Let_def split: option.split)
  then show ?thesis
    by (intro exI [of _ "hub_next h"])
      (simp add: viewer_open_def subscribeLogs_def is_subscribed_def log_queue_def lookup_or_def Let_def)
qed

lemma live_tails_start:
  assumes "hub_inv h"
  shows "\<exists>t \<in> set (live_tails sub (tailer_start sub c h)). lt_container t = c"
proof -
  have "hub_next h \<notin> set (cancelled h)" "map_of (cancels h) sub \<noteq> Some (hub_next h)"
    using assms hub_cancels_next [OF assms, of sub] by (auto simp: hub_inv_def)
  then have "\<lparr>lt_ctx = hub_next h, lt_sub = sub, lt_container = c\<rparr> \<in> set (live_tails sub (tailer_start sub c h))"
    by (auto simp: live_tails_def tailer_start_def cancel_ctx_def Let_def split: option.split)
  then show ?thesis by (rule bexI [rotated]) simp
qed

lemma live_tails_open:
  assumes "hub_inv h"
  shows "List.map lt_container (live_tails sub (viewer_open sub c w h)) = [c]"
proof -
  let ?h = "viewer_open sub c w h"
  have inv: "hub_inv ?h" using hub_inv_step [OF assms, of "Hub_open sub c w"] by simp
  define h1 where "h1 = snd (subscribeLogs sub h)"
  have "live_tails sub ?h = live_tails sub (tailer_start sub c h1)"
    by (simp add: viewer_open_def h1_def live_tails_def Let_def split: prod.split)
  moreover have "\<exists>t \<in> set (live_tails sub (tailer_start sub c h1)). lt_container t = c"
    by (rule live_tails_start) (simp add: h1_def hub_inv_subscribe assms)
  ultimately obtain t where t: "t \<in> set (live_tails sub ?h)" "lt_container t = c" by auto
  moreover have "length (live_tails sub ?h) \<le> 1" by (rule hub_inv_live [OF inv])
  ultimately show ?thesis by (cases "live_tails sub ?h") auto
qed


text \<open>A live log is opened for the services that allow it, and for no other. For such a service
  the stream starts with status 200 and an event-stream header, the request is a viewer
  whose empty queue is subscribed to the service, and the service's one live tail reads the
  configured container; for any other path the response is a 404 and the hub is as before.\<close>

theorem live_log_opens:
  assumes "hub_inv (the_hub s)" "\<not> rw_wrote (resp s)"
    and "sub = trimPrefix (rq_Path r) ''/_docknap/logs/''" "s' = exec (handleLogs r) s"
  shows "(if \<exists>cfg. map_of (configs s) sub = Some cfg \<and> LiveLogs cfg
     then (\<exists>ch v. is_subscribed (the_hub s') sub ch \<and> log_queue (the_hub s') ch = [] \<and>
            v \<in> set (viewers (the_hub s')) \<and> vw_chan v = ch \<and> rw_status (vw_resp v) = 200 \<and>
            map_of (fst (rw_sent (vw_resp v))) ''Content-Type'' = Some ''text/event-stream'') \<and>
          Some (List.map lt_container (live_tails sub (the_hub s'))) =
            map_option (\<lambda>cfg. [Container cfg]) (map_of (configs s) sub)
     else the_hub s' = the_hub s \<and> rw_status (resp s') = 404)"
proof (cases "map_of (configs s) sub")
  case None
  then show ?thesis using assms(2) by (simp add: assms(3,4) handleLogs_def unknown_service_def respond_def Let_def)
next
  case (Some cfg)
  show ?thesis
  proof (cases "LiveLogs cfg")
    case False
    then show ?thesis
      using assms(2) Some by (simp add: assms(3,4) handleLogs_def respond_def Let_def)
  next
    case True
    define w where "w = rw_Flush (rw_WriteHeader 200 (rw_Set ''X-Accel-Buffering'' ''no''
      (rw_Set ''Cache-Control'' ''no-store'' (rw_Set ''Content-Type'' ''text/event-stream'' (resp s)))))"
    have s': "the_hub s' = viewer_open sub (Container cfg) w (the_hub s)"
      using True Some by (simp add: assms(3,4) handleLogs_def respond_def set_header_def w_def Let_def)
    have "rw_status w = 200" "map_of (fst (rw_sent w)) ''Content-Type'' = Some ''text/event-stream''"
      using assms(2) by (simp_all add: w_def rw_Flush_def rw_Set_def update_conv')
    then show ?thesis
      using True Some viewer_open_attaches [OF assms(1), of sub "Container cfg" w] live_tails_open [OF assms(1), of sub "Container cfg" w]
      unfolding s' by fastforce
  qed
qed


theorem live_log_opens_witness:
  "List.map lt_container (live_tails ''app'' (the_hub (exec (handleLogs (get_request ''h'' ''/_docknap/logs/app''))
      (example_state\<lparr>configs := [(''app'', example_cfg\<lparr>LiveLogs := True\<rparr>)]\<rparr>)))) = [Container example_cfg]"
proof -
  let ?s = "example_state\<lparr>configs := [(''app'', example_cfg\<lparr>LiveLogs := True\<rparr>)]\<rparr>"
  let ?r = "get_request ''h'' ''/_docknap/logs/app''"
  have sub: "trimPrefix (rq_Path ?r) ''/_docknap/logs/'' = ''app''" by (simp add: trimPrefix_def get_request_def)
  have "the_hub ?s = new_hub" "\<not> rw_wrote (resp ?s)"
    by (simp_all add: example_state_def newDocknap_def new_response_def split: prod.split)
  then show ?thesis
    using live_log_opens [of ?s "''app''" ?r, OF _ _ _ refl] hub_inv_new by (simp add: sub)
qed

end
