(* ===== verification/Proxy.thy ===== *)
theory Proxy
  imports Handlers Subdomain
begin

text \<open>
  \<open>handleProxy\<close> of \<open>proxy.go\<close>: the entry for every request that is not for the admin interface.
  The reverse proxy of the library is a call into the world that yields its calls on the
  response writer and how it ended (\<open>env_proxy\<close>). The result of \<open>handleProxy\<close> is the panic it
  ends in, if any: the library aborts a half-copied response with \<open>http.ErrAbortHandler\<close>.
\<close>

definition abort_handler :: panic where
  "abort_handler = PanicError ''net/http: abort Handler''"

text \<open>The \<open>ErrorHandler\<close> that \<open>handleProxy\<close> installs.\<close>

definition proxy_error :: "request \<Rightarrow> config \<Rightarrow> err \<Rightarrow> ('w, unit) prog" where
  "proxy_error r cfg er = do {
     log_at LevelWarn ''proxy error'' [(''container'', JStr (Container cfg)), (''err'', JStr er)];
     sent \<leftarrow> gets (\<lambda>s. headersSent (recorder s));
     if sent then
       log_at LevelDebug ''headers already sent, aborting connection''
         [(''container'', JStr (Container cfg)), (''subdomain'', JStr (Subdomain cfg))]
     else do {
       modify (\<lambda>s. s\<lparr>recorder := (recorder s)\<lparr>rec_status := 503\<rparr>\<rparr>);
       serveLoading Recorded r cfg
     }
   }"

definition proxy_forward :: "'w env \<Rightarrow> request \<Rightarrow> config \<Rightarrow> string \<Rightarrow> ('w, panic option) prog" where
  "proxy_forward e r cfg target = do {
     p \<leftarrow> ask (env_proxy e target r);
     for_each (fst p) (w_call Recorded);
     case snd p of
       ProxyDone \<Rightarrow> ret None
     | ProxyFailed er \<Rightarrow> do { proxy_error r cfg er; ret None }
     | ProxyAborted \<Rightarrow> ret (Some abort_handler)
   }"

text \<open>The page for a service that is not up: ask for a start, then show the loading page.\<close>

definition note_start_error :: "string \<Rightarrow> config \<Rightarrow> err option \<Rightarrow> ('w, unit) prog" where
  "note_start_error sub cfg err =
     (case err of
        None \<Rightarrow> ret ()
      | Some er \<Rightarrow> do {
          log_at LevelError ''start failed'' [(''container'', JStr (Container cfg)), (''err'', JStr er)];
          count_at mh_StartFail [''subdomain'' \<mapsto> sub, ''reason'' \<mapsto> ''start_error'']
        })"

definition proxy_loading :: "'w env \<Rightarrow> request \<Rightarrow> string \<Rightarrow> config \<Rightarrow> ('w, panic option) prog" where
  "proxy_loading e r sub cfg = do {
     err \<leftarrow> startContainer e cfg;
     note_start_error sub cfg err;
     modify (\<lambda>s. s\<lparr>recorder := (recorder s)\<lparr>rec_status := 503\<rparr>\<rparr>);
     serveLoading Recorded r cfg;
     ret None
   }"

definition proxy_up :: "'w env \<Rightarrow> request \<Rightarrow> config \<Rightarrow> ('w, panic option) prog" where
  "proxy_up e r cfg = do {
     resetIdleTimer e cfg;
     target \<leftarrow> getTargetURL e cfg;
     case target of
       Inl er \<Rightarrow> do {
         log_at LevelError ''target unavailable'' [(''container'', JStr (Container cfg)), (''err'', JStr er)];
         http_error_to Recorded ''service unavailable'' 502;
         modify (\<lambda>s. s\<lparr>recorder := (recorder s)\<lparr>rec_status := 502\<rparr>\<rparr>);
         ret None
       }
     | Inr t \<Rightarrow> proxy_forward e r cfg t
   }"

text \<open>The deferred function: it runs however the request ends.\<close>

definition proxy_count :: "'w env \<Rightarrow> string \<Rightarrow> time \<Rightarrow> ('w, unit) prog" where
  "proxy_count e sub start = do {
     status \<leftarrow> gets (\<lambda>s. rec_status (recorder s));
     count_at mh_Proxy [''subdomain'' \<mapsto> sub, ''status'' \<mapsto> strconv_Itoa status];
     now \<leftarrow> time_Now e;
     observe_at mh_ProxyDur (sub_label sub) (duration_Seconds (time_Sub now start))
   }"

definition proxy_service :: "'w env \<Rightarrow> request \<Rightarrow> string \<Rightarrow> config \<Rightarrow> ('w, panic option) prog" where
  "proxy_service e r sub cfg = do {
     start \<leftarrow> time_Now e;
     modify (\<lambda>s. s\<lparr>recorder := new_recorder\<rparr>);
     acquireStartLock (Container cfg);
     port \<leftarrow> checkPort e cfg;
     p \<leftarrow> (if \<not> snd port then proxy_loading e r sub cfg else proxy_up e r cfg);
     proxy_count e sub start;
     ret p
   }"

definition is_admin_host :: "request \<Rightarrow> 'w docknap \<Rightarrow> bool" where
  "is_admin_host r s \<longleftrightarrow> adminHost s \<noteq> [] \<and> hd (strings_Split CHR '':'' (rq_Host r)) = adminHost s"

definition handleProxy :: "'w env \<Rightarrow> request \<Rightarrow> ('w, panic option) prog" where
  "handleProxy e r = do {
     admin \<leftarrow> gets (is_admin_host r);
     if admin then do { requireAuth e (handleAdmin e) (r\<lparr>rq_Path := ''/_docknap/ui''\<rparr>); ret None }
     else do {
       sub \<leftarrow> gets (\<lambda>s. extractSubdomain (rq_Host r) (tldCount s));
       if sub = [] then do { respond (http_Error ''no subdomain in host'' 400); ret None }
       else do {
         c \<leftarrow> gets (\<lambda>s. map_of (configs s) sub);
         case c of
           None \<Rightarrow> do { respond (http_Error (''unknown service: '' @ sub) 404); ret None }
         | Some cfg \<Rightarrow> proxy_service e r sub cfg
       }
     }
   }"

lemma preserves_proxy_end [preserve_rules]:
  "preserves P a \<Longrightarrow> (\<And>x. preserves P (b x)) \<Longrightarrow> preserves P c \<Longrightarrow>
    preserves P (case p of ProxyDone \<Rightarrow> a | ProxyFailed x \<Rightarrow> b x | ProxyAborted \<Rightarrow> c)"
  by (cases p) simp_all

context frame_invariant
begin

lemma keeps_proxy_error [preserve_rules]: "preserves P (proxy_error r cfg er)"
  unfolding proxy_error_def by (intro preserve_rules preserves_modify frame_facts)

lemma keeps_proxy_forward [preserve_rules]: "preserves P (proxy_forward e r cfg t)"
  unfolding proxy_forward_def by (intro preserve_rules)

lemma keeps_proxy_loading [preserve_rules]: "preserves P (proxy_loading e r sub cfg)"
  unfolding proxy_loading_def note_start_error_def by (intro preserve_rules preserves_modify frame_facts)

lemma keeps_proxy_count [preserve_rules]: "preserves P (proxy_count e sub t)"
  unfolding proxy_count_def by (intro preserve_rules)

end

text \<open>Only the idle timer of the service is touched.\<close>

context service_invariant
begin

lemma keeps_proxy_up [preserve_rules]: "preserves P (proxy_up e r cfg)"
  unfolding proxy_up_def by (intro preserve_rules preserves_modify frame_facts)

lemma keeps_handleProxy [preserve_rules]: "preserves P (handleProxy e r)"
  unfolding handleProxy_def proxy_service_def
  by (intro preserve_rules preserves_modify frame_facts) simp

end

subsection \<open>Requests without a service\<close>

text \<open>A request for nobody changes nothing. If the host is not the admin host and gives no
  subdomain, the answer is 400; if it gives a subdomain that is not registered, the answer is
  404. Nothing but the response changes: no start, no timer, no counter.\<close>

theorem proxy_refuses:
  assumes "\<not> is_admin_host r s" "sub = extractSubdomain (rq_Host r) (tldCount s)" "map_of (configs s) sub = None"
  shows "run_state (handleProxy e r) s =
    (None, s\<lparr>resp := (if sub = [] then http_Error ''no subdomain in host'' 400 (resp s)
                     else http_Error (''unknown service: '' @ sub) 404 (resp s))\<rparr>)"
  using assms by (simp add: handleProxy_def respond_def)

theorem proxy_refuses_witness:
  "run_state (handleProxy (example_env None) (get_request ''app.example.org'' ''/'')) (example_state\<lparr>tldCount := 2\<rparr>) =
    (None, (example_state\<lparr>tldCount := 2\<rparr>)\<lparr>resp := http_Error (''unknown service: app'') 404 new_response\<rparr>)"
proof -
  have sub: "extractSubdomain ''app.example.org'' 2 = ''app''" by code_simp
  have "\<not> is_admin_host (get_request ''app.example.org'' ''/'') (example_state\<lparr>tldCount := 2\<rparr>)"
    by (simp add: is_admin_host_def example_state_def newDocknap_def split: prod.splits)
  from proxy_refuses [OF this refl, of "example_env None"] show ?thesis
    by (simp add: sub get_request_def)
qed

subsection \<open>Every request is counted under the status it got\<close>

text \<open>The recorder and the response agree.\<close>

definition rec_synced :: "'w docknap \<Rightarrow> bool" where
  "rec_synced s \<longleftrightarrow> rec_wroteHeader (recorder s) = rw_wrote (resp s) \<and>
     rec_status (recorder s) = (if rw_wrote (resp s) then rw_status (resp s) else 200)"

lemma rec_synced_cong:
  "resp s = resp s' \<Longrightarrow> recorder s = recorder s' \<Longrightarrow> rec_synced s = rec_synced s'"
  by (simp add: rec_synced_def)

lemma rec_synced_final: "rec_synced s \<Longrightarrow> rec_status (recorder s) = rw_status (rw_final (resp s))"
  by (auto simp: rec_synced_def rw_final_def rw_Flush_def)

lemma rec_synced_call:
  "rec_synced s \<Longrightarrow> (\<And>c. x = WHeader c \<Longrightarrow> \<not> informational c) \<Longrightarrow> rec_synced (exec (w_call Recorded x) s)"
  by (cases x)
     (auto simp: rec_synced_def w_call_def rec_WriteHeader_def rec_Write_def rw_WriteHeader_sent split: prod.splits)

lemma rec_synced_calls:
  "rec_synced s \<Longrightarrow> (\<And>c. WHeader c \<in> set xs \<Longrightarrow> \<not> informational c) \<Longrightarrow>
    rec_synced (exec (for_each xs (w_call Recorded)) s)"
proof (induction xs arbitrary: s)
  case (Cons x xs)
  have "rec_synced (exec (w_call Recorded x) s)"
    by (rule rec_synced_call [OF Cons.prems(1)]) (use Cons.prems(2) in simp)
  with Cons show ?case by simp
qed simp

lemma exec_Recorded:
  "exec (w_call Recorded (WHeader c)) s =
    s\<lparr>recorder := (if rec_wroteHeader (recorder s) then recorder s
                  else (recorder s)\<lparr>rec_status := c, rec_wroteHeader := True\<rparr>),
      resp := rw_WriteHeader c (resp s)\<rparr>"
  "exec (w_call Recorded (WBody b)) s =
    s\<lparr>recorder := (if rec_wroteHeader (recorder s) then recorder s
                  else (recorder s)\<lparr>rec_status := 200, rec_wroteHeader := True\<rparr>),
      resp := rw_Write b (resp s)\<rparr>"
  by (simp_all add: w_call_def rec_WriteHeader_def rec_Write_def)

lemma Recorded_sel [simp]:
  "reg (exec (w_call Recorded x) s) = reg s" "mm (exec (w_call Recorded x) s) = mm s"
  by (cases x; simp add: exec_Recorded)+

text \<open>The two ways in which the code sets the recorded status by hand.\<close>

lemma loading_status:
  assumes "rec_synced s" "\<not> rec_wroteHeader (recorder s)"
    and "s' = exec (serveLoading Recorded r cfg) (s\<lparr>recorder := (recorder s)\<lparr>rec_status := 503\<rparr>\<rparr>)"
  shows "rec_synced s' \<and> rw_wrote (resp s') \<and> rw_status (resp s') = 503
    \<and> rw_body (resp s') = rw_body (resp s) @ [Page ''loading.html'' (loading_fields (loadingData cfg))] \<and> reg s' = reg s \<and> mm s' = mm s"
  using assms
  by (simp add: serveLoading_def already_sent_def headersSent_def exec_Recorded rec_synced_def)

lemma bad_gateway_status:
  assumes "rec_synced s" "\<not> rec_wroteHeader (recorder s)"
    and "u = exec (http_error_to Recorded m 502) s"
  shows "rec_synced (u\<lparr>recorder := (recorder u)\<lparr>rec_status := 502\<rparr>\<rparr>) \<and> reg u = reg s \<and> mm u = mm s"
  using assms
  by (simp add: http_error_to_def exec_Recorded rec_synced_def)

definition proxy_labels :: "string \<Rightarrow> string \<Rightarrow> label_map" where
  "proxy_labels sub st = [''subdomain'' \<mapsto> sub, ''status'' \<mapsto> st]"

text \<open>The counter of requests as a metric, and the handles of the counters being different.\<close>

definition request_counter :: "'w docknap \<Rightarrow> metric" where
  "request_counter s = metrics (reg s) ! mh_Proxy (mm s)"

definition wf_request_counter :: "'w docknap \<Rightarrow> bool" where
  "wf_request_counter s \<longleftrightarrow> mh_Proxy (mm s) < length (metrics (reg s))
     \<and> m_labels (request_counter s) = [''subdomain'', ''status'']
     \<and> mh_Starts (mm s) \<noteq> mh_Proxy (mm s) \<and> mh_StartFail (mm s) \<noteq> mh_Proxy (mm s)"

definition same_requests :: "'w docknap \<Rightarrow> 'w docknap \<Rightarrow> bool" where
  "same_requests s s' \<longleftrightarrow> mm s' = mm s \<and> request_counter s' = request_counter s
     \<and> length (metrics (reg s')) = length (metrics (reg s))"

lemma same_requests_reg: "reg s' = reg s \<Longrightarrow> mm s' = mm s \<Longrightarrow> same_requests s s'"
  by (simp add: same_requests_def request_counter_def)

lemma same_requests_trans: "same_requests s s' \<Longrightarrow> same_requests s' s'' \<Longrightarrow> same_requests s s''"
  by (simp add: same_requests_def)

lemma same_requests_other:
  "h (mm s) \<noteq> mh_Proxy (mm s) \<Longrightarrow> reg s' = Counter_Add (h (mm s)) l v (reg s) \<Longrightarrow> mm s' = mm s \<Longrightarrow> same_requests s s'"
  by (simp add: same_requests_def request_counter_def Counter_Add_def update_metric_def)

lemma wf_same_requests: "same_requests s s' \<Longrightarrow> wf_request_counter s \<Longrightarrow> wf_request_counter s'"
  by (simp add: same_requests_def wf_request_counter_def)

lemma mark_recorder [simp]: "recorder (exec (markBootStart e sub) s) = recorder s"
  by (simp add: markBootStart_def split: option.split)

lemma start_parts_sel [simp]:
  "recorder (exec (announce_start e cfg) s) = recorder s" "mm (exec (announce_start e cfg) s) = mm s"
  "recorder (exec (start_failed e cfg er) s) = recorder s" "mm (exec (start_failed e cfg er) s) = mm s"
  by (simp_all add: announce_start_def start_failed_def clearBootStart_def)

lemma stopped_sel [simp]:
  "recorder (exec (start_stopped e cfg info) s) = recorder s" "mm (exec (start_stopped e cfg info) s) = mm s"
  by (simp_all add: start_stopped_def split: option.split)

lemma start_sel [simp]:
  "recorder (exec (startContainer e cfg) s) = recorder s"
  "mm (exec (startContainer e cfg) s) = mm s"
  by (simp_all add: startContainer_def split: sum.split)

lemma start_requests:
  assumes "mh_Starts (mm s) \<noteq> mh_Proxy (mm s)"
  shows "same_requests s (exec (startContainer e cfg) s)"
proof -
  have "reg (exec (startContainer e cfg) s) = reg s \<or>
      reg (exec (startContainer e cfg) s) = Counter_Add (mh_Starts (mm s)) (sub_label (Subdomain cfg)) 1 (reg s)"
    by (simp add: startContainer_def start_stopped_def split: sum.splits option.splits)
  then show ?thesis
    using same_requests_reg [of "exec (startContainer e cfg) s" s]
      same_requests_other [of mh_Starts s "exec (startContainer e cfg) s" "sub_label (Subdomain cfg)" 1] assms by auto
qed

lemma note_sel [simp]:
  "resp (exec (note_start_error sub cfg err) s) = resp s"
  "recorder (exec (note_start_error sub cfg err) s) = recorder s"
  "mm (exec (note_start_error sub cfg err) s) = mm s"
  by (simp_all add: note_start_error_def split: option.split)

lemma note_requests:
  "mh_StartFail (mm s) \<noteq> mh_Proxy (mm s) \<Longrightarrow> same_requests s (exec (note_start_error sub cfg err) s)"
  by (cases err) (simp_all add: note_start_error_def same_requests_reg same_requests_other [of mh_StartFail])

lemma reset_sel [simp]:
  "resp (exec (resetIdleTimer e cfg) s) = resp s" "recorder (exec (resetIdleTimer e cfg) s) = recorder s"
  "reg (exec (resetIdleTimer e cfg) s) = reg s" "mm (exec (resetIdleTimer e cfg) s) = mm s"
  by (simp_all add: resetIdleTimer_def exec_set_idle_timer timer_Stop_def Let_def split: option.splits prod.splits)

lemma target_sel [simp]:
  "resp (exec (getTargetURL e cfg) s) = resp s" "recorder (exec (getTargetURL e cfg) s) = recorder s"
  "reg (exec (getTargetURL e cfg) s) = reg s" "mm (exec (getTargetURL e cfg) s) = mm s"
  by (simp_all add: getTargetURL_def getContainerIP_def)

lemma calls_sel [simp]:
  "reg (exec (for_each xs (w_call Recorded)) s) = reg s" "mm (exec (for_each xs (w_call Recorded)) s) = mm s"
  by (induction xs arbitrary: s) simp_all

text \<open>What each way of answering leaves behind: recorder and response agree, and the counter of
  requests is untouched.\<close>

definition answered :: "'w docknap \<Rightarrow> 'w docknap \<Rightarrow> bool" where
  "answered s u \<longleftrightarrow> rec_synced u \<and> same_requests s u"

lemma answered_loading:
  assumes "rec_synced s" "\<not> rec_wroteHeader (recorder s)" "wf_request_counter s"
  shows "answered s (exec (proxy_loading e r sub cfg) s) \<and> rw_wrote (resp (exec (proxy_loading e r sub cfg) s))
    \<and> rw_status (resp (exec (proxy_loading e r sub cfg) s)) = 503
    \<and> rw_body (resp (exec (proxy_loading e r sub cfg) s)) = rw_body (resp s) @ [Page ''loading.html'' (loading_fields (loadingData cfg))]"
proof -
  define s1 where "s1 = exec (startContainer e cfg) s"
  define u where "u = exec (note_start_error sub cfg (result (startContainer e cfg) s)) s1"
  have h: "mh_Starts (mm s) \<noteq> mh_Proxy (mm s)" "mh_StartFail (mm s1) \<noteq> mh_Proxy (mm s1)"
    using assms(3) by (simp_all add: wf_request_counter_def s1_def)
  have u: "resp u = resp s" "recorder u = recorder s" "same_requests s u"
    "exec (proxy_loading e r sub cfg) s =
      exec (serveLoading Recorded r cfg) (u\<lparr>recorder := (recorder u)\<lparr>rec_status := 503\<rparr>\<rparr>)"
    using same_requests_trans [OF start_requests [OF h(1)] note_requests] h(2)
    by (simp_all add: u_def s1_def proxy_loading_def)
  have "rec_synced u" "\<not> rec_wroteHeader (recorder u)" using assms u rec_synced_cong [of u s] by simp_all
  from loading_status [OF this u(4)] u show ?thesis
    using same_requests_trans [OF u(3) same_requests_reg] by (simp add: answered_def)
qed

lemma answered_error:
  assumes "rec_synced s"
  shows "answered s (exec (proxy_error r cfg er) s)"
proof (cases "rec_wroteHeader (recorder s)")
  case True
  then show ?thesis
    using assms rec_synced_cong [of _ s] by (simp add: proxy_error_def headersSent_def answered_def same_requests_reg rec_synced_def)
next
  case False
  let ?s = "s\<lparr>logs := logs s @ [(LevelWarn, ''proxy error'', [(''container'', JStr (Container cfg)), (''err'', JStr er)])]\<rparr>"
  have "rec_synced ?s" using assms by (simp add: rec_synced_def)
  from loading_status [OF this _ refl, of r cfg] False show ?thesis
    by (simp add: proxy_error_def headersSent_def answered_def same_requests_reg)
qed

lemma answered_up:
  assumes "rec_synced s" "\<not> rec_wroteHeader (recorder s)"
    and "\<And>t w c. WHeader c \<in> set (fst (fst (env_proxy e t r w))) \<Longrightarrow> \<not> informational c"
  shows "answered s (exec (proxy_up e r cfg) s)"
proof -
  define s1 where "s1 = exec (getTargetURL e cfg) (exec (resetIdleTimer e cfg) s)"
  have s1: "resp s1 = resp s" "recorder s1 = recorder s" "reg s1 = reg s" "mm s1 = mm s"
    by (simp_all add: s1_def)
  then have sync: "rec_synced s1" "\<not> rec_wroteHeader (recorder s1)" "same_requests s s1"
    using assms(1,2) rec_synced_cong [of s1 s] same_requests_reg [of s1 s] by simp_all
  show ?thesis
  proof (cases "result (getTargetURL e cfg) (exec (resetIdleTimer e cfg) s)")
    case (Inl er)
    let ?s = "s1\<lparr>logs := logs s1 @ [(LevelError, ''target unavailable'', [(''container'', JStr (Container cfg)), (''err'', JStr er)])]\<rparr>"
    have "rec_synced ?s" using sync by (simp add: rec_synced_def)
    from bad_gateway_status [OF this _ refl, of "''service unavailable''"] sync Inl
    have "answered s1 (exec (proxy_up e r cfg) s)"
      by (simp add: proxy_up_def answered_def s1_def [symmetric] same_requests_reg)
    then show ?thesis using same_requests_trans [OF sync(3)] by (simp add: answered_def)
  next
    case (Inr t)
    let ?w = "env_proxy e t r (world s1)"
    define u where "u = exec (for_each (fst (fst ?w)) (w_call Recorded)) (s1\<lparr>world := snd ?w\<rparr>)"
    have "rec_synced u"
      unfolding u_def by (rule rec_synced_calls) (use sync assms(3) in \<open>auto simp: rec_synced_def\<close>)
    moreover have "same_requests s u"
      by (rule same_requests_trans [OF sync(3) same_requests_reg]) (simp_all add: u_def)
    moreover have "exec (proxy_up e r cfg) s = (case snd (fst ?w) of ProxyFailed er \<Rightarrow> exec (proxy_error r cfg er) u | _ \<Rightarrow> u)"
      using Inr by (simp add: proxy_up_def proxy_forward_def s1_def [symmetric] u_def [symmetric] split: proxy_end.splits)
    ultimately show ?thesis
      using answered_error [of u] same_requests_trans [of s u] by (auto simp: answered_def split: proxy_end.splits)
  qed
qed

definition proxy_requests :: "'w docknap \<Rightarrow> string \<Rightarrow> string \<Rightarrow> f64" where
  "proxy_requests s sub st = metric_value (request_counter s) (proxy_labels sub st)"

lemma no_nul_show_nat: "no_nul (show_nat n)"
  using show_nat_digits [of n] by (auto simp: is_digit_def byte_def)

lemma no_nul_Itoa: "no_nul (strconv_Itoa n)"
  using no_nul_show_nat by (simp add: strconv_Itoa_def show_int_def)

lemma exec_proxy_count:
  assumes "wf_request_counter s" "no_nul sub" "no_nul st"
  shows "proxy_requests (exec (proxy_count e sub t) s) sub st =
      (if st = strconv_Itoa (rec_status (recorder s)) then f64_add (proxy_requests s sub st) 1
       else proxy_requests s sub st)"
    and "resp (exec (proxy_count e sub t) s) = resp s"
proof -
  let ?l = "proxy_labels sub (strconv_Itoa (rec_status (recorder s)))"
  let ?m = "request_counter s"
  have labels: "m_labels ?m = [''subdomain'', ''status'']" "mh_Proxy (mm s) < length (metrics (reg s))"
    using assms(1) by (simp_all add: wf_request_counter_def)
  have "request_counter (exec (proxy_count e sub t) s) = metric_add ?l 1 ?m"
    using labels(2)
    by (simp add: proxy_count_def request_counter_def proxy_labels_def Counter_Add_def update_metric_def Histogram_Observe_def)
  moreover have "metric_value (metric_add ?l 1 ?m) (proxy_labels sub st) =
      (if agree_on (m_labels ?m) ?l (proxy_labels sub st) then f64_add (metric_value ?m (proxy_labels sub st)) 1
       else metric_value ?m (proxy_labels sub st))"
    by (rule metric_value_add) (simp_all add: labels clean_labels_def proxy_labels_def assms no_nul_Itoa)
  ultimately show "proxy_requests (exec (proxy_count e sub t) s) sub st =
      (if st = strconv_Itoa (rec_status (recorder s)) then f64_add (proxy_requests s sub st) 1
       else proxy_requests s sub st)"
    by (auto simp: proxy_requests_def agree_on_def labels proxy_labels_def)
  show "resp (exec (proxy_count e sub t) s) = resp s" by (simp add: proxy_count_def)
qed

text \<open>The state in which the port is probed.\<close>

definition proxy_probe :: "'w env \<Rightarrow> config \<Rightarrow> 'w docknap \<Rightarrow> 'w docknap" where
  "proxy_probe e cfg s = exec (acquireStartLock (Container cfg))
     (s\<lparr>world := snd (env_now e (world s)), recorder := new_recorder\<rparr>)"

definition port_open :: "'w env \<Rightarrow> config \<Rightarrow> 'w docknap \<Rightarrow> bool" where
  "port_open e cfg s \<longleftrightarrow> snd (result (checkPort e cfg) (s\<lparr>world := snd (env_now e (world s))\<rparr>))"

definition for_service :: "request \<Rightarrow> 'w docknap \<Rightarrow> string \<Rightarrow> config \<Rightarrow> bool" where
  "for_service r s sub cfg \<longleftrightarrow> \<not> is_admin_host r s \<and> sub = extractSubdomain (rq_Host r) (tldCount s)
     \<and> sub \<noteq> [] \<and> map_of (configs s) sub = Some cfg"

lemma networkName_lock [simp]: "networkName (exec (acquireStartLock k) s) = networkName s"
  by (simp add: acquireStartLock_def split: option.splits)

lemma exec_handleProxy:
  assumes "for_service r s sub cfg" "u = exec (checkPort e cfg) (proxy_probe e cfg s)"
  shows "exec (handleProxy e r) s = exec (proxy_count e sub (fst (env_now e (world s))))
    (exec (if port_open e cfg s then proxy_up e r cfg else proxy_loading e r sub cfg) u)"
proof -
  have "result (checkPort e cfg) (proxy_probe e cfg s) = result (checkPort e cfg) (s\<lparr>world := snd (env_now e (world s))\<rparr>)"
    by (rule result_checkPort_cong) (simp_all add: proxy_probe_def)
  then show ?thesis
    using assms by (auto simp: handleProxy_def for_service_def proxy_service_def port_open_def proxy_probe_def)
qed

lemma probe_state:
  assumes "resp s = new_response" "u = exec (checkPort e cfg) (proxy_probe e cfg s)"
  shows "rec_synced u" "\<not> rec_wroteHeader (recorder u)" "same_requests s u" "resp u = new_response"
  using assms
  by (simp_all add: proxy_probe_def rec_synced_def new_recorder_def new_response_def same_requests_reg)

text \<open>C4: Every request for a service is counted once, under the status the client gets, whichever way
  it ends: loading page, unreachable target, forwarded, failed or aborted by the library. (The
  target sends no informational header.)\<close>

theorem proxy_counts_request:
  assumes "for_service r s sub cfg" "resp s = new_response" "wf_request_counter s" "no_nul sub" "no_nul st"
    and "\<And>t w c. WHeader c \<in> set (fst (fst (env_proxy e t r w))) \<Longrightarrow> \<not> informational c"
    and "s' = exec (handleProxy e r) s"
  shows "proxy_requests s' sub st =
    (if st = strconv_Itoa (rw_status (rw_final (resp s'))) then f64_add (proxy_requests s sub st) 1
     else proxy_requests s sub st)"
proof -
  define u where "u = exec (checkPort e cfg) (proxy_probe e cfg s)"
  define v where "v = exec (if port_open e cfg s then proxy_up e r cfg else proxy_loading e r sub cfg) u"
  note pu = probe_state [OF assms(2) u_def]
  have "wf_request_counter u" by (rule wf_same_requests [OF pu(3) assms(3)])
  then have "answered u v"
    using answered_loading [OF pu(1,2)] answered_up [OF pu(1,2) assms(6)] by (simp add: v_def)
  then have v: "rec_synced v" "same_requests s v"
    using same_requests_trans [OF pu(3)] by (simp_all add: answered_def)
  have wf: "wf_request_counter v" by (rule wf_same_requests [OF v(2) assms(3)])
  have s': "s' = exec (proxy_count e sub (fst (env_now e (world s)))) v"
    using exec_handleProxy [OF assms(1) u_def] assms(7) by (simp add: v_def)
  have "proxy_requests v sub st = proxy_requests s sub st"
    using v(2) by (simp add: proxy_requests_def same_requests_def)
  then show ?thesis
    using exec_proxy_count [OF wf assms(4,5), of e "fst (env_now e (world s))"] rec_synced_final [OF v(1)]
    by (simp only: s')
qed

lemma loading_response:
  assumes "for_service r s sub cfg" "resp s = new_response" "wf_request_counter s" "\<not> port_open e cfg s"
    and "s' = exec (handleProxy e r) s"
  shows "rw_status (resp s') = 503" "rw_wrote (resp s')"
    "rw_body (resp s') = [Page ''loading.html'' (loading_fields (loadingData cfg))]"
proof -
  define u where "u = exec (checkPort e cfg) (proxy_probe e cfg s)"
  note pu = probe_state [OF assms(2) u_def]
  have "wf_request_counter u" by (rule wf_same_requests [OF pu(3) assms(3)])
  note v = answered_loading [OF pu(1,2) this, of e r sub cfg]
  have "resp s' = resp (exec (proxy_loading e r sub cfg) u)"
    using exec_handleProxy [OF assms(1) u_def] assms(4,5) by (simp add: proxy_count_def)
  then show "rw_status (resp s') = 503" "rw_wrote (resp s')"
    "rw_body (resp s') = [Page ''loading.html'' (loading_fields (loadingData cfg))]"
    using v pu(4) by (simp_all add: new_response_def)
qed

definition proxy_state :: "nat docknap" where
  "proxy_state = example_state\<lparr>tldCount := 2, configs := [(''app'', example_cfg)], networkName := ''net''\<rparr>"

lemma for_example: "for_service (get_request ''app.example.org'' ''/'') proxy_state ''app'' example_cfg"
proof -
  have "extractSubdomain ''app.example.org'' 2 = ''app''" by code_simp
  moreover have "adminHost example_state = []"
    by (simp add: example_state_def newDocknap_def split: prod.splits)
  ultimately show ?thesis
    by (simp add: for_service_def proxy_state_def is_admin_host_def get_request_def)
qed

lemma wf_proxy_state: "wf_request_counter proxy_state" "proxy_requests proxy_state sub st = 0"
  by (simp_all add: wf_request_counter_def request_counter_def proxy_state_def example_state_def newDocknap_def
      newMetrics_def Registry_Counter_def Registry_Gauge_def Registry_Histogram_def new_metric_def NewRegistry_def
      proxy_requests_def metric_value_def)

lemma closed_example: "resp proxy_state = new_response" "\<not> port_open (example_env None) example_cfg proxy_state"
  by (simp_all add: proxy_state_def port_open_def checkPort_def getContainerIP_def) (simp add: example_env_def)

theorem proxy_counts_request_witness:
  "proxy_requests (exec (handleProxy (example_env None) (get_request ''app.example.org'' ''/'')) proxy_state) ''app'' ''503'' = 1"
proof -
  let ?s = "exec (handleProxy (example_env None) (get_request ''app.example.org'' ''/'')) proxy_state"
  have quiet: "\<not> informational c" if "WHeader c \<in> set (fst (fst (env_proxy (example_env None) t r w)))" for c t r w
    using that by (simp add: example_env_def)
  have "rw_status (rw_final (resp ?s)) = 503"
    using loading_response [OF for_example closed_example(1) wf_proxy_state(1) closed_example(2) refl]
    by (simp add: rw_final_def rw_Flush_def)
  moreover have "strconv_Itoa 503 = ''503''" by (simp add: strconv_Itoa_def show_int_def go_simps digit_def)
  moreover have "f64_add 0 1 = 1" using f64_add_of_nat [of 0 1] by simp
  ultimately show ?thesis
    using proxy_counts_request [OF for_example closed_example(1) wf_proxy_state(1) _ _ quiet refl, of "''503''"]
      wf_proxy_state(2)
    by simp
qed

text \<open>A request for a service that is not up gets the loading page with status 503, at once; no idle
  timer is set or cancelled, so a container that is still starting is not stopped by it.\<close>

theorem proxy_shows_loading:
  assumes "for_service r s sub cfg" "resp s = new_response" "wf_request_counter s" "\<not> port_open e cfg s"
    and "s' = exec (handleProxy e r) s"
  shows "rw_status (resp s') = 503 \<and> rw_body (resp s') = [Page ''loading.html'' (loading_fields (loadingData cfg))]
    \<and> timers s' = timers s \<and> idleTimers s' = idleTimers s"
proof -
  have "preserves (\<lambda>x. (timers x, idleTimers x) = t) (proxy_count e sub u)"
    "preserves (\<lambda>x. (timers x, idleTimers x) = t) (proxy_loading e r sub cfg)" for t u
    by (intro preserve_rules)+
  note kept = this [THEN preserves_eq [of "\<lambda>x. (timers x, idleTimers x)"]]
  have "timers s' = timers s \<and> idleTimers s' = idleTimers s"
    using exec_handleProxy [OF assms(1) refl, of e] assms(4,5) kept by (simp add: proxy_probe_def)
  then show ?thesis using loading_response [OF assms] by simp
qed

theorem proxy_shows_loading_witness:
  "rw_status (resp (exec (handleProxy (example_env None) (get_request ''app.example.org'' ''/'')) proxy_state)) = 503"
  using proxy_shows_loading [OF for_example closed_example(1) wf_proxy_state(1) closed_example(2) refl] by simp


definition up_env :: "nat env" where
  "up_env = (example_env None)\<lparr>env_inspect := (\<lambda>_ w. (Inr \<lparr>in_Running = True, in_Paused = False,
     in_Status = ''running'', in_StartedAt = [], in_Networks = [''net'' \<mapsto> ''10.0.0.2'']\<rparr>, w))\<rparr>"


text \<open>A cut-off response looks complete. When the target breaks off in the middle of a body whose
  length it did not announce, the library aborts with a panic so that the client sees a broken transfer. \<open>recoverMiddleware\<close>
  swallows that panic: the client gets the status and the part of the body that came, then
  the words of the error as more body, and a regular end.\<close>

theorem aborted_copy_looks_complete:
  "recoverMiddleware
     (\<lambda>r w. (fold raw_call [WHeader 200, WBody (Text ''half'')] w, Some abort_handler)) r new_response =
   (\<lparr>rw_header = [], rw_cookies = [], rw_wrote = True, rw_status = 200, rw_sent = ([], []), rw_info = [],
      rw_body = [Text ''half'', Text ''internal server error'']\<rparr>,
    Some (''panic in handler'', [(''path'', rq_Path r), (''method'', rq_Method r),
      (''err'', ''net/http: abort Handler'')]))"
  by (simp add: recoverMiddleware_def abort_handler_def anyToString_def rw_WriteHeader_def rw_Write_def
      new_response_def informational_def)

subsection \<open>A stop between the probe and the forwarding\<close>

text \<open>The two parts of a request for a service, with a point between them where other goroutines run:
  the lock is released after the probe, and \<open>stopContainerWithReason\<close> does not take it.\<close>

definition probe_part :: "'w env \<Rightarrow> config \<Rightarrow> ('w, time \<times> bool) prog" where
  "probe_part e cfg = do {
     start \<leftarrow> time_Now e;
     modify (\<lambda>s. s\<lparr>recorder := new_recorder\<rparr>);
     acquireStartLock (Container cfg);
     port \<leftarrow> checkPort e cfg;
     ret (start, snd port)
   }"

definition answer_part :: "'w env \<Rightarrow> request \<Rightarrow> string \<Rightarrow> config \<Rightarrow> time \<times> bool \<Rightarrow> ('w, panic option) prog" where
  "answer_part e r sub cfg probe = do {
     p \<leftarrow> (if \<not> snd probe then proxy_loading e r sub cfg else proxy_up e r cfg);
     proxy_count e sub (fst probe);
     ret p
   }"

lemma proxy_service_parts:
  "run_state (proxy_service e r sub cfg) s =
    run_state (answer_part e r sub cfg (result (probe_part e cfg) s)) (exec (probe_part e cfg) s)"
  by (simp add: proxy_service_def probe_part_def answer_part_def run_state_pair)

lemma stop_sel [simp]:
  "resp (exec (stopContainerWithReason e cfg c) s) = resp s"
  "recorder (exec (stopContainerWithReason e cfg c) s) = recorder s"
  "bootStarts (exec (stopContainerWithReason e cfg c) s) = bootStarts s"
  by (simp_all add: stopContainerWithReason_def pauseContainer_def stopContainerWithDocker_def stop_failed_def stop_done_def
      clearServiceRuntimeState_def cancelIdleTimer_def timer_Stop_def split: option.split)

lemma target_timers [simp]:
  "bootStarts (exec (getTargetURL e cfg) s) = bootStarts s" "timers (exec (getTargetURL e cfg) s) = timers s"
  "bootStarts (exec (resetIdleTimer e cfg) s) = bootStarts s"
  by (simp_all add: getTargetURL_def getContainerIP_def resetIdleTimer_def exec_set_idle_timer timer_Stop_def Let_def
      split: option.splits prod.splits)

lemma unreachable_response:
  assumes "result (getTargetURL e cfg) (exec (resetIdleTimer e cfg) u) = Inl er" "resp u = new_response"
    "\<not> rec_wroteHeader (recorder u)"
    and "v = exec (proxy_up e r cfg) u"
  shows "rw_status (resp v) = 502" "rw_body (resp v) = [Text (''service unavailable'' @ [chr 10])]"
    "bootStarts v = bootStarts u" "timers v = timers (exec (resetIdleTimer e cfg) u)"
  using assms by (simp_all add: proxy_up_def http_error_to_def exec_Recorded new_response_def)

text \<open>A request whose container is stopped between the probe and \<open>getTargetURL\<close>, so that the container
  has no address any more, is answered with 502 and not with the loading page; nothing starts the
  container, but an idle timer is set for it.\<close>

theorem stop_after_probe:
  assumes "result (probe_part e cfg) s = (start, True)" "resp s = new_response"
    and "u = exec (stopContainerWithReason e cfg reason) (exec (probe_part e cfg) s)"
    and "result (getContainerIP e (Container cfg)) (exec (resetIdleTimer e cfg) u) = Inl er"
    and "timer_inv s" "\<not> DisableIdle cfg"
    and "v = exec (answer_part e r sub cfg (start, True)) u"
  shows "rw_status (resp v) = 502 \<and> rw_body (resp v) = [Text (''service unavailable'' @ [chr 10])]
    \<and> bootStarts v = bootStarts s \<and> pending_for (Container cfg) v \<noteq> {}"
proof -
  define b where "b = exec (probe_part e cfg) s"
  have b: "resp b = new_response" "\<not> rec_wroteHeader (recorder b)" "bootStarts b = bootStarts s"
    using assms(2) by (simp_all add: b_def probe_part_def new_recorder_def)
  have "preserves timer_inv (probe_part e cfg)"
    unfolding probe_part_def by (intro preserve_rules preserves_modify) (simp add: timer_inv_def)
  then have "timer_inv (exec (probe_part e cfg) s)" using assms(5) by (rule preservesD)
  then have inv: "timer_inv u"
    unfolding assms(3) by (rule preservesD [OF timer_service.keeps_stopContainerWithReason])
  have "result (getTargetURL e cfg) (exec (resetIdleTimer e cfg) u) = Inl er"
    using assms(4) by (simp add: getTargetURL_def)
  note up = unreachable_response [OF this _ _ refl]
  have u: "resp u = new_response" "\<not> rec_wroteHeader (recorder u)" "bootStarts u = bootStarts s"
    using b by (simp_all add: assms(3) b_def)
  have v: "v = exec (proxy_count e sub start) (exec (proxy_up e r cfg) u)"
    using assms(7) by (simp add: answer_part_def)
  then have "resp v = resp (exec (proxy_up e r cfg) u)" "bootStarts v = bootStarts (exec (proxy_up e r cfg) u)"
    "timers v = timers (exec (proxy_up e r cfg) u)"
    by (simp_all add: proxy_count_def)
  then show ?thesis
    using up [OF u(1,2), of r] u(3) reset_pending [OF inv assms(6), of e]
      pending_cong [of v "exec (resetIdleTimer e cfg) u"] by simp
qed

text \<open>A container that has its address until it is stopped.\<close>

definition stopping_env :: "nat env" where
  "stopping_env = up_env\<lparr>env_stop := (\<lambda>_ _ w. (None, 100)),
     env_inspect := (\<lambda>n w. if w < 100 then env_inspect up_env n w
       else (Inr \<lparr>in_Running = False, in_Paused = False, in_Status = ''exited'', in_StartedAt = [],
                  in_Networks = Map.empty\<rparr>, w))\<rparr>"

theorem stop_after_probe_witness:
  "\<exists>start. result (probe_part stopping_env example_cfg) proxy_state = (start, True) \<and>
    rw_status (resp (exec (answer_part stopping_env (get_request ''app.example.org'' ''/'') ''app'' example_cfg (start, True))
      (exec (stopContainerWithReason stopping_env example_cfg ''idle'')
        (exec (probe_part stopping_env example_cfg) proxy_state)))) = 502"
proof -
  let ?b = "exec (probe_part stopping_env example_cfg) proxy_state"
  let ?u = "exec (stopContainerWithReason stopping_env example_cfg ''idle'') ?b"
  have gone: "\<exists>er. result (getContainerIP stopping_env n) s = Inl er" if "100 \<le> world s" for n s
    using that by (simp add: getContainerIP_def stopping_env_def)
  have probe: "result (probe_part stopping_env example_cfg) proxy_state = (7, True)"
    by (simp add: probe_part_def checkPort_def getContainerIP_def proxy_state_def time_Now_def)
       (simp add: stopping_env_def up_env_def example_env_def example_cfg_def)
  have now: "env_now stopping_env w = (int w, Suc w)" for w by (simp add: stopping_env_def up_env_def example_env_def)
  have stop: "env_stop stopping_env n k w = (None, 100)" for n k w by (simp add: stopping_env_def)
  have kept: "100 \<le> world (exec (notify_at stopping_env t sub c m f) s)" if "100 \<le> world s" for t sub c m f s
    using that by (simp add: notify_at_def time_Now_def now)
  have "100 \<le> world ?u"
    by (simp add: stopContainerWithReason_def stopContainerWithDocker_def stop_done_def recordEvent_def time_Now_def
        clearServiceRuntimeState_def store_event_def example_cfg_def stop now kept)
  then have "100 \<le> world (exec (resetIdleTimer stopping_env example_cfg) ?u)"
    by (simp add: resetIdleTimer_def exec_set_idle_timer timer_Stop_def now Let_def split: option.split)
  then obtain er where "result (getContainerIP stopping_env (Container example_cfg)) (exec (resetIdleTimer stopping_env example_cfg) ?u) = Inl er"
    using gone by blast
  from stop_after_probe [OF probe closed_example(1) refl this _ _ refl] show ?thesis
    using probe by (simp add: example_cfg_def proxy_state_def timer_inv_def)
qed

end
