(* ===== verification/Watch.thy ===== *)
theory Watch
  imports Log_Stream
begin

text \<open>
  The event loop of \<open>docker.go\<close>: \<open>watch\<close>, the goroutine that \<open>subscribeDockerEvents\<close> starts, and
  \<open>watchPoll\<close>. They run beside each other and beside the rest of the program, so they are a
  step relation: each step is one turn of one of the loops, or a move of somebody else. The
  record \<open>watch\<close> says where each goroutine is; \<open>wt_app\<close> is the program's state.
\<close>

subsection \<open>The goroutines\<close>

datatype watch_pc = WSubscribe | WMark | WWait | WPoll | WReturned

text \<open>The goroutine of \<open>subscribeDockerEvents\<close>; while it runs, its debounce timer may be pending.\<close>

datatype loop_pc = LoopNone | LoopRun bool | LoopEnded

record 'w watch =
  wt_pc :: watch_pc
  wt_loop :: loop_pc
  wt_pollers :: nat
  wt_done :: bool
  wt_crashed :: bool
  wt_app :: "'w docknap"

definition watch_init :: "'w docknap \<Rightarrow> 'w watch" where
  "watch_init s = \<lparr>wt_pc = WSubscribe, wt_loop = LoopNone, wt_pollers = 0, wt_done = False,
     wt_crashed = False, wt_app = s\<rparr>"

definition on_app :: "('w, 'a) prog \<Rightarrow> 'w watch \<Rightarrow> 'w watch" where
  "on_app m w = w\<lparr>wt_app := exec m (wt_app w)\<rparr>"

text \<open>A panic in a goroutine ends the process.\<close>

definition watch_sync :: "'w env \<Rightarrow> 'w watch \<Rightarrow> 'w watch" where
  "watch_sync e w =
     (on_app (syncContainers e) w)\<lparr>wt_crashed := (result (syncContainers e) (wt_app w) = Crashed)\<rparr>"

definition set_eventsOK :: "bool \<Rightarrow> ('w, unit) prog" where
  "set_eventsOK b = modify (\<lambda>s. s\<lparr>eventsOK := b\<rparr>)"

text \<open>What one of the cases of the \<open>select\<close> does.\<close>

datatype loop_event =
    EvDone
  | EvMessage string string
  | EvClosed
  | EvDebounce
  | EvTick
  | EvError "err option"

fun loop_turn :: "'w env \<Rightarrow> loop_event \<Rightarrow> 'w watch \<Rightarrow> 'w watch" where
  "loop_turn e EvDone w = w\<lparr>wt_loop := LoopEnded\<rparr>"
| "loop_turn e (EvMessage action name) w =
     (on_app (log_at LevelDebug ''docker event'' [(''action'', JStr action), (''name'', JStr name)]) w)
       \<lparr>wt_loop := LoopRun True\<rparr>"
| "loop_turn e EvClosed w = w\<lparr>wt_loop := LoopEnded\<rparr>"
| "loop_turn e EvDebounce w = (watch_sync e w)\<lparr>wt_loop := LoopRun False\<rparr>"
| "loop_turn e EvTick w = watch_sync e w"
| "loop_turn e (EvError None) w = w"
| "loop_turn e (EvError (Some er)) w =
     (on_app (do {
        set_eventsOK False;
        log_at LevelWarn ''docker events stream error, falling back to poll'' [(''err'', JStr er)]
      }) w)\<lparr>wt_loop := LoopEnded, wt_pollers := Suc (wt_pollers w)\<rparr>"

text \<open>When a case is ready. \<open>closes\<close> says whether the Docker client may close its channel of messages;
  the client of the library never does.\<close>

fun event_ready :: "bool \<Rightarrow> 'w watch \<Rightarrow> loop_event \<Rightarrow> bool" where
  "event_ready closes w EvDone = wt_done w"
| "event_ready closes w EvClosed = closes"
| "event_ready closes w EvDebounce = (wt_loop w = LoopRun True)"
| "event_ready closes w _ = True"

definition subscribeDockerEvents :: "'w watch \<Rightarrow> err option \<times> 'w watch" where
  "subscribeDockerEvents w = (None, w\<lparr>wt_loop := LoopRun False\<rparr>)"

definition watch_subscribe :: "'w watch \<Rightarrow> 'w watch" where
  "watch_subscribe w =
     (case subscribeDockerEvents w of
        (None, w1) \<Rightarrow> w1\<lparr>wt_pc := WMark\<rparr>
      | (Some er, w1) \<Rightarrow>
          (on_app (do {
             set_eventsOK False;
             log_at LevelWarn ''docker events subscription failed, falling back to poll'' [(''err'', JStr er)]
           }) w1)\<lparr>wt_pc := WPoll\<rparr>)"

definition watch_mark :: "'w watch \<Rightarrow> 'w watch" where
  "watch_mark w =
     (on_app (do { set_eventsOK True; log_at LevelInfo ''watching docker events'' [(''source'', JStr ''events'')] }) w)
       \<lparr>wt_pc := WWait\<rparr>"

text \<open>The steps. A poller (\<open>watchPoll\<close>, as a goroutine or as the end of \<open>watch\<close>) synchronises at a tick
  of its own. The rest of the program may do anything to the state but set \<open>eventsOK\<close>.\<close>

inductive watch_step :: "'w env \<Rightarrow> bool \<Rightarrow> 'w watch \<Rightarrow> 'w watch \<Rightarrow> bool" for e :: "'w env" and closes where
  subscribe: "\<not> wt_crashed w \<Longrightarrow> wt_pc w = WSubscribe \<Longrightarrow> watch_step e closes w (watch_subscribe w)"
| mark: "\<not> wt_crashed w \<Longrightarrow> wt_pc w = WMark \<Longrightarrow> watch_step e closes w (watch_mark w)"
| watch_end: "\<not> wt_crashed w \<Longrightarrow> wt_pc w = WWait \<Longrightarrow> wt_done w \<Longrightarrow> watch_step e closes w (w\<lparr>wt_pc := WReturned\<rparr>)"
| turn: "\<not> wt_crashed w \<Longrightarrow> wt_loop w = LoopRun b \<Longrightarrow> event_ready closes w ev \<Longrightarrow>
    watch_step e closes w (loop_turn e ev w)"
| poll: "\<not> wt_crashed w \<Longrightarrow> 0 < wt_pollers w \<or> wt_pc w = WPoll \<Longrightarrow> watch_step e closes w (watch_sync e w)"
| poll_end: "\<not> wt_crashed w \<Longrightarrow> wt_pollers w = Suc n \<Longrightarrow> wt_done w \<Longrightarrow> watch_step e closes w (w\<lparr>wt_pollers := n\<rparr>)"
| watch_poll_end: "\<not> wt_crashed w \<Longrightarrow> wt_pc w = WPoll \<Longrightarrow> wt_done w \<Longrightarrow> watch_step e closes w (w\<lparr>wt_pc := WReturned\<rparr>)"
| cancel: "\<not> wt_crashed w \<Longrightarrow> watch_step e closes w (w\<lparr>wt_done := True\<rparr>)"
| other: "\<not> wt_crashed w \<Longrightarrow> eventsOK s = eventsOK (wt_app w) \<Longrightarrow> watch_step e closes w (w\<lparr>wt_app := s\<rparr>)"

abbreviation watch_run :: "'w env \<Rightarrow> bool \<Rightarrow> 'w watch \<Rightarrow> 'w watch \<Rightarrow> bool" where
  "watch_run e closes \<equiv> (watch_step e closes)\<^sup>*\<^sup>*"

inductive_cases watch_stepE: "watch_step e closes w w'"

subsection \<open>Who synchronises\<close>

lemma watch_sync_sel [simp]:
  "wt_pc (watch_sync e w) = wt_pc w" "wt_loop (watch_sync e w) = wt_loop w"
  "wt_pollers (watch_sync e w) = wt_pollers w" "wt_done (watch_sync e w) = wt_done w"
  "wt_app (watch_sync e w) = exec (syncContainers e) (wt_app w)"
  by (simp_all add: watch_sync_def on_app_def)

lemma on_app_sel [simp]:
  "wt_pc (on_app m w) = wt_pc w" "wt_loop (on_app m w) = wt_loop w" "wt_pollers (on_app m w) = wt_pollers w"
  "wt_done (on_app m w) = wt_done w" "wt_crashed (on_app m w) = wt_crashed w"
  "wt_app (on_app m w) = exec m (wt_app w)"
  by (simp_all add: on_app_def)

lemma exec_set_eventsOK [simp]: "exec (set_eventsOK b) s = s\<lparr>eventsOK := b\<rparr>"
  by (simp add: set_eventsOK_def)

interpretation same_eventsOK: service_invariant "\<lambda>s. eventsOK s = b" for b
  by (unfold_locales; (intro keeps_timers_of_fields)?) auto

lemma eventsOK_sync [simp]: "eventsOK (exec (syncContainers e) s) = eventsOK s"
  by (rule preserves_eq [of eventsOK]) (intro preserve_rules)

definition syncers :: "'w watch \<Rightarrow> nat" where
  "syncers w = (case wt_loop w of LoopRun _ \<Rightarrow> 1 | _ \<Rightarrow> 0) + wt_pollers w + (if wt_pc w = WPoll then 1 else 0)"


text \<open>The stream's state and the pollers, before the shutdown: nothing before the subscription, then
  one goroutine, which is the loop until the stream fails and a poller from then on.\<close>

definition watch_inv :: "'w watch \<Rightarrow> bool" where
  "watch_inv w \<longleftrightarrow>
     wt_pc w \<noteq> WPoll \<and> (wt_pc w = WSubscribe \<longrightarrow> wt_loop w = LoopNone \<and> wt_pollers w = 0) \<and>
     (wt_done w \<or> wt_pc w = WSubscribe \<or>
       (wt_pc w \<noteq> WReturned \<and>
         ((\<exists>b. wt_loop w = LoopRun b) \<and> wt_pollers w = 0 \<or> wt_loop w = LoopEnded \<and> wt_pollers w = 1)))"

lemma watch_subscribe_eq: "watch_subscribe w = w\<lparr>wt_loop := LoopRun False, wt_pc := WMark\<rparr>"
  by (simp add: watch_subscribe_def subscribeDockerEvents_def)

lemma watch_inv_step:
  assumes "watch_step e False w w'" "watch_inv w"
  shows "watch_inv w'"
  using assms
proof (cases rule: watch_step.cases)
  case (turn b ev)
  have "watch_inv (loop_turn e ev w)"
    using assms(2) turn by (cases "(e, ev, w)" rule: loop_turn.cases) (auto simp: watch_inv_def)
  then show ?thesis by (simp add: turn)
qed (auto simp: watch_inv_def watch_subscribe_eq watch_mark_def)

lemma watch_inv_run: "watch_run e False w w' \<Longrightarrow> watch_inv w \<Longrightarrow> watch_inv w'"
  by (induction rule: rtranclp_induct) (auto intro: watch_inv_step)

lemma watch_inv_init: "watch_inv (watch_init s)"
  by (simp add: watch_inv_def watch_init_def)


lemma watch_runI:
  "watch_run e c (watch_init s) (watch_subscribe (watch_init s))"
  "watch_run e c (watch_init s) (loop_turn e (EvError (Some er)) (watch_subscribe (watch_init s)))"
proof -
  show sub: "watch_run e c (watch_init s) (watch_subscribe (watch_init s))"
    by (intro r_into_rtranclp watch_step.subscribe) (simp_all add: watch_init_def)
  have "watch_step e c (watch_subscribe (watch_init s)) (loop_turn e (EvError (Some er)) (watch_subscribe (watch_init s)))"
    by (rule watch_step.turn [of _ False]) (simp_all add: watch_subscribe_eq watch_init_def)
  with sub show "watch_run e c (watch_init s) (loop_turn e (EvError (Some er)) (watch_subscribe (watch_init s)))"
    by (rule rtranclp.rtrancl_into_rtrancl)
qed


subsection \<open>What \<open>eventsOK\<close> tells\<close>

text \<open>Once the watcher is set up with its stream open, \<open>eventsOK\<close> tells until the shutdown whether
  the event stream is still followed.\<close>

theorem eventsOK_follows_stream:
  assumes "watch_run e False w w'" "wt_pc w = WWait" "wt_loop w = LoopRun b" "eventsOK (wt_app w)" "\<not> wt_done w'"
  shows "eventsHealthy (wt_app w') \<longleftrightarrow> (\<exists>b. wt_loop w' = LoopRun b)"
proof -
  have "wt_done w' \<or> wt_pc w' = WWait \<and> (\<exists>b. wt_loop w' = LoopRun b) = eventsOK (wt_app w') \<and> wt_loop w' \<noteq> LoopNone"
    using assms(1)
  proof (induction rule: rtranclp_induct)
    case base
    then show ?case using assms(2-4) by simp
  next
    case (step x y)
    from step.hyps(2) show ?case
    proof (cases rule: watch_step.cases)
      case (turn b ev)
      have "wt_done (loop_turn e ev x) \<or> wt_pc (loop_turn e ev x) = WWait \<and>
          (\<exists>b. wt_loop (loop_turn e ev x) = LoopRun b) = eventsOK (wt_app (loop_turn e ev x)) \<and> wt_loop (loop_turn e ev x) \<noteq> LoopNone"
        using step.IH turn by (cases "(e, ev, x)" rule: loop_turn.cases) auto
      then show ?thesis by (simp add: turn)
    qed (use step.IH in \<open>auto simp: watch_subscribe_eq watch_mark_def\<close>)
  qed
  then show ?thesis using assms(5) by (simp add: eventsHealthy_def)
qed

text \<open>C37: The flag can be wrong for good. When the stream fails before \<open>watch\<close> sets \<open>eventsOK\<close>, which
  the new goroutine can do at once, the flag is set after the failure has cleared it: the
  program polls, while every readiness probe from then on reports a healthy event stream.\<close>

theorem stale_readiness:
  "\<exists>w. watch_run e False (watch_init s) w \<and> \<not> wt_done w \<and> wt_loop w = LoopEnded \<and> wt_pollers w = 1 \<and>
     (\<forall>w'. watch_run e False w w' \<longrightarrow> eventsHealthy (wt_app w') \<and> wt_loop w' = LoopEnded)"
proof -
  let ?f = "loop_turn e (EvError (Some ''EOF'')) (watch_subscribe (watch_init s))"
  let ?w = "watch_mark ?f"
  have "watch_step e False ?f ?w"
    by (rule watch_step.mark) (simp_all add: watch_subscribe_eq watch_init_def)
  with watch_runI(2) have "watch_run e False (watch_init s) ?w" by (rule rtranclp.rtrancl_into_rtrancl)
  moreover have "eventsOK (wt_app w') \<and> wt_loop w' = LoopEnded \<and> wt_pc w' \<in> {WWait, WReturned}" if "watch_run e False ?w w'" for w'
    using that
  proof (induction rule: rtranclp_induct)
    case base
    then show ?case by (simp add: watch_mark_def watch_subscribe_eq)
  next
    case (step x y)
    from step.hyps(2) step.IH show ?case by (cases rule: watch_step.cases) auto
  qed
  ultimately show ?thesis
    by (intro exI [of _ ?w]) (simp add: watch_mark_def watch_subscribe_eq watch_init_def eventsHealthy_def)
qed

theorem stale_readiness_witness:
  "\<exists>w. watch_run (example_env None) False (watch_init example_state) w \<and> wt_pollers w = 1 \<and>
     eventsHealthy (wt_app (watch_sync (example_env None) w))"
proof -
  obtain w where w: "watch_run (example_env None) False (watch_init example_state) w" "wt_pollers w = 1"
      "\<And>w'. watch_run (example_env None) False w w' \<Longrightarrow> eventsHealthy (wt_app w')"
    using stale_readiness [of "example_env None" example_state] by blast
  then have "eventsHealthy (wt_app w)" by blast
  with w(1,2) show ?thesis by (auto simp: eventsHealthy_def)
qed

theorem eventsOK_follows_stream_witness:
  "\<not> eventsHealthy (wt_app (loop_turn (example_env None) (EvError (Some ''EOF'')) (watch_mark (watch_subscribe (watch_init example_state)))))"
proof -
  let ?w = "watch_mark (watch_subscribe (watch_init example_state))"
  have "watch_run (example_env None) False ?w (loop_turn (example_env None) (EvError (Some ''EOF'')) ?w)"
    by (intro r_into_rtranclp watch_step.turn [of _ False]) (simp_all add: watch_mark_def watch_subscribe_eq watch_init_def)
  from eventsOK_follows_stream [OF this, of False] show ?thesis
    by (simp add: watch_mark_def watch_subscribe_eq watch_init_def)
qed

subsection \<open>Bursts of events, and the end\<close>

lemma loop_messages:
  "fold (\<lambda>(a, n). loop_turn e (EvMessage a n)) ms w =
    w\<lparr>wt_loop := (if ms = [] then wt_loop w else LoopRun True),
      wt_app := (wt_app w)\<lparr>logs := logs (wt_app w) @
        List.map (\<lambda>(a, n). (LevelDebug, ''docker event'', [(''action'', JStr a), (''name'', JStr n)])) ms\<rparr>\<rparr>"
  by (induction ms arbitrary: w) (auto simp: on_app_def)

text \<open>A burst of events synchronises once. After any number of events, but at least one, the debounce
  timer is ready; its turn lists the containers once, and it is not ready again until the next
  event.\<close>

theorem burst_synchronises_once:
  assumes "ms \<noteq> []" "w' = fold (\<lambda>(a, n). loop_turn e (EvMessage a n)) ms w"
  shows "event_ready closes w' EvDebounce \<and>
    (\<exists>l. wt_app (loop_turn e EvDebounce w') = exec (syncContainers e) ((wt_app w)\<lparr>logs := l\<rparr>)) \<and>
    \<not> event_ready closes (loop_turn e EvDebounce w') EvDebounce"
  using assms by (auto simp: loop_messages)

theorem burst_synchronises_once_witness:
  "event_ready False (fold (\<lambda>(a, n). loop_turn (example_env None) (EvMessage a n))
     [(''start'', ''web''), (''die'', ''db'')] (watch_init example_state)) EvDebounce"
  using burst_synchronises_once [of "[(''start'', ''web''), (''die'', ''db'')]" _ "example_env None" "watch_init example_state" False]
  by simp


lemma watch_pc_ends:
  assumes "wt_done w" "\<not> wt_crashed w"
  shows "\<exists>w'. watch_run e closes w w' \<and> wt_pc w' = WReturned \<and> wt_done w' \<and> \<not> wt_crashed w'"
proof -
  let ?ends = "\<lambda>x. \<exists>w'. watch_run e closes x w' \<and> wt_pc w' = WReturned \<and> wt_done w' \<and> \<not> wt_crashed w'"
  have earlier: "?ends x" if "watch_step e closes x y" "?ends y" for x y
    using that by (blast intro: converse_rtranclp_into_rtranclp)
  have wait: "?ends x" if "wt_pc x = WWait \<or> wt_pc x = WPoll" "wt_done x" "\<not> wt_crashed x" for x
    using that by (intro exI [of _ "x\<lparr>wt_pc := WReturned\<rparr>"]) (auto intro: watch_step.watch_end watch_step.watch_poll_end)
  have mark: "?ends x" if "wt_pc x = WMark" "wt_done x" "\<not> wt_crashed x" for x
    by (rule earlier [OF watch_step.mark wait]) (simp_all add: watch_mark_def that)
  show ?thesis
  proof (cases "wt_pc w")
    case WSubscribe
    then show ?thesis
      by (intro earlier [OF watch_step.subscribe mark]) (simp_all add: watch_subscribe_eq assms)
  next
    case WReturned
    then show ?thesis using assms by blast
  qed (use assms wait mark in simp_all)
qed

lemma loop_ends:
  assumes "wt_done w" "\<not> wt_crashed w"
  shows "\<exists>l. watch_run e closes w (w\<lparr>wt_loop := l\<rparr>) \<and> (\<nexists>b. l = LoopRun b)"
proof (cases "wt_loop w")
  case (LoopRun b)
  have "watch_step e closes w (w\<lparr>wt_loop := LoopEnded\<rparr>)"
    using watch_step.turn [OF assms(2) LoopRun, of closes EvDone e] assms(1) by simp
  then show ?thesis by blast
qed (metis loop_pc.distinct rtranclp.rtrancl_refl watch.surjective watch.update_convs(2))+

lemma pollers_end:
  assumes "wt_done w" "\<not> wt_crashed w"
  shows "watch_run e closes w (w\<lparr>wt_pollers := 0\<rparr>)"
  using assms
proof (induction "wt_pollers w" arbitrary: w)
  case 0
  then have "w\<lparr>wt_pollers := 0\<rparr> = w" by simp
  then show ?case by simp
next
  case (Suc n)
  then have "watch_step e closes w (w\<lparr>wt_pollers := n\<rparr>)" by (intro watch_step.poll_end) simp_all
  with Suc(1) [of "w\<lparr>wt_pollers := n\<rparr>"] Suc.prems show ?case by (simp add: converse_rtranclp_into_rtranclp)
qed



end
