(* ===== verification/Startlock.thy ===== *)
theory Startlock
  imports Docker
begin

text \<open>
  Concurrent users of \<open>startLocks\<close>: calls of \<open>startContainer\<close> (\<open>docker.go\<close>) and the requests of
  \<open>handleProxy\<close> (\<open>proxy.go\<close>), which probe the port under the same lock and then call
  \<open>startContainer\<close>; the workers of \<open>handleWakeAll\<close> (\<open>handlers_actions.go\<close>) do the same. The
  other theories run a call from its start to its end; here the calls are goroutines that
  interleave with each other, with \<open>syncContainers\<close> and with the rest of the program, and the
  mutexes are explicit. A call or a request that runs alone does what the programs of the other
  theories do.
\<close>

subsection \<open>The goroutines\<close>

text \<open>A call wants a mutex, waits for the mutex that it got, holds it, and holds it having found the
  container stopped; then it has returned. A request wants, awaits and holds the mutex to probe
  the port; then the service is up for it, or it goes on as a call.\<close>

datatype start_pc =
    SWant
  | SLock nat
  | SIn nat
  | SGo nat inspect_info
  | SDone "err option"
  | PWant
  | PLock nat
  | PIn nat
  | PUp

record 'w start_sys =
  st_app :: "'w docknap"
  st_held :: "nat \<rightharpoonup> nat"
  st_calls :: "nat \<rightharpoonup> config \<times> start_pc"

definition start_inspect :: "'w env \<Rightarrow> config \<Rightarrow> ('w, err option + inspect_info) prog" where
  "start_inspect e cfg = do {
     r \<leftarrow> ask (env_inspect e (Container cfg));
     ret (case r of
       Inl er \<Rightarrow> Inl (Some (''inspect: '' @ er))
     | Inr info \<Rightarrow>
         if in_Running info \<and> \<not> (Strategy cfg = ''pause'' \<and> in_Paused info) then Inl None else Inr info)
   }"

definition move_call :: "nat \<Rightarrow> config \<Rightarrow> start_pc \<Rightarrow> 'w docknap \<Rightarrow> 'w start_sys \<Rightarrow> 'w start_sys" where
  "move_call t cfg pc a s = s\<lparr>st_app := a, st_calls := (st_calls s)(t \<mapsto> (cfg, pc))\<rparr>"

definition set_held :: "nat \<Rightarrow> nat option \<Rightarrow> 'w start_sys \<Rightarrow> 'w start_sys" where
  "set_held l t s = s\<lparr>st_held := (st_held s)(l := t)\<rparr>"

text \<open>The turns of a call, up to the next point where others may interleave.\<close>

definition turn_acquire :: "nat \<Rightarrow> config \<Rightarrow> (nat \<Rightarrow> start_pc) \<Rightarrow> 'w start_sys \<Rightarrow> 'w start_sys" where
  "turn_acquire t cfg next s =
     (case run_state (acquireStartLock (Container cfg)) (st_app s) of (l, a) \<Rightarrow> move_call t cfg (next l) a s)"

definition turn_lock :: "nat \<Rightarrow> config \<Rightarrow> nat \<Rightarrow> start_pc \<Rightarrow> 'w start_sys \<Rightarrow> 'w start_sys" where
  "turn_lock t cfg l next s = set_held l (Some t) (move_call t cfg next (st_app s) s)"

definition turn_probe :: "'w env \<Rightarrow> nat \<Rightarrow> config \<Rightarrow> nat \<Rightarrow> 'w start_sys \<Rightarrow> 'w start_sys" where
  "turn_probe e t cfg l s =
     (case run_state (checkPort e cfg) (st_app s) of
        (port, a) \<Rightarrow> set_held l None (move_call t cfg (if snd port then PUp else SWant) a s))"

definition turn_inspect :: "'w env \<Rightarrow> nat \<Rightarrow> config \<Rightarrow> nat \<Rightarrow> 'w start_sys \<Rightarrow> 'w start_sys" where
  "turn_inspect e t cfg l s =
     (case run_state (start_inspect e cfg) (st_app s) of
        (Inl r, a) \<Rightarrow> set_held l None (move_call t cfg (SDone r) a s)
      | (Inr info, a) \<Rightarrow> move_call t cfg (SGo l info) a s)"

definition turn_start :: "'w env \<Rightarrow> nat \<Rightarrow> config \<Rightarrow> nat \<Rightarrow> inspect_info \<Rightarrow> 'w start_sys \<Rightarrow> 'w start_sys" where
  "turn_start e t cfg l info s =
     (case run_state (start_stopped e cfg info) (st_app s) of
        (r, a) \<Rightarrow> set_held l None (move_call t cfg (SDone r) a s))"

fun turn :: "'w env \<Rightarrow> nat \<Rightarrow> config \<Rightarrow> start_pc \<Rightarrow> 'w start_sys \<Rightarrow> 'w start_sys" where
  "turn e t cfg SWant s = turn_acquire t cfg SLock s"
| "turn e t cfg (SLock l) s = turn_lock t cfg l (SIn l) s"
| "turn e t cfg (SIn l) s = turn_inspect e t cfg l s"
| "turn e t cfg (SGo l info) s = turn_start e t cfg l info s"
| "turn e t cfg PWant s = turn_acquire t cfg PLock s"
| "turn e t cfg (PLock l) s = turn_lock t cfg l (PIn l) s"
| "turn e t cfg (PIn l) s = turn_probe e t cfg l s"
| "turn e t cfg _ s = s"

text \<open>Whether a call can take its turn: a mutex is locked once it is free.\<close>

fun may_turn :: "(nat \<rightharpoonup> nat) \<Rightarrow> start_pc \<Rightarrow> bool" where
  "may_turn held (SLock l) = (held l = None)"
| "may_turn held (PLock l) = (held l = None)"
| "may_turn held (SDone r) = False"
| "may_turn held PUp = False"
| "may_turn held _ = True"

text \<open>The steps. \<open>syncs\<close> says whether \<open>syncContainers\<close> takes part; the rest of the program does not
  touch the map of the start locks.\<close>

inductive start_step :: "'w env \<Rightarrow> bool \<Rightarrow> 'w start_sys \<Rightarrow> 'w start_sys \<Rightarrow> bool" for e :: "'w env" and syncs where
  call: "st_calls s t = None \<Longrightarrow> start_step e syncs s (move_call t cfg SWant (st_app s) s)"
| request: "st_calls s t = None \<Longrightarrow> start_step e syncs s (move_call t cfg PWant (st_app s) s)"
| turn: "st_calls s t = Some (cfg, pc) \<Longrightarrow> may_turn (st_held s) pc \<Longrightarrow> start_step e syncs s (turn e t cfg pc s)"
| sync: "syncs \<Longrightarrow> start_step e syncs s (s\<lparr>st_app := exec (syncContainers e) (st_app s)\<rparr>)"
| other: "startLocks a = startLocks (st_app s) \<Longrightarrow> next_id (st_app s) \<le> next_id a \<Longrightarrow>
    start_step e syncs s (s\<lparr>st_app := a\<rparr>)"

abbreviation start_run :: "'w env \<Rightarrow> bool \<Rightarrow> 'w start_sys \<Rightarrow> 'w start_sys \<Rightarrow> bool" where
  "start_run e syncs \<equiv> (start_step e syncs)\<^sup>*\<^sup>*"

definition start_init :: "'w docknap \<Rightarrow> 'w start_sys" where
  "start_init a = \<lparr>st_app = a, st_held = Map.empty, st_calls = Map.empty\<rparr>"

fun call_lock :: "start_pc \<Rightarrow> nat option" where
  "call_lock (SLock l) = Some l"
| "call_lock (SIn l) = Some l"
| "call_lock (SGo l info) = Some l"
| "call_lock (PLock l) = Some l"
| "call_lock (PIn l) = Some l"
| "call_lock _ = None"

fun inside :: "start_pc \<Rightarrow> nat option" where
  "inside (SIn l) = Some l"
| "inside (SGo l info) = Some l"
| "inside (PIn l) = Some l"
| "inside _ = None"

subsection \<open>What the turns do\<close>

lemma start_stopped_locks [simp]:
  "startLocks (exec (start_stopped e cfg info) s) = startLocks s"
  "next_id (exec (start_stopped e cfg info) s) = next_id s"
  by (simp_all add: start_stopped_def announce_start_def start_failed_def clearBootStart_def markBootStart_def
      split: option.split)

lemma start_inspect_locks [simp]:
  "startLocks (exec (start_inspect e cfg) s) = startLocks s"
  "next_id (exec (start_inspect e cfg) s) = next_id s"
  by (simp_all add: start_inspect_def)

lemma checkPort_locks [simp]:
  "startLocks (exec (checkPort e cfg) s) = startLocks s" "next_id (exec (checkPort e cfg) s) = next_id s"
  by (simp_all add: checkPort_def getContainerIP_def checkHTTPHealth_def split: sum.split)

lemma acquire_locks:
  "startLocks (exec (acquireStartLock n) s) = (startLocks s)(n \<mapsto> result (acquireStartLock n) s)"
  "result (acquireStartLock n) s = (case startLocks s n of Some l \<Rightarrow> l | None \<Rightarrow> next_id s)"
  "next_id (exec (acquireStartLock n) s) = (case startLocks s n of Some l \<Rightarrow> next_id s | None \<Rightarrow> Suc (next_id s))"
  by (auto simp: acquireStartLock_def fun_upd_idem split: option.split)

text \<open>
  The invariant. Locks were handed out and each belongs to one container; a call that has or
  wants a lock has the one of its container; a mutex is held by exactly the call inside.
\<close>

definition start_inv :: "'w start_sys \<Rightarrow> bool" where
  "start_inv s \<longleftrightarrow>
     (\<forall>n l. startLocks (st_app s) n = Some l \<longrightarrow> l < next_id (st_app s)) \<and>
     (\<forall>n n' l. startLocks (st_app s) n = Some l \<longrightarrow> startLocks (st_app s) n' = Some l \<longrightarrow> n = n') \<and>
     (\<forall>t cfg pc l. st_calls s t = Some (cfg, pc) \<longrightarrow> call_lock pc = Some l \<longrightarrow>
        startLocks (st_app s) (Container cfg) = Some l) \<and>
     (\<forall>t l. st_held s l = Some t \<longleftrightarrow> (\<exists>cfg pc. st_calls s t = Some (cfg, pc) \<and> inside pc = Some l))"


lemma start_invD:
  assumes "start_inv s"
  shows "startLocks (st_app s) n = Some l \<Longrightarrow> l < next_id (st_app s)"
    and "startLocks (st_app s) n = Some l \<Longrightarrow> startLocks (st_app s) n' = Some l \<Longrightarrow> n = n'"
    and "st_calls s t = Some (cfg, pc) \<Longrightarrow> call_lock pc = Some l \<Longrightarrow> startLocks (st_app s) (Container cfg) = Some l"
    and "st_held s l = Some t \<longleftrightarrow> (\<exists>cfg pc. st_calls s t = Some (cfg, pc) \<and> inside pc = Some l)"
  using assms unfolding start_inv_def by blast+

lemma inside_call_lock: "inside pc = Some l \<Longrightarrow> call_lock pc = Some l"
  by (cases pc) simp_all

text \<open>A call moves, with the map of the locks as it was.\<close>

lemma start_inv_move:
  assumes inv: "start_inv s" and cur: "st_calls s t = Some (cfg, pc0)"
    and app: "startLocks a = startLocks (st_app s)" "next_id a = next_id (st_app s)"
    and pc: "\<And>l. call_lock pc = Some l \<Longrightarrow> call_lock pc0 = Some l"
    and held: "\<And>l u. h l = Some u \<longleftrightarrow> (if u = t then inside pc = Some l else st_held s l = Some u)"
  shows "start_inv ((move_call t cfg pc a s)\<lparr>st_held := h\<rparr>)"
  unfolding start_inv_def
proof (intro conjI allI impI)
  fix u l
  show "(st_held ((move_call t cfg pc a s)\<lparr>st_held := h\<rparr>) l = Some u) =
      (\<exists>cfg' pc'. st_calls ((move_call t cfg pc a s)\<lparr>st_held := h\<rparr>) u = Some (cfg', pc') \<and> inside pc' = Some l)"
    using start_invD(4) [OF inv] by (auto simp: move_call_def held)
next
  fix u cfg' pc' l
  assume "st_calls ((move_call t cfg pc a s)\<lparr>st_held := h\<rparr>) u = Some (cfg', pc')" "call_lock pc' = Some l"
  then show "startLocks (st_app ((move_call t cfg pc a s)\<lparr>st_held := h\<rparr>)) (Container cfg') = Some l"
    using start_invD(3) [OF inv, of u cfg' pc' l] start_invD(3) [OF inv cur pc, of l]
    by (auto simp: move_call_def app split: if_splits)
qed (use start_invD(1,2) [OF inv] in \<open>auto simp: move_call_def app\<close>)

lemma held_by_caller:
  "start_inv s \<Longrightarrow> st_calls s t = Some (cfg, pc) \<Longrightarrow> st_held s l = Some t \<longleftrightarrow> inside pc = Some l"
  using start_invD(4) [of s l t] by simp

text \<open>Two calls inside for one container are the same call.\<close>

lemma inside_same:
  assumes "start_inv s" "st_calls s t = Some (cfg, pc)" "inside pc = Some l"
    and "st_calls s u = Some (cfg', pc')" "inside pc' = Some l'" "Container cfg = Container cfg'"
  shows "t = u"
proof -
  have "startLocks (st_app s) (Container cfg') = Some l" "startLocks (st_app s) (Container cfg') = Some l'"
    using start_invD(3) [OF assms(1,2) inside_call_lock [OF assms(3)]]
      start_invD(3) [OF assms(1,4) inside_call_lock [OF assms(5)]] assms(6) by simp_all
  then show ?thesis
    using held_by_caller [OF assms(1,2), of l] held_by_caller [OF assms(1,4), of l'] assms(3,5) by simp
qed

lemma start_inv_acquire:
  assumes "start_inv s" "st_calls s t = Some (cfg, pc)" "inside pc = None"
    and "\<And>l. call_lock (next l) = Some l" "\<And>l. inside (next l) = None"
  shows "start_inv (turn_acquire t cfg next s)"
proof -
  have fresh: "startLocks (st_app s) n \<noteq> Some (next_id (st_app s))" for n
    using start_invD(1) [OF assms(1)] by blast
  show ?thesis
    unfolding turn_acquire_def run_state_pair prod.case start_inv_def
    using assms(2-5) start_invD(1,2,4) [OF assms(1)] fresh
    by (auto simp: move_call_def acquire_locks less_Suc_eq dest: start_invD(3) [OF assms(1)] split: option.splits if_splits)
qed

lemma start_inv_lock:
  assumes "start_inv s" "st_calls s t = Some (cfg, pc)" "inside pc = None" "call_lock pc = Some l" "st_held s l = None"
    and "call_lock next = Some l" "inside next = Some l"
  shows "start_inv (turn_lock t cfg l next s)"
proof -
  have "start_inv ((move_call t cfg next (st_app s) s)\<lparr>st_held := (st_held s)(l \<mapsto> t)\<rparr>)"
    using held_by_caller [OF assms(1,2)] assms(3-)
    by (intro start_inv_move [OF assms(1,2)]) auto
  then show ?thesis by (simp add: turn_lock_def set_held_def move_call_def)
qed

text \<open>A call that holds its mutex goes on with it, or releases it.\<close>

lemma start_inv_inside:
  assumes "start_inv s" "st_calls s t = Some (cfg, pc)" "inside pc = Some l"
    and "startLocks a = startLocks (st_app s)" "next_id a = next_id (st_app s)"
  shows "inside pc' = Some l \<Longrightarrow> call_lock pc' = Some l \<Longrightarrow> start_inv (move_call t cfg pc' a s)"
    and "call_lock pc' = None \<Longrightarrow> inside pc' = None \<Longrightarrow> start_inv (set_held l None (move_call t cfg pc' a s))"
proof -
  have held: "st_held s l' = Some t \<longleftrightarrow> l' = l" for l'
    using held_by_caller [OF assms(1,2), of l'] assms(3) by auto
  then have here: "st_held s l = Some t" by simp
  have lock: "call_lock pc = Some l" by (rule inside_call_lock [OF assms(3)])
  show "start_inv (move_call t cfg pc' a s)" if "inside pc' = Some l" "call_lock pc' = Some l"
  proof -
    have "start_inv ((move_call t cfg pc' a s)\<lparr>st_held := st_held s\<rparr>)"
      by (rule start_inv_move [OF assms(1,2,4,5)]) (use held in \<open>auto simp: that lock\<close>)
    then show ?thesis by (simp add: move_call_def)
  qed
  show "start_inv (set_held l None (move_call t cfg pc' a s))" if "call_lock pc' = None" "inside pc' = None"
  proof -
    have "start_inv ((move_call t cfg pc' a s)\<lparr>st_held := (st_held s)(l := None)\<rparr>)"
      by (rule start_inv_move [OF assms(1,2,4,5)]) (auto simp: that here dest: iffD1 [OF held])
    then show ?thesis by (simp add: set_held_def move_call_def)
  qed
qed

lemma start_inv_turn:
  assumes "start_inv s" "st_calls s t = Some (cfg, pc)" "may_turn (st_held s) pc"
  shows "start_inv (turn e t cfg pc s)"
proof (cases pc)
  case (SIn l)
  then show ?thesis
    using start_inv_inside [OF assms(1,2), of l "exec (start_inspect e cfg) (st_app s)"]
    by (simp add: turn_inspect_def run_state_pair split: sum.split)
next
  case (SGo l info)
  then show ?thesis
    using start_inv_inside(2) [OF assms(1,2), of l "exec (start_stopped e cfg info) (st_app s)"]
    by (simp add: turn_start_def run_state_pair)
next
  case (PIn l)
  then show ?thesis
    using start_inv_inside(2) [OF assms(1,2), of l "exec (checkPort e cfg) (st_app s)"]
    by (simp add: turn_probe_def run_state_pair)
qed (use assms start_inv_acquire [OF assms(1,2)] start_inv_lock [OF assms(1,2)] in auto)

lemma start_inv_step:
  assumes "start_step e False s s'" "start_inv s"
  shows "start_inv s'"
  using assms(1)
proof (cases rule: start_step.cases)
  case (turn t cfg pc)
  then show ?thesis using start_inv_turn [OF assms(2)] by simp
next
  case (other a)
  then show ?thesis
    using assms(2) by (fastforce simp: start_inv_def)
qed (use assms(2) in \<open>unfold start_inv_def, auto simp: move_call_def\<close>)

lemma start_inv_run: "start_run e False s s' \<Longrightarrow> start_inv s \<Longrightarrow> start_inv s'"
  by (induction rule: rtranclp_induct) (auto intro: start_inv_step)


lemma start_inv_init: "startLocks a = Map.empty \<Longrightarrow> start_inv (start_init a)"
  by (simp add: start_inv_def start_init_def)

subsection \<open>One start at a time\<close>

text \<open>C7: Starts of one container exclude each other, starts of different containers do not. However the
  calls interleave, as long as no container disappears from the listing, two calls that are
  past the lock for the same container are the same call, and a call only ever waits for a call
  for its own container.\<close>

theorem starts_exclude_each_other:
  assumes "start_run e False (start_init a) s" "startLocks a = Map.empty"
    and "st_calls s t = Some (cfg, pc)" "st_calls s u = Some (cfg', pc')" "inside pc' = Some l'"
  shows "(inside pc \<noteq> None \<and> Container cfg = Container cfg' \<longrightarrow> t = u) \<and>
    (call_lock pc = Some l' \<longrightarrow> Container cfg = Container cfg')"
proof -
  have inv: "start_inv s" using start_inv_run [OF assms(1) start_inv_init [OF assms(2)]] .
  have lock: "startLocks (st_app s) (Container cfg') = Some l'"
    using start_invD(3) [OF inv assms(4)] inside_call_lock [OF assms(5)] .
  have "Container cfg = Container cfg'" if "call_lock pc = Some l'"
    using start_invD(3) [OF inv assms(3) that] start_invD(2) [OF inv _ lock] by simp
  then show ?thesis using inside_same [OF inv assms(3) _ assms(4,5)] by auto
qed

text \<open>A call or a request that wants a mutex gets into its critical section, where the mutex is free.\<close>

lemma gets_inside:
  assumes "st_calls s t = Some (cfg, pc)" "l = result (acquireStartLock (Container cfg)) (st_app s)" "st_held s l = None"
    and "pc = SWant \<and> pc' = SIn l \<or> pc = PWant \<and> pc' = PIn l"
  shows "start_run e syncs s \<lparr>st_app = exec (acquireStartLock (Container cfg)) (st_app s),
      st_held = (st_held s)(l \<mapsto> t), st_calls = (st_calls s)(t \<mapsto> (cfg, pc'))\<rparr>"
proof -
  define waits where "waits = (if pc = SWant then SLock else PLock)"
  define s2 where "s2 = turn_acquire t cfg waits s"
  define s3 where "s3 = turn_lock t cfg l pc' s2"
  have s2: "st_calls s2 t = Some (cfg, waits l)" "st_held s2 = st_held s"
    by (simp_all add: s2_def turn_acquire_def run_state_pair move_call_def assms(2))
  have "start_step e syncs s s2"
    unfolding s2_def using start_step.turn [OF assms(1)] assms(4) by (auto simp: waits_def)
  moreover have "start_step e syncs s2 s3"
    unfolding s3_def using start_step.turn [OF s2(1)] assms(3,4) s2(2) by (auto simp: waits_def)
  ultimately have "start_run e syncs s s3" by (meson converse_rtranclp_into_rtranclp rtranclp.rtrancl_refl)
  then show ?thesis
    by (cases s) (simp add: s3_def s2_def turn_lock_def turn_acquire_def set_held_def move_call_def run_state_pair assms(2))
qed

lemma lone_call_enters:
  assumes "st_calls s t = None" "l = result (acquireStartLock (Container cfg)) (st_app s)" "st_held s l = None"
  shows "start_run e syncs s \<lparr>st_app = exec (acquireStartLock (Container cfg)) (st_app s),
      st_held = (st_held s)(l \<mapsto> t), st_calls = (st_calls s)(t \<mapsto> (cfg, SIn l))\<rparr>"
  using converse_rtranclp_into_rtranclp [OF start_step.call [OF assms(1)] gets_inside [of _ t cfg SWant l "SIn l"]] assms(2,3)
  by (simp add: move_call_def)

text \<open>The turns in a row from there on.\<close>

lemma wanting_call_refines:
  assumes "st_calls s t = Some (cfg, SWant)" "st_held s (result (acquireStartLock (Container cfg)) (st_app s)) = None"
  shows "start_run e syncs s \<lparr>st_app = exec (startContainer e cfg) (st_app s), st_held = st_held s,
    st_calls = (st_calls s)(t \<mapsto> (cfg, SDone (result (startContainer e cfg) (st_app s))))\<rparr>"
    (is "start_run e syncs s ?fin")
proof -
  define l where "l = result (acquireStartLock (Container cfg)) (st_app s)"
  define s3 where "s3 = \<lparr>st_app = exec (acquireStartLock (Container cfg)) (st_app s),
      st_held = (st_held s)(l \<mapsto> t), st_calls = (st_calls s)(t \<mapsto> (cfg, SIn l))\<rparr>"
  define s4 where "s4 = turn_inspect e t cfg l s3"
  have free: "(st_held s)(l := None) = st_held s" using assms(2) by (simp add: l_def fun_upd_idem)
  have "start_run e syncs s s3"
    unfolding s3_def using assms by (intro gets_inside) (simp_all add: l_def)
  moreover have "start_step e syncs s3 s4"
    unfolding s4_def using start_step.turn [of s3 t cfg "SIn l"] by (simp add: s3_def)
  ultimately have run: "start_run e syncs s s4" by (rule rtranclp.rtrancl_into_rtrancl)
  show ?thesis
  proof (cases "result (start_inspect e cfg) (exec (acquireStartLock (Container cfg)) (st_app s))")
    case (Inl r)
    then have "s4 = ?fin"
      using free by (auto simp: s4_def s3_def turn_inspect_def run_state_pair set_held_def move_call_def
          startContainer_def start_inspect_def split: sum.splits if_splits)
    then show ?thesis using run by simp
  next
    case (Inr info)
    then have "start_step e syncs s4 (turn_start e t cfg l info s4)"
      using start_step.turn [of s4 t cfg "SGo l info"] by (simp add: s4_def s3_def turn_inspect_def run_state_pair move_call_def)
    moreover have "turn_start e t cfg l info s4 = ?fin"
      using free Inr by (auto simp: s4_def s3_def turn_start_def turn_inspect_def run_state_pair set_held_def
          move_call_def startContainer_def start_inspect_def split: sum.splits if_splits)
    ultimately show ?thesis using run by (metis rtranclp.rtrancl_into_rtrancl)
  qed
qed



text \<open>A request that runs alone is the start of \<open>proxy_service\<close>: the probe under the mutex, and
  \<open>startContainer\<close> if the port is not open.\<close>

definition probe_or_start :: "'w env \<Rightarrow> config \<Rightarrow> ('w, start_pc) prog" where
  "probe_or_start e cfg = do {
     acquireStartLock (Container cfg);
     port \<leftarrow> checkPort e cfg;
     if snd port then ret PUp
     else do { r \<leftarrow> startContainer e cfg; ret (SDone r) }
   }"

lemma acquire_again:
  "startLocks s n = Some l \<Longrightarrow> result (acquireStartLock n) s = l"
  by (simp add: acquireStartLock_def)

theorem lone_request_refines:
  assumes "st_calls s t = None" "st_held s (result (acquireStartLock (Container cfg)) (st_app s)) = None"
  shows "start_run e syncs s \<lparr>st_app = exec (probe_or_start e cfg) (st_app s), st_held = st_held s,
    st_calls = (st_calls s)(t \<mapsto> (cfg, result (probe_or_start e cfg) (st_app s)))\<rparr>"
    (is "start_run e syncs s ?fin")
proof -
  define l where "l = result (acquireStartLock (Container cfg)) (st_app s)"
  define a where "a = exec (acquireStartLock (Container cfg)) (st_app s)"
  define s1 where "s1 = move_call t cfg PWant (st_app s) s"
  define s2 where "s2 = \<lparr>st_app = a, st_held = (st_held s)(l \<mapsto> t), st_calls = (st_calls s)(t \<mapsto> (cfg, PIn l))\<rparr>"
  define s3 where "s3 = turn_probe e t cfg l s2"
  have free: "(st_held s)(l := None) = st_held s" using assms(2) by (simp add: l_def fun_upd_idem)
  have s3: "s3 = \<lparr>st_app = exec (checkPort e cfg) a, st_held = st_held s,
      st_calls = (st_calls s)(t \<mapsto> (cfg, if snd (result (checkPort e cfg) a) then PUp else SWant))\<rparr>"
    using free by (simp add: s3_def s2_def turn_probe_def run_state_pair set_held_def move_call_def)
  have "start_step e syncs s s1" unfolding s1_def using assms(1) by (rule start_step.request)
  moreover have "start_run e syncs s1 s2"
    using gets_inside [of s1 t cfg PWant l "PIn l" e syncs] assms(2) by (simp add: s1_def s2_def a_def l_def move_call_def)
  moreover have "start_step e syncs s2 s3"
    unfolding s3_def using start_step.turn [of s2 t cfg "PIn l"] by (simp add: s2_def)
  ultimately have run: "start_run e syncs s s3" by (meson converse_rtranclp_into_rtranclp rtranclp.rtrancl_into_rtrancl)
  show ?thesis
  proof (cases "snd (result (checkPort e cfg) a)")
    case True
    then have "s3 = ?fin" by (simp add: s3 probe_or_start_def a_def)
    with run show ?thesis by simp
  next
    case False
    have "startLocks (st_app s3) (Container cfg) = Some l" by (simp add: s3 a_def l_def acquire_locks)
    from acquire_again [OF this] have "start_run e syncs s3 ?fin"
      using wanting_call_refines [of s3 t cfg e syncs] assms(2) False
      by (simp add: s3 l_def probe_or_start_def a_def)
    with run show ?thesis by (rule rtranclp_trans)
  qed
qed

theorem lone_request_refines_witness:
  "start_run (example_env None) False (start_init example_state)
     \<lparr>st_app = exec (probe_or_start (example_env None) example_cfg) example_state, st_held = Map.empty,
      st_calls = [0 \<mapsto> (example_cfg, SDone (Some ''inspect: no such container''))]\<rparr>"
proof -
  have "result (probe_or_start (example_env None) example_cfg) example_state = SDone (Some ''inspect: no such container'')"
    by (simp add: probe_or_start_def startContainer_def checkPort_def getContainerIP_def example_env_def)
  then show ?thesis
    using lone_request_refines [of "start_init example_state" 0 example_cfg "example_env None" False]
    by (simp add: start_init_def)
qed


text \<open>A first call that is past the lock, and a container that the listing lacks.\<close>

definition first_call :: "nat start_sys" where
  "first_call = \<lparr>st_app = example_state\<lparr>configs := [(''app'', example_cfg)], startLocks := [''app-1'' \<mapsto> 0], next_id := 1\<rparr>,
     st_held = [0 \<mapsto> 0], st_calls = [0 \<mapsto> (example_cfg, SIn 0)]\<rparr>"

lemma sync_drops_lock:
  "startLocks (exec (syncContainers (example_env None)) (st_app first_call)) ''app-1'' = None"
  "next_id (exec (syncContainers (example_env None)) (st_app first_call)) = 1"
  by (simp_all add: syncContainers_def sync_listed_def known_containers_def forget_container_def recordEventLocked_def
      first_call_def example_cfg_def cancelIdleTimer_def example_env_def)

lemma first_call_reached:
  "\<exists>a. startLocks a = Map.empty \<and> start_run (example_env None) True (start_init a) first_call"
proof (intro exI conjI)
  let ?a = "example_state\<lparr>configs := [(''app'', example_cfg)]\<rparr>"
  show "startLocks ?a = Map.empty" by (simp add: example_state_def newDocknap_def split: prod.split)
  then have "result (acquireStartLock ''app-1'') ?a = 0"
    "exec (acquireStartLock ''app-1'') ?a = ?a\<lparr>startLocks := [''app-1'' \<mapsto> 0], next_id := 1\<rparr>"
    by (simp_all add: acquireStartLock_def)
  then show "start_run (example_env None) True (start_init ?a) first_call"
    using lone_call_enters [of "start_init ?a" 0 0 example_cfg "example_env None" True]
    by (simp add: start_init_def first_call_def example_cfg_def)
qed


theorem starts_exclude_each_other_witness:
  "\<exists>a s. start_run (example_env None) False (start_init a) s \<and> st_calls s 0 = Some (example_cfg, SIn 0) \<and>
     (\<forall>t pc. st_calls s t = Some (example_cfg, pc) \<and> inside pc \<noteq> None \<longrightarrow> t = 0)"
proof -
  let ?a = "example_state\<lparr>configs := [(''app'', example_cfg)]\<rparr>"
  have none: "startLocks ?a = Map.empty" by (simp add: example_state_def newDocknap_def split: prod.split)
  then have l: "result (acquireStartLock (Container example_cfg)) ?a = 0" by (simp add: acquireStartLock_def)
  let ?s = "\<lparr>st_app = exec (acquireStartLock (Container example_cfg)) ?a, st_held = [0 \<mapsto> 0],
     st_calls = [0 \<mapsto> (example_cfg, SIn 0)]\<rparr>"
  have run: "start_run (example_env None) False (start_init ?a) ?s"
    using lone_call_enters [of "start_init ?a" 0 0 example_cfg "example_env None" False] l by (simp add: start_init_def)
  have one: "t = 0" if "st_calls ?s t = Some (example_cfg, pc)" "inside pc \<noteq> None" for t pc
    using starts_exclude_each_other [OF run none that(1), of 0 example_cfg "SIn 0" 0] that(2) by simp
  show ?thesis
  proof (intro exI conjI allI impI)
    show "start_run (example_env None) False (start_init ?a) ?s" by (rule run)
    show "st_calls ?s 0 = Some (example_cfg, SIn 0)" by simp
    show "t = 0" if "st_calls ?s t = Some (example_cfg, pc) \<and> inside pc \<noteq> None" for t pc
      using one that by blast
  qed
qed

end
