(* ===== verification/Startcount.thy ===== *)
theory Startcount
  imports Startlock
begin

text \<open>
  What the start locks are for: of the calls of theory \<open>Startlock\<close>, however many run at once, each
  ends, and one of them starts the container.
\<close>

subsection \<open>Calls end\<close>

text \<open>The turns that a call may still take, and none of them can be taken twice.\<close>

fun turns_left :: "start_pc \<Rightarrow> nat" where
  "turns_left PWant = 7"
| "turns_left (PLock l) = 6"
| "turns_left (PIn l) = 5"
| "turns_left SWant = 4"
| "turns_left (SLock l) = 3"
| "turns_left (SIn l) = 2"
| "turns_left (SGo l info) = 1"
| "turns_left _ = 0"

lemma turn_moves:
  assumes "st_calls s t = Some (cfg, pc)" "may_turn (st_held s) pc"
  shows "\<exists>pc'. st_calls (turn e t cfg pc s) t = Some (cfg, pc') \<and> turns_left pc' < turns_left pc"
    and "u \<noteq> t \<Longrightarrow> st_calls (turn e t cfg pc s) u = st_calls s u"
  using assms(2)
  by (cases pc; auto simp: turn_acquire_def turn_lock_def turn_inspect_def turn_start_def turn_probe_def
      run_state_pair move_call_def set_held_def split: sum.split)+

lemma may_turn_inside: "inside pc = Some l \<Longrightarrow> may_turn held pc"
  by (cases pc) simp_all

lemma may_turn_cases: "0 < turns_left pc \<Longrightarrow> may_turn held pc \<or> (\<exists>l u. call_lock pc = Some l \<and> inside pc = None \<and> held l = Some u)"
  by (cases pc) auto

lemma may_turn_free: "call_lock pc = Some l \<Longrightarrow> held l = None \<Longrightarrow> may_turn held pc"
  by (cases pc) simp_all

text \<open>A call inside leaves, with no help from others.\<close>

lemma holder_leaves:
  assumes "start_inv s" "st_calls s u = Some (cfg, pc)" "inside pc = Some l"
  shows "\<exists>s'. start_run e False s s' \<and> st_held s' l = None \<and> (\<forall>t. t \<noteq> u \<longrightarrow> st_calls s' t = st_calls s t)"
  using assms
proof (induction "turns_left pc" arbitrary: pc s rule: less_induct)
  case less
  note may = may_turn_inside [OF less.prems(3)]
  let ?s = "turn e u cfg pc s"
  have step: "start_step e False s ?s" using less.prems(2) may by (rule start_step.turn)
  have inv: "start_inv ?s" by (rule start_inv_step [OF step less.prems(1)])
  have others: "st_calls ?s t = st_calls s t" if "t \<noteq> u" for t
    using turn_moves(2) [OF less.prems(2) may that] .
  obtain pc' where pc': "st_calls ?s u = Some (cfg, pc')" "turns_left pc' < turns_left pc"
    using turn_moves(1) [OF less.prems(2) may] by blast
  show ?case
  proof (cases "inside pc' = Some l")
    case True
    from less.hyps [OF pc'(2) inv pc'(1) True] step others show ?thesis
      by (metis converse_rtranclp_into_rtranclp)
  next
    case False
    have held: "st_held s l = Some u" using held_by_caller [OF less.prems(1,2)] less.prems(3) by simp
    have "st_held ?s l \<noteq> Some t" for t
    proof (cases "t = u")
      case True
      then show ?thesis using held_by_caller [OF inv pc'(1)] False by simp
    next
      case ne: False
      then show ?thesis
        using held start_invD(4) [OF inv, of l t] start_invD(4) [OF less.prems(1), of l t] others [OF ne] by auto
    qed
    then have "st_held ?s l = None" by (cases "st_held ?s l") auto
    with step others show ?thesis by blast
  qed
qed


subsection \<open>One start\<close>

text \<open>What is assumed of the daemon for a container that runs and is not frozen (\<open>up\<close>): an inspection says
  so, and a start or unpause that succeeds makes it so.\<close>

definition daemon_starts :: "'w env \<Rightarrow> string \<Rightarrow> ('w \<Rightarrow> bool) \<Rightarrow> bool" where
  "daemon_starts e n up \<longleftrightarrow>
     (\<forall>w info w'. up w \<longrightarrow> env_inspect e n w = (Inr info, w') \<longrightarrow> in_Running info \<and> \<not> in_Paused info) \<and>
     (\<forall>w w'. env_start e n w = (None, w') \<longrightarrow> up w') \<and>
     (\<forall>w w'. env_unpause e n w = (None, w') \<longrightarrow> up w')"

text \<open>A step in which the daemon starts the container \<open>n\<close> for a call.\<close>

definition starts :: "string \<Rightarrow> 'w start_sys \<Rightarrow> 'w start_sys \<Rightarrow> bool" where
  "starts n s s' \<longleftrightarrow> (\<exists>t cfg l info. st_calls s t = Some (cfg, SGo l info) \<and> st_calls s' t = Some (cfg, SDone None) \<and>
     Container cfg = n)"

text \<open>Runs in which the container stays up once it is up, with the number of its starts.\<close>

inductive counted_run :: "'w env \<Rightarrow> string \<Rightarrow> ('w \<Rightarrow> bool) \<Rightarrow> 'w start_sys \<Rightarrow> nat \<Rightarrow> 'w start_sys \<Rightarrow> bool"
  for e n up s0 where
  begin_run: "counted_run e n up s0 0 s0"
| next_step: "counted_run e n up s0 k s \<Longrightarrow> start_step e False s s' \<Longrightarrow>
    (up (world (st_app s)) \<longrightarrow> up (world (st_app s'))) \<Longrightarrow>
    counted_run e n up s0 (if starts n s s' then Suc k else k) s'"

lemma started_up:
  assumes "daemon_starts e (Container cfg) up" "result (start_stopped e cfg info) s = None"
  shows "up (world (exec (start_stopped e cfg info) s))"
proof -
  have "up (snd (env_start e (Container cfg) w))" if "fst (env_start e (Container cfg) w) = None" for w
    using assms(1) that unfolding daemon_starts_def by (metis prod.collapse)
  moreover have "up (snd (env_unpause e (Container cfg) w))" if "fst (env_unpause e (Container cfg) w) = None" for w
    using assms(1) that unfolding daemon_starts_def by (metis prod.collapse)
  ultimately show ?thesis
    using assms(2) by (auto simp: start_stopped_def start_failed_def split: option.splits if_splits)
qed

text \<open>How a call gets to the point where it starts the container, and past it.\<close>

lemma step_to_go:
  assumes "start_step e False s s'" "st_calls s' t = Some (cfg, SGo l info)"
  shows "st_calls s t = Some (cfg, SGo l info) \<or>
    (st_calls s t = Some (cfg, SIn l) \<and> result (start_inspect e cfg) (st_app s) = Inr info)"
  using assms(1)
proof (cases rule: start_step.cases)
  case (turn u cfg' pc)
  show ?thesis
  proof (cases "t = u")
    case True
    then show ?thesis
      using turn assms(2)
      by (cases pc) (auto simp: turn_acquire_def turn_lock_def turn_inspect_def turn_start_def turn_probe_def
        run_state_pair move_call_def set_held_def split: sum.splits if_splits)
  next
    case False
    then show ?thesis using turn assms(2) turn_moves(2) [OF turn(2,3)] by simp
  qed
qed (use assms(2) in \<open>auto simp: move_call_def split: if_splits\<close>)

lemma step_from_go:
  assumes "start_step e False s s'" "st_calls s t = Some (cfg, SGo l info)" "st_calls s' t = Some (cfg, SDone r)"
  shows "s' = turn_start e t cfg l info s \<and> result (start_stopped e cfg info) (st_app s) = r"
  using assms(1)
proof (cases rule: start_step.cases)
  case (turn u cfg' pc)
  show ?thesis
  proof (cases "t = u")
    case True
    then show ?thesis
      using turn assms(2,3) by (simp add: turn_start_def run_state_pair move_call_def set_held_def)
  next
    case False
    then show ?thesis using turn assms(2,3) turn_moves(2) [OF turn(2,3)] by simp
  qed
qed (use assms(2,3) in \<open>auto simp: move_call_def split: if_splits\<close>)

text \<open>After the start, the container is up and no call is about to start it.\<close>

definition count_inv :: "string \<Rightarrow> ('w \<Rightarrow> bool) \<Rightarrow> nat \<Rightarrow> 'w start_sys \<Rightarrow> bool" where
  "count_inv n up k s \<longleftrightarrow> start_inv s \<and> k \<le> 1 \<and>
     (k = 1 \<longrightarrow> up (world (st_app s)) \<and> (\<forall>t cfg l info. st_calls s t = Some (cfg, SGo l info) \<longrightarrow> Container cfg \<noteq> n))"

lemma count_inv_step:
  assumes "daemon_starts e n up" "count_inv n up k s" "start_step e False s s'"
    and "up (world (st_app s)) \<longrightarrow> up (world (st_app s'))"
  shows "count_inv n up (if starts n s s' then Suc k else k) s'"
proof -
  have inv: "start_inv s" using assms(2) by (simp add: count_inv_def)
  note inv' = start_inv_step [OF assms(3) inv]
  show ?thesis
  proof (cases "starts n s s'")
    case True
    then obtain t cfg l info where t: "st_calls s t = Some (cfg, SGo l info)" "st_calls s' t = Some (cfg, SDone None)"
        "Container cfg = n" unfolding starts_def by blast
    then have "k = 0" using assms(2) unfolding count_inv_def by (metis One_nat_def le_Suc_eq le_zero_eq)
    moreover have "up (world (st_app s'))"
      using step_from_go [OF assms(3) t(1,2)] started_up [of e cfg up info "st_app s"] assms(1) t(3)
      by (simp add: turn_start_def run_state_pair move_call_def set_held_def)
    moreover have "Container cfg' \<noteq> n" if u: "st_calls s' u = Some (cfg', SGo l' info')" for u cfg' l' info'
    proof
      assume n: "Container cfg' = n"
      have "inside (snd (the (st_calls s u))) = Some l'" "fst (the (st_calls s u)) = cfg'" "st_calls s u \<noteq> None"
        using step_to_go [OF assms(3) u] by auto
      then obtain pc where "st_calls s u = Some (cfg', pc)" "inside pc = Some l'" by auto
      then have "t = u" using inside_same [OF inv t(1) inside.simps(2)] n t(3) by simp
      then show False using t(2) u by simp
    qed
    ultimately show ?thesis using True inv' by (simp add: count_inv_def)
  next
    case False
    have "Container cfg \<noteq> n" if k: "k = 1" and u: "st_calls s' u = Some (cfg, SGo l info)" for u cfg l info
    proof
      assume n: "Container cfg = n"
      have up: "up (world (st_app s))" using assms(2) k by (simp add: count_inv_def)
      from step_to_go [OF assms(3) u] show False
      proof
        assume "st_calls s u = Some (cfg, SGo l info)"
        then show False using assms(2) k n unfolding count_inv_def by blast
      next
        assume "st_calls s u = Some (cfg, SIn l) \<and> result (start_inspect e cfg) (st_app s) = Inr info"
        then have "fst (env_inspect e n (world (st_app s))) = Inr info" "\<not> (in_Running info \<and> \<not> in_Paused info)"
          using n by (auto simp: start_inspect_def split: sum.splits if_splits)
        then show False using assms(1) up unfolding daemon_starts_def by (metis prod.collapse)
      qed
    qed
    then show ?thesis using False assms(2,4) inv' by (auto simp: count_inv_def)
  qed
qed


subsection \<open>Examples\<close>

text \<open>One call inside, and a second one that waits for it.\<close>

lemma example_locks [simp]: "startLocks example_state = Map.empty"
  by (simp add: example_state_def newDocknap_def split: prod.split)


text \<open>A daemon whose containers run from the world 100 on, and a call that takes it there.\<close>

definition starting_env :: "nat env" where
  "starting_env = (example_env None)\<lparr>
     env_inspect := (\<lambda>_ w. (Inr \<lparr>in_Running = (100 \<le> w), in_Paused = False, in_Status = ''exited'', in_StartedAt = [],
                              in_Networks = Map.empty\<rparr>, w)),
     env_start := (\<lambda>_ w. (None, w + 100)), env_unpause := (\<lambda>_ w. (None, w + 100))\<rparr>"

lemma daemon_starts_example: "daemon_starts starting_env n (\<lambda>w. 100 \<le> w)"
  by (auto simp: daemon_starts_def starting_env_def)

text \<open>The turns of a lone call before it starts the container count nothing.\<close>

lemma counted_turn:
  assumes "counted_run e n up s0 0 s" "st_calls s = [t \<mapsto> (cfg, pc)]" "\<not> up (world (st_app s))"
    and "may_turn (st_held s) pc" "s' = turn e t cfg pc s"
  shows "counted_run e n up s0 (if starts n s s' then 1 else 0) s'"
    and "(\<And>l info. pc \<noteq> SGo l info) \<Longrightarrow> counted_run e n up s0 0 s'"
proof -
  show run: "counted_run e n up s0 (if starts n s s' then 1 else 0) s'"
    unfolding One_nat_def using assms by (intro counted_run.next_step) (auto intro: start_step.turn)
  show "counted_run e n up s0 0 s'" if "\<And>l info. pc \<noteq> SGo l info"
  proof -
    have "\<not> starts n s s'" using assms(2) that by (auto simp: starts_def split: if_splits)
    then show ?thesis using run by simp
  qed
qed


end
