(* ===== verification/Server.thy ===== *)
theory Server
  imports Proxy Watch
begin

text \<open>
  \<open>main.go\<close>: reading the settings, starting, the routes and the shutdown; and the program as a
  whole, as a transition system whose steps are the requests, the timers and the goroutines
  of the other theories.
\<close>

subsection \<open>Settings\<close>

text \<open>\<open>os.Getenv\<close> is an argument; a missing variable is the empty string.\<close>

definition envOr :: "(string \<Rightarrow> string) \<Rightarrow> string \<Rightarrow> string \<Rightarrow> string" where
  "envOr getenv key fallback = (if getenv key \<noteq> [] then getenv key else fallback)"

definition envOrInt :: "(string \<Rightarrow> string) \<Rightarrow> string \<Rightarrow> int \<Rightarrow> int" where
  "envOrInt getenv key fallback =
     (if getenv key \<noteq> []
      then (case strconv_Atoi (getenv key) of None \<Rightarrow> fallback | Some i \<Rightarrow> if 1 \<le> i then i else fallback)
      else fallback)"

definition parseDurationOr :: "(string \<Rightarrow> string) \<Rightarrow> string \<Rightarrow> duration \<Rightarrow> duration" where
  "parseDurationOr getenv key fallback =
     (if getenv key \<noteq> []
      then (case time_ParseDuration (getenv key) of None \<Rightarrow> fallback | Some d \<Rightarrow> d)
      else fallback)"

definition configure :: "(string \<Rightarrow> string) \<Rightarrow> 'w docknap \<Rightarrow> 'w docknap" where
  "configure getenv s = s\<lparr>
     networkName := envOr getenv ''DOCKNAP_NETWORK'' ''docknap_network'',
     listenAddr := envOr getenv ''DOCKNAP_LISTEN'' '':8000'',
     idleDefault := parseDurationOr getenv ''DOCKNAP_IDLE_DEFAULT'' (5 * Minute),
     startTimeoutDefault := parseDurationOr getenv ''DOCKNAP_START_TIMEOUT'' (60 * Second),
     adminHost := getenv ''DOCKNAP_ADMIN_HOST'',
     tldCount := envOrInt getenv ''DOCKNAP_TLD_COUNT'' 1,
     writeTimeout := parseDurationOr getenv ''DOCKNAP_WRITE_TIMEOUT'' (60 * Second),
     trustedProxies := parseTrustedProxies (getenv ''DOCKNAP_TRUSTED_PROXIES'')\<rparr>"

definition setup_webhooks :: "(string \<Rightarrow> string) \<Rightarrow> ('w, unit) prog" where
  "setup_webhooks getenv =
     (case loadWebhookConfig (getenv ''DOCKNAP_WEBHOOK_URL'') (getenv ''DOCKNAP_WEBHOOK_EVENTS'') of
        Some w \<Rightarrow> do {
          modify (\<lambda>s. s\<lparr>the_notifier := WebhookNotifier w\<rparr>);
          log_at LevelInfo ''webhooks enabled'' [(''url'', JStr (getenv ''DOCKNAP_WEBHOOK_URL''))]
        }
      | None \<Rightarrow> modify (\<lambda>s. s\<lparr>the_notifier := noopNotifier\<rparr>))"

definition setup_admin :: "(string \<Rightarrow> string) \<Rightarrow> ('w, unit) prog" where
  "setup_admin getenv = do {
     let user = getenv ''DOCKNAP_ADMIN_USER'';
     modify (\<lambda>s. s\<lparr>adminUser := user\<rparr>);
     if user \<noteq> [] then do {
       modify (\<lambda>s. s\<lparr>adminUserHash := sha256_Sum256 user, adminPassHash := hashPassword (getenv ''DOCKNAP_ADMIN_PASS'')\<rparr>);
       log_at LevelInfo ''admin auth enabled'' [(''user'', JStr user)]
     }
     else log_at LevelWarn ''admin auth is DISABLED''
       [(''reason'', JStr ''DOCKNAP_ADMIN_USER / DOCKNAP_ADMIN_PASS not set''),
        (''risk'', JStr ''anyone who reaches the admin port can start/stop any container on this Docker host''),
        (''mitigation'', JStr ''set DOCKNAP_ADMIN_USER and DOCKNAP_ADMIN_PASS, and put docknap behind TLS'')]
   }"

definition note_settings :: "('w, unit) prog" where
  "note_settings = do {
     host \<leftarrow> gets adminHost;
     when_do (host \<noteq> []) (log_at LevelInfo ''admin host'' [(''host'', JStr host)]);
     tld \<leftarrow> gets tldCount;
     when_do (tld \<noteq> 1) (log_at LevelInfo ''subdomain extraction'' [(''tld_count'', JInt tld)]);
     wt \<leftarrow> gets writeTimeout;
     when_do (wt = 0) (log_at LevelWarn
       ''write timeout disabled (DOCKNAP_WRITE_TIMEOUT=0); clients can hold connections open indefinitely'' [])
   }"

subsection \<open>Starting\<close>

definition note_registered :: "('w, unit) prog" where
  "note_registered = do {
     addr \<leftarrow> gets listenAddr;
     cs \<leftarrow> gets configs;
     log_at LevelInfo ''listening'' [(''addr'', JStr addr), (''registered'', JInt (int (length cs)))];
     for_each cs (\<lambda>(sub, cfg). log_at LevelInfo ''registered''
       [(''subdomain'', JStr sub), (''container'', JStr (Container cfg)), (''port'', JInt (TargetPort cfg)),
        (''idle'', JStr (duration_String (IdleTimeout cfg)))])
   }"

definition main_discover :: "'w env \<Rightarrow> ('w, outcome) prog" where
  "main_discover e = do {
     note_settings;
     d \<leftarrow> discover e;
     case d of
       Failed er \<Rightarrow> ret (Failed (''discover: '' @ er))
     | Crashed \<Rightarrow> ret Crashed
     | Done \<Rightarrow> do {
         n \<leftarrow> gets (\<lambda>s. length (configs s));
         set_gauge mh_Registered Map.empty (f64_of_int (int n));
         note_registered;
         ret Done
       }
   }"

text \<open>From the creation of the state up to the start of the server. \<open>Failed\<close> is \<open>log.Fatal\<close>.\<close>

definition main_start :: "(string \<Rightarrow> string) \<Rightarrow> 'w env \<Rightarrow> ('w, outcome) prog" where
  "main_start getenv e = do {
     log_at LevelInfo ''starting''
       [(''listen'', JStr (envOr getenv ''DOCKNAP_LISTEN'' '':8000'')),
        (''log_format'', JStr (strings_ToLower (envOr getenv ''DOCKNAP_LOG_FORMAT'' ''text''))),
        (''version'', JStr (env_version e))];
     modify (configure getenv);
     setup_webhooks getenv;
     if (getenv ''DOCKNAP_ADMIN_USER'' = []) \<noteq> (getenv ''DOCKNAP_ADMIN_PASS'' = [])
     then ret (Failed ''DOCKNAP_ADMIN_USER and DOCKNAP_ADMIN_PASS must both be set or both unset'')
     else do { setup_admin getenv; main_discover e }
   }"

subsection \<open>Routes\<close>

datatype route =
    R_login | R_logout | R_admin | R_status | R_config | R_wait | R_wake | R_stop | R_wake_all | R_stop_all
  | R_metrics | R_service_metrics | R_history | R_logs | R_readyz | R_version | R_pprof | R_healthz | R_proxy

definition routes :: "(string \<times> route) list" where
  "routes = [
     (''/_docknap/auth/login'', R_login),
     (''/_docknap/auth/logout'', R_logout),
     (''/_docknap'', R_admin),
     (''/_docknap/'', R_admin),
     (''/_docknap/status'', R_status),
     (''/_docknap/config'', R_config),
     (''/_docknap/wait/'', R_wait),
     (''/_docknap/wake/'', R_wake),
     (''/_docknap/stop/'', R_stop),
     (''/_docknap/wake_all'', R_wake_all),
     (''/_docknap/stop_all'', R_stop_all),
     (''/_docknap/metrics'', R_metrics),
     (''/_docknap/metrics/'', R_service_metrics),
     (''/_docknap/history/'', R_history),
     (''/_docknap/logs/'', R_logs),
     (''/_docknap/readyz'', R_readyz),
     (''/_docknap/version'', R_version),
     (''/_docknap/debug/pprof/'', R_pprof),
     (''/healthz'', R_healthz),
     (''/'', R_proxy)]"

text \<open>The profiling pages of the standard library are an argument; they only write a response.\<close>

type_synonym pprof = "pprof_page \<Rightarrow> request \<Rightarrow> response \<Rightarrow> response"

definition no_panic :: "('w, unit) prog \<Rightarrow> ('w, panic option) prog" where
  "no_panic m = do { m; ret None }"

fun route_handler :: "'w env \<Rightarrow> sched \<Rightarrow> pprof \<Rightarrow> route \<Rightarrow> request \<Rightarrow> ('w, panic option) prog" where
  "route_handler e sched pprof R_login r = no_panic (handleLogin e r)"
| "route_handler e sched pprof R_logout r = no_panic (requireAuth e (requireCSRF handleLogout) r)"
| "route_handler e sched pprof R_admin r = no_panic (requireAuth e (handleAdmin e) r)"
| "route_handler e sched pprof R_status r = no_panic (requireAuth e (handleStatus e) r)"
| "route_handler e sched pprof R_config r = no_panic (requireAuth e (handleConfig e) r)"
| "route_handler e sched pprof R_wait r = no_panic (handleWait e r)"
| "route_handler e sched pprof R_wake r = no_panic (requireAuth e (requireCSRF (handleWake e)) r)"
| "route_handler e sched pprof R_stop r = no_panic (requireAuth e (requireCSRF (handleStop e)) r)"
| "route_handler e sched pprof R_wake_all r = no_panic (requireAuth e (requireCSRF (handleWakeAll e sched)) r)"
| "route_handler e sched pprof R_stop_all r = no_panic (requireAuth e (requireCSRF (handleStopAll e sched)) r)"
| "route_handler e sched pprof R_metrics r = no_panic (requireAuth e handleMetrics r)"
| "route_handler e sched pprof R_service_metrics r = no_panic (requireAuth e handleServiceMetrics r)"
| "route_handler e sched pprof R_history r = no_panic (requireAuth e (handleServiceHistory e) r)"
| "route_handler e sched pprof R_logs r = no_panic (requireAuth e handleLogs r)"
| "route_handler e sched pprof R_readyz r = no_panic (requireAuth e handleReadyz r)"
| "route_handler e sched pprof R_version r = no_panic (handleVersion e r)"
| "route_handler e sched pprof R_pprof r = no_panic (requireAuth e (handlePprof (\<lambda>p r. respond (pprof p r))) r)"
| "route_handler e sched pprof R_healthz r = no_panic (handleHealthz r)"
| "route_handler e sched pprof R_proxy r = handleProxy e r"

text \<open>
  \<open>http.ServeMux\<close> on these patterns, which have neither method nor host nor wildcards: a pattern
  that ends in a slash matches every path below it, the longest one wins, and a request is
  redirected when its path is not clean, or when only the path with a slash at its end is a
  pattern. A CONNECT request's path is taken as it is. Paths need no escaping here, and the
  query, which a redirect repeats, is not part of a \<open>request\<close>.
\<close>

definition mux_cleanPath :: "string \<Rightarrow> string" where
  "mux_cleanPath p0 =
     (if p0 = [] then ''/''
      else let p = (if hd p0 \<noteq> CHR ''/'' then CHR ''/'' # p0 else p0); np = path_Clean p
           in if last p = CHR ''/'' \<and> np \<noteq> ''/'' then np @ ''/'' else np)"

definition longest :: "(string \<times> route) list \<Rightarrow> (string \<times> route) option" where
  "longest ps = fold (\<lambda>p best. case best of
      None \<Rightarrow> Some p | Some b \<Rightarrow> if length (fst b) < length (fst p) then Some p else best) ps None"

definition mux_match :: "string \<Rightarrow> route option" where
  "mux_match path =
     (case map_of routes path of
        Some rt \<Rightarrow> Some rt
      | None \<Rightarrow> map_option snd (longest (filter (\<lambda>(pat, _). suffix ''/'' pat \<and> prefix pat path) routes)))"

datatype mux_result = MuxRedirect string | MuxServe route | MuxNone

definition mux_find :: "request \<Rightarrow> mux_result" where
  "mux_find r =
     (let path = (if rq_Method r = ''CONNECT'' then rq_Path r else mux_cleanPath (rq_Path r))
      in if map_of routes path = None \<and> \<not> suffix ''/'' path \<and> map_of routes (path @ ''/'') \<noteq> None
         then MuxRedirect (mux_cleanPath (rq_Path r) @ ''/'')
         else if path \<noteq> rq_Path r then MuxRedirect path
         else case mux_match path of Some rt \<Rightarrow> MuxServe rt | None \<Rightarrow> MuxNone)"

definition mux_serve :: "'w env \<Rightarrow> sched \<Rightarrow> pprof \<Rightarrow> request \<Rightarrow> ('w, panic option) prog" where
  "mux_serve e sched pprof r =
     (case mux_find r of
        MuxRedirect u \<Rightarrow> no_panic (respond (http_Redirect r u 301))
      | MuxServe rt \<Rightarrow> route_handler e sched pprof rt r
      | MuxNone \<Rightarrow> no_panic (respond http_NotFound))"

text \<open>A request from its start to its end, with \<open>recoverMiddleware\<close> around the routes.\<close>

definition serve :: "'w env \<Rightarrow> sched \<Rightarrow> pprof \<Rightarrow> request \<Rightarrow> ('w, unit) prog" where
  "serve e sched pprof r = do {
     modify (\<lambda>s. s\<lparr>resp := new_response\<rparr>);
     p \<leftarrow> mux_serve e sched pprof r;
     w \<leftarrow> gets resp;
     (case recoverMiddleware (\<lambda>_ _. (w, p)) r new_response of
        (w', None) \<Rightarrow> respond (\<lambda>_. w')
      | (w', Some (msg, fs)) \<Rightarrow> do {
          log_at LevelError msg (List.map (\<lambda>(k, v). (k, JStr v)) fs);
          respond (\<lambda>_. w')
        })
   }"

subsection \<open>Housekeeping and the shutdown\<close>

definition sessionGC_tick :: "'w env \<Rightarrow> ('w, unit) prog" where
  "sessionGC_tick e = do {
     now \<leftarrow> time_Now e;
     modify (\<lambda>s. s\<lparr>sessions := session_gc now (sessions s)\<rparr>)
   }"

definition main_shutdown :: "string \<Rightarrow> err option \<Rightarrow> nat \<Rightarrow> ('w, unit) prog" where
  "main_shutdown sig server_err picks = do {
     log_at LevelInfo ''shutdown signal received'' [(''signal'', JStr sig)];
     (case server_err of
        None \<Rightarrow> ret ()
      | Some er \<Rightarrow> log_at LevelWarn ''server shutdown'' [(''err'', JStr er)]);
     modify (\<lambda>s. s\<lparr>rootDone := True\<rparr>);
     stopAllIdleTimers;
     modify (\<lambda>s. s\<lparr>the_hub := tailer_stopAll (the_hub s)\<rparr>);
     modify (\<lambda>s. s\<lparr>the_notifier := notifier_shutdown picks (the_notifier s)\<rparr>);
     log_at LevelInfo ''shutdown complete'' []
   }"


subsection \<open>The whole of main\<close>

text \<open>The limits of the HTTP server, in nanoseconds and bytes.\<close>

record http_Server =
  srv_Addr :: string
  srv_ReadTimeout :: duration
  srv_ReadHeaderTimeout :: duration
  srv_WriteTimeout :: duration
  srv_IdleTimeout :: duration
  srv_MaxHeaderBytes :: int
  srv_MinTLSVersion :: string

definition http_server :: "'w docknap \<Rightarrow> http_Server" where
  "http_server s =
     \<lparr>srv_Addr = listenAddr s, srv_ReadTimeout = 30 * Second, srv_ReadHeaderTimeout = 10 * Second,
      srv_WriteTimeout = writeTimeout s, srv_IdleTimeout = 120 * Second, srv_MaxHeaderBytes = 2 ^ 20,
      srv_MinTLSVersion = ''1.2''\<rparr>"

text \<open>What \<open>main\<close> waits for once the server runs: the end of the server, or a signal, which comes with the
  answer of \<open>srv.Shutdown\<close> and the last picks of the webhook worker.\<close>

datatype main_end = ServerEnded "err option" | Signalled string "err option" nat

definition http_ErrServerClosed :: err where
  "http_ErrServerClosed = ''http: Server closed''"

definition main_wait :: "main_end \<Rightarrow> ('w, outcome) prog" where
  "main_wait fin =
     (case fin of
        ServerEnded None \<Rightarrow> ret Done
      | ServerEnded (Some er) \<Rightarrow> ret (if er \<noteq> http_ErrServerClosed then Failed (''server: '' @ er) else Done)
      | Signalled sig er picks \<Rightarrow> do { main_shutdown sig er picks; ret Done })"

text \<open>\<open>client\<close> is the outcome of the client's creation, and \<open>work\<close> what the program does while it serves.\<close>

definition main :: "(string \<Rightarrow> string) \<Rightarrow> 'w env \<Rightarrow> err option \<Rightarrow> ('w, unit) prog \<Rightarrow> main_end \<Rightarrow> ('w, outcome) prog" where
  "main getenv e client work fin =
     (case client of
        Some er \<Rightarrow> ret (Failed (''docker client: '' @ er))
      | None \<Rightarrow> do {
          d \<leftarrow> main_start getenv e;
          case d of
            Done \<Rightarrow> do { work; main_wait fin }
          | Failed er \<Rightarrow> ret (Failed er)
          | Crashed \<Rightarrow> ret Crashed
        })"

subsection \<open>What the program keeps\<close>

interpretation same_admin: service_invariant "\<lambda>s. (adminUser s, adminUserHash s, adminPassHash s) = a" for a
  by (unfold_locales; (intro keeps_timers_of_fields)?) auto

interpretation hub_service: service_invariant "\<lambda>s. hub_inv (the_hub s)"
  by (unfold_locales; (intro keeps_timers_of_fields)?) auto

lemma hub_handleLogs [preserve_rules]:
  "preserves timer_inv (handleLogs r)" "preserves config_inv (handleLogs r)" "preserves (\<lambda>s. hub_inv (the_hub s)) (handleLogs r)"
proof -
  show "preserves timer_inv (handleLogs r)" by (rule timer_frame.keeps_handleLogs) (simp add: timer_inv_def)
  show "preserves config_inv (handleLogs r)" by (rule config_service.keeps_handleLogs) (simp add: config_inv_def)
  show "preserves (\<lambda>s. hub_inv (the_hub s)) (handleLogs r)"
    using hub_inv_step [of _ "Hub_open _ _ _"] by (intro hub_service.keeps_handleLogs) simp
qed

text \<open>A request keeps what the handlers keep.\<close>

context service_invariant
begin

lemma keeps_route_handler:
  assumes "\<And>r. preserves P (handleLogs r)"
  shows "preserves P (route_handler e sched pprof rt r)"
  using assms by (cases rt) (auto simp: no_panic_def intro!: preserve_rules)

lemma keeps_serve:
  assumes "\<And>r. preserves P (handleLogs r)"
  shows "preserves P (serve e sched pprof r)"
  using assms unfolding serve_def mux_serve_def no_panic_def
  by (intro preserve_rules keeps_route_handler preserves_modify frame_facts)
    (auto intro!: preserve_rules keeps_route_handler split: mux_result.split option.split)

lemma keeps_sessionGC_tick [preserve_rules]: "preserves P (sessionGC_tick e)"
  unfolding sessionGC_tick_def by (intro preserve_rules preserves_modify frame_facts)

end


subsection \<open>The program as a transition system\<close>

definition notifier_turn :: "err option \<Rightarrow> err option \<Rightarrow> err + int \<Rightarrow> bool \<Rightarrow> ('w, unit) prog" where
  "notifier_turn m b reply d = modify (\<lambda>s. s\<lparr>the_notifier := notifier_work m b reply d (the_notifier s)\<rparr>)"

text \<open>A move of a viewer or a tail; streams open through requests only.\<close>

fun hub_turn :: "hub_op \<Rightarrow> ('w, unit) prog" where
  "hub_turn (Hub_open sub c w) = ret ()"
| "hub_turn op = modify (\<lambda>s. s\<lparr>the_hub := hub_step op (the_hub s)\<rparr>)"

inductive system_step :: "'w env \<Rightarrow> sched \<Rightarrow> pprof \<Rightarrow> 'w docknap \<Rightarrow> 'w docknap \<Rightarrow> bool"
  for e :: "'w env" and sched and pprof where
  request: "system_step e sched pprof s (exec (serve e sched pprof r) s)"
| timer: "system_step e sched pprof s (exec (fire_timer e tid) s)"
| waiting: "w \<in> set (waiters s) \<Longrightarrow> system_step e sched pprof s (exec (wait_tick e w) s)"
| sync: "system_step e sched pprof s (exec (syncContainers e) s)"
| events: "system_step e sched pprof s (exec (set_eventsOK b) s)"
| gc: "system_step e sched pprof s (exec (sessionGC_tick e) s)"
| webhook: "system_step e sched pprof s (exec (notifier_turn m b reply d) s)"
| live_log: "system_step e sched pprof s (exec (hub_turn op) s)"
| shutdown: "system_step e sched pprof s (exec (main_shutdown sig er picks) s)"

inductive reachable :: "(string \<Rightarrow> string) \<Rightarrow> 'w env \<Rightarrow> sched \<Rightarrow> pprof \<Rightarrow> 'w \<Rightarrow> 'w docknap \<Rightarrow> bool"
  for getenv and e :: "'w env" and sched and pprof and w0 where
  started: "run_state (main_start getenv e) (newDocknap NewRegistry w0) = (Done, s) \<Longrightarrow> reachable getenv e sched pprof w0 s"
| moved: "reachable getenv e sched pprof w0 s \<Longrightarrow> system_step e sched pprof s s' \<Longrightarrow> reachable getenv e sched pprof w0 s'"

subsection \<open>The invariant of the program\<close>

definition system_inv :: "'w docknap \<Rightarrow> bool" where
  "system_inv s \<longleftrightarrow> timer_inv s \<and> config_inv s \<and> hub_inv (the_hub s)"

lemma timers_after_stops:
  "exec (for_each ts timer_Stop) s = s\<lparr>timers := fold AList.delete ts (timers s)\<rparr>"
  by (induction ts arbitrary: s) (simp_all add: timer_Stop_def)

lemma map_of_fold_delete: "map_of (fold AList.delete ts m) k = (if k \<in> set ts then None else map_of m k)"
  by (induction ts arbitrary: m) auto

lemma stopAllIdleTimers_stops:
  assumes "timer_inv s"
  shows "exec stopAllIdleTimers s = s\<lparr>idleTimers := [], timers := []\<rparr>"
proof -
  have "map_of (fold AList.delete (List.map snd (idleTimers s)) (timers s)) tid = None" for tid
  proof (cases "map_of (timers s) tid")
    case (Some pt)
    from imageI [OF map_of_SomeD [OF timer_inv_named [OF assms Some]], of snd]
    show ?thesis by (simp add: map_of_fold_delete)
  qed (simp add: map_of_fold_delete)
  then have "fold AList.delete (List.map snd (idleTimers s)) (timers s) = []"
    by (metis empty_iff list.set(1) map_of_eq_None_iff set_empty image_is_empty ex_in_conv)
  then show ?thesis by (simp add: stopAllIdleTimers_def timers_after_stops)
qed

lemma inv_main_shutdown:
  assumes "system_inv s"
  shows "system_inv (exec (main_shutdown sig er picks) s)"
proof -
  have "exec stopAllIdleTimers u = u\<lparr>idleTimers := [], timers := []\<rparr>"
    if "timers u = timers s" "idleTimers u = idleTimers s" "next_id u = next_id s" for u :: "'a docknap"
    using that assms by (intro stopAllIdleTimers_stops) (simp add: system_inv_def timer_inv_def)
  then show ?thesis
    using assms hub_inv_stop(2)
    by (auto simp: main_shutdown_def system_inv_def timer_inv_def config_inv_def split: option.split)
qed

lemma system_inv_preserved:
  assumes "preserves timer_inv m" "preserves config_inv m" "preserves (\<lambda>s. hub_inv (the_hub s)) m" "system_inv s"
  shows "system_inv (exec m s)"
  using assms by (simp add: system_inv_def preserves_def)

lemma inv_hub_turn: "system_inv s \<Longrightarrow> system_inv (exec (hub_turn op) s)"
  using hub_inv_step [of "the_hub s" op]
  by (cases op) (simp_all add: system_inv_def timer_inv_def config_inv_def)

lemma system_inv_step:
  assumes "system_step e sched pprof s s'" "system_inv s"
  shows "system_inv s'"
  using assms(1)
proof (cases rule: system_step.cases)
  case (request r)
  show ?thesis
    unfolding request
    by (intro system_inv_preserved timer_service.keeps_serve config_service.keeps_serve hub_service.keeps_serve
        hub_handleLogs assms(2))
next
  case (live_log op)
  then show ?thesis using inv_hub_turn [OF assms(2)] by simp
next
  case (shutdown sig er picks)
  then show ?thesis using inv_main_shutdown [OF assms(2)] by simp
next
  case (events b)
  then show ?thesis using assms(2) by (simp add: system_inv_def timer_inv_def config_inv_def)
next
  case (webhook m b reply d)
  then show ?thesis using assms(2) by (simp add: notifier_turn_def system_inv_def timer_inv_def config_inv_def)
qed (use assms(2) in \<open>auto intro!: system_inv_preserved preserve_rules\<close>)


lemma preserves_outcome:
  "preserves P z \<Longrightarrow> (\<And>er. preserves P (x er)) \<Longrightarrow> preserves P y \<Longrightarrow>
    preserves P (case d of Done \<Rightarrow> z | Failed er \<Rightarrow> x er | Crashed \<Rightarrow> y)"
  by (cases d) simp_all

context service_invariant
begin

lemma keeps_main_discover [preserve_rules]: "preserves P (main_discover e)"
proof -
  have "preserves P note_settings" "preserves P note_registered"
    unfolding note_settings_def note_registered_def by (intro preserve_rules)+
  then show ?thesis unfolding main_discover_def by (intro preserve_rules preserves_outcome)
qed

lemma keeps_main_start:
  assumes "\<And>s. P s \<Longrightarrow> P (configure getenv s)" "\<And>s u. P s \<Longrightarrow> P (s\<lparr>adminUser := u\<rparr>)"
    and "\<And>s u p. P s \<Longrightarrow> P (s\<lparr>adminUserHash := u, adminPassHash := p\<rparr>)"
  shows "preserves P (main_start getenv e)"
proof -
  have "preserves P (setup_webhooks getenv)"
    unfolding setup_webhooks_def by (intro preserve_rules preserves_modify frame_facts)
  moreover have "preserves P (setup_admin getenv)"
    unfolding setup_admin_def by (intro preserve_rules preserves_modify assms(2,3))
  ultimately show ?thesis
    unfolding main_start_def by (intro preserve_rules preserves_modify assms(1))
qed

end

lemma system_inv_start:
  "system_inv (exec (main_start getenv e) (newDocknap NewRegistry w0))"
proof (rule system_inv_preserved)
  show "preserves timer_inv (main_start getenv e)"
    by (rule timer_service.keeps_main_start) (simp_all add: timer_inv_def configure_def)
  show "preserves config_inv (main_start getenv e)"
    by (rule config_service.keeps_main_start) (simp_all add: config_inv_def configure_def)
  show "preserves (\<lambda>s. hub_inv (the_hub s)) (main_start getenv e)"
    by (rule hub_service.keeps_main_start) (simp_all add: configure_def)
  show "system_inv (newDocknap NewRegistry w0)"
    by (simp add: system_inv_def newDocknap_def timer_inv_def config_inv_def hub_inv_new split: prod.split)
qed

lemma reachable_inv: "reachable getenv e sched pprof w0 s \<Longrightarrow> system_inv s"
proof (induction rule: reachable.induct)
  case (started s)
  then show ?case using system_inv_start [of getenv e w0] by (simp add: exec_def)
next
  case (moved s s')
  then show ?case by (blast intro: system_inv_step)
qed

text \<open>C2: In every state that the program can reach - through any requests, fired timers, readiness
  probes, synchronisations, event-stream failures, session collections, webhook deliveries, live
  logs and a shutdown, in any order, with a daemon that may answer anything - a container has at
  most one pending idle timer, and that is the one the program knows for it; every service is
  registered under its own, non-empty subdomain, once; and a service has at most one live tail.\<close>

theorem program_invariant:
  assumes "reachable getenv e sched pprof w0 s"
  shows "(\<forall>name. \<exists>p. pending_for name s \<subseteq> {p}) \<and>
    (\<forall>name tid pt. (tid, pt) \<in> pending_for name s \<longrightarrow> map_of (idleTimers s) name = Some tid) \<and>
    distinct (List.map fst (configs s)) \<and>
    (\<forall>sub cfg. (sub, cfg) \<in> set (configs s) \<longrightarrow> Subdomain cfg = sub \<and> sub \<noteq> []) \<and>
    (\<forall>sub. length (live_tails sub (the_hub s)) \<le> 1)"
proof -
  have inv: "timer_inv s" "config_inv s" "hub_inv (the_hub s)"
    using reachable_inv [OF assms] by (simp_all add: system_inv_def)
  have named: "map_of (idleTimers s) name = Some tid" if "(tid, pt) \<in> pending_for name s" for name tid pt
    using that timer_inv_named [OF inv(1)] by (auto simp: pending_for_def)
  have "\<exists>p. pending_for name s \<subseteq> {p}" for name
  proof (cases "pending_for name s = {}")
    case False
    then obtain tid pt where p: "(tid, pt) \<in> pending_for name s" by auto
    have "q = (tid, pt)" if "q \<in> pending_for name s" for q
      using named [OF p] named [of "fst q" "snd q" name] that p by (cases q) (simp add: pending_for_def)
    then show ?thesis by (intro exI [of _ "(tid, pt)"]) blast
  qed simp
  then show ?thesis
    using named inv(2) hub_inv_live [OF inv(3)] map_of_in_set [of "configs s"]
    by (simp add: config_inv_def wf_gomap_def keys_of_def)
qed


lemma main_start_done:
  assumes "(getenv ''DOCKNAP_ADMIN_USER'' = []) = (getenv ''DOCKNAP_ADMIN_PASS'' = [])" "\<And>s. result (discover e) s = Done"
  shows "result (main_start getenv e) s = Done"
  using assms by (simp add: main_start_def main_discover_def)

lemma main_start_example:
  "result (main_start (\<lambda>_. []) (example_env None)) (newDocknap NewRegistry 0) = Done"
  by (rule main_start_done) (simp_all add: discover_def example_env_def)

theorem program_invariant_witness:
  "\<exists>s. reachable (\<lambda>_. []) (example_env None) (\<lambda>x. x) (\<lambda>_ _ w. w) 0 s \<and>
     distinct (List.map fst (configs s)) \<and> length (live_tails ''app'' (the_hub s)) \<le> 1"
proof -
  let ?init = "exec (main_start (\<lambda>_. []) (example_env None)) (newDocknap NewRegistry 0)"
  let ?s = "exec (serve (example_env None) (\<lambda>x. x) (\<lambda>_ _ w. w) (get_request ''h'' ''/healthz'')) ?init"
  have "reachable (\<lambda>_. []) (example_env None) (\<lambda>x. x) (\<lambda>_ _ w. w) 0 ?init"
    using main_start_example by (intro reachable.started) (simp add: run_state_pair)
  then have "reachable (\<lambda>_. []) (example_env None) (\<lambda>x. x) (\<lambda>_ _ w. w) 0 ?s"
    by (rule reachable.moved) (rule system_step.request)
  from this program_invariant [OF this] show ?thesis by blast
qed

text \<open>What \<open>Watch\<close> takes for granted of the rest of the program holds: requests, timers and waiting
  goroutines are steps of somebody else there, for they leave \<open>eventsOK\<close> alone.\<close>

lemma rest_leaves_eventsOK:
  "eventsOK (exec (serve e sched pprof r) s) = eventsOK s"
  "eventsOK (exec (fire_timer e tid) s) = eventsOK s"
  "eventsOK (exec (wait_tick e w) s) = eventsOK s"
  "eventsOK (exec (sessionGC_tick e) s) = eventsOK s"
  by (rule preserves_eq [of eventsOK], intro preserve_rules same_eventsOK.keeps_serve same_eventsOK.keeps_handleLogs; simp)+

lemma request_beside_watcher:
  "\<not> wt_crashed w \<Longrightarrow> watch_step e closes w (on_app (serve e sched pprof r) w)"
  unfolding on_app_def by (rule watch_step.other) (simp_all add: rest_leaves_eventsOK)

subsection \<open>The shutdown\<close>

lemma live_tails_stopAll: "hub_inv h \<Longrightarrow> live_tails sub (tailer_stopAll h) = []"
proof -
  assume "hub_inv h"
  from live_tail_ctx [OF hub_inv_stop(2) [OF this]]
  have "t \<notin> set (live_tails sub (tailer_stopAll h))" for t by (fastforce simp: tailer_stopAll_def)
  then show ?thesis by (metis last_in_set)
qed

lemma shutdown_ends:
  assumes "system_inv s" "s' = exec (main_shutdown sig er picks) s"
  shows "timers s' = []" "idleTimers s' = []" "live_tails sub (the_hub s') = []"
    "the_notifier s' = notifier_shutdown picks (the_notifier s)" "rootDone s'"
proof -
  have "exec stopAllIdleTimers u = u\<lparr>idleTimers := [], timers := []\<rparr>"
    if "timers u = timers s" "idleTimers u = idleTimers s" "next_id u = next_id s" for u :: "'a docknap"
    using that assms(1) by (intro stopAllIdleTimers_stops) (simp add: system_inv_def timer_inv_def)
  then have run: "timers s' = []" "idleTimers s' = []" "the_hub s' = tailer_stopAll (the_hub s)"
      "the_notifier s' = notifier_shutdown picks (the_notifier s)" "rootDone s'"
    by (simp_all add: assms(2) main_shutdown_def split: option.split)
  then show "timers s' = []" "idleTimers s' = []" "the_notifier s' = notifier_shutdown picks (the_notifier s)" "rootDone s'"
    by simp_all
  show "live_tails sub (the_hub s') = []"
    using assms(1) live_tails_stopAll by (simp add: run system_inv_def)
qed




text \<open>How a run of the program ends. Without a client, or when the start fails, it never serves; when the
  server fails, its error is the result and nothing is shut down; on a signal, whatever was
  done while serving, the program ends well with no timer pending or known and no live tail.\<close>

theorem main_outcome:
  assumes "s0 = newDocknap NewRegistry w0" "preserves system_inv work"
    and "s1 = exec (main_start getenv e) s0" "(d, s') = run_state (main getenv e client work fin) s0"
  shows "case client of
      Some er \<Rightarrow> d = Failed (''docker client: '' @ er) \<and> s' = s0
    | None \<Rightarrow> (case result (main_start getenv e) s0 of
          Done \<Rightarrow> (case fin of
              ServerEnded er \<Rightarrow> s' = exec work s1 \<and> (d = Done) = (er \<in> {None, Some http_ErrServerClosed})
            | Signalled sig er picks \<Rightarrow> d = Done \<and> timers s' = [] \<and> idleTimers s' = [] \<and> rootDone s' \<and>
                (\<forall>sub. live_tails sub (the_hub s') = []))
        | r \<Rightarrow> d = r \<and> s' = s1)"
proof (cases client)
  case None
  have ds: "d = result (main getenv e client work fin) s0" "s' = exec (main getenv e client work fin) s0"
    using assms(4) by (simp_all add: run_state_pair)
  have inv: "system_inv (exec work s1)"
    using system_inv_start [of getenv e w0] assms(1-3) by (simp add: preserves_def)
  show ?thesis
  proof (cases "result (main_start getenv e) s0")
    case Done
    have ran: "s' = exec (main_wait fin) (exec work s1)" "d = result (main_wait fin) (exec work s1)"
      using None Done by (simp_all add: ds main_def assms(3))
    show ?thesis
    proof (cases fin)
      case (ServerEnded er)
      then show ?thesis using None Done ran by (cases er) (simp_all add: main_wait_def)
    next
      case (Signalled sig er picks)
      then have fin: "s' = exec (main_shutdown sig er picks) (exec work s1)" "d = Done"
        using ran by (simp_all add: main_wait_def)
      have "timers s' = [] \<and> idleTimers s' = [] \<and> rootDone s' \<and> (\<forall>sub. live_tails sub (the_hub s') = [])"
        using shutdown_ends [OF inv fin(1)] by blast
      then show ?thesis using None Done Signalled fin(2) by simp
    qed
  qed (use None in \<open>simp_all add: ds main_def assms(3)\<close>)
qed (use assms(4) in \<open>simp add: main_def\<close>)

theorem main_outcome_witness:
  "\<exists>s'. run_state (main (\<lambda>_. []) (example_env None) None (resetIdleTimer (example_env None) example_cfg) (Signalled ''interrupt'' None 0))
      (newDocknap NewRegistry 0) = (Done, s') \<and> timers s' = []"
proof -
  have "preserves system_inv (resetIdleTimer (example_env None) example_cfg)"
    by (rule preservesI) (intro system_inv_preserved preserve_rules)
  from main_outcome [OF refl this refl run_state_pair [symmetric], of "\<lambda>_. []" "example_env None" None
      "Signalled ''interrupt'' None 0" 0] show ?thesis
    by (simp add: main_start_example run_state_pair)
qed

subsection \<open>Properties of the start\<close>




subsection \<open>What an unauthenticated request can do\<close>

lemma fold_longest:
  "fold (\<lambda>p best. case best of None \<Rightarrow> Some p | Some b \<Rightarrow> if length (fst b) < length (fst p) then Some p else best) ps b0 = Some b
    \<Longrightarrow> (b \<in> set ps \<or> b0 = Some b) \<and> (\<forall>p \<in> set ps. length (fst p) \<le> length (fst b)) \<and>
      (\<forall>p. b0 = Some p \<longrightarrow> length (fst p) \<le> length (fst b))"
proof (induction ps arbitrary: b0)
  case (Cons p ps)
  from Cons.IH [OF Cons.prems [unfolded fold_simps]] show ?case
    by (cases p) (auto split: option.splits if_splits)
qed simp

lemma longest_SomeD: "longest ps = Some b \<Longrightarrow> b \<in> set ps \<and> (\<forall>p \<in> set ps. length (fst p) \<le> length (fst b))"
  unfolding longest_def by (drule fold_longest) auto

definition open_routes :: "route list" where
  "open_routes = [R_login, R_wait, R_version, R_healthz, R_proxy]"

text \<open>The paths below \<open>/_docknap\<close> that are served without a login.\<close>

definition open_path :: "string \<Rightarrow> bool" where
  "open_path p \<longleftrightarrow> p = loginPath \<or> prefix ''/_docknap/wait/'' p \<or> p = ''/_docknap/version''"

lemma mux_match_guarded:
  assumes "mux_match p = Some rt" "p = ''/_docknap'' \<or> prefix ''/_docknap/'' p" "\<not> open_path p"
  shows "rt \<notin> set open_routes"
proof (cases "map_of routes p")
  case (Some x)
  then show ?thesis
    using assms by (auto simp: mux_match_def routes_def open_routes_def open_path_def loginPath_def split: if_splits)
next
  case None
  let ?c = "filter (\<lambda>(pat, _). suffix ''/'' pat \<and> prefix pat p) routes"
  from assms(1) None obtain pat where b: "longest ?c = Some (pat, rt)" by (auto simp: mux_match_def)
  have "p \<noteq> ''/_docknap''" using None by (auto simp: routes_def)
  then have "(''/_docknap/'', R_admin) \<in> set ?c" using assms(2) by (simp add: routes_def suffix_def)
  with longest_SomeD [OF b] have "length ''/_docknap/'' \<le> length pat" and c: "(pat, rt) \<in> set ?c" by force+
  then have "10 \<le> length pat" by simp
  moreover have "(pat, rt) \<in> set routes" "prefix pat p" "last pat = CHR ''/''"
    using c by (auto simp: suffix_def)
  ultimately show ?thesis
    using assms(3) by (auto simp: routes_def open_routes_def open_path_def)
qed


lemma fold_longest_Some:
  "fold (\<lambda>p best. case best of None \<Rightarrow> Some p | Some b \<Rightarrow> if length (fst b) < length (fst p) then Some p else best) ps (Some b) \<noteq> None"
  by (induction ps arbitrary: b) auto

lemma mux_match_below:
  assumes "p = ''/_docknap'' \<or> prefix ''/_docknap/'' p"
  shows "mux_match p \<noteq> None"
proof (cases "map_of routes p")
  case None
  let ?c = "filter (\<lambda>(pat, _). suffix ''/'' pat \<and> prefix pat p) routes"
  have "p \<noteq> ''/_docknap''" using None by (auto simp: routes_def)
  then have "(''/_docknap/'', R_admin) \<in> set ?c" using assms by (simp add: routes_def suffix_def)
  then obtain x xs where "?c = x # xs" by (cases ?c) auto
  then have "longest ?c \<noteq> None" using fold_longest_Some by (simp add: longest_def)
  then show ?thesis using None by (simp add: mux_match_def)
qed (simp add: mux_match_def)

text \<open>A step that answers a request and, at most, keeps the books of the check: nothing else differs,
  and the world has been asked for the time once at most.\<close>

definition merely_answered :: "'w env \<Rightarrow> 'w docknap \<Rightarrow> 'w docknap \<Rightarrow> bool" where
  "merely_answered e s s' \<longleftrightarrow>
     s' = s\<lparr>world := world s', sessions := sessions s', reg := reg s', logs := logs s', resp := resp s'\<rparr> \<and>
     world s' \<in> {world s, snd (env_now e (world s))}"

lemma sessions_valid_fails:
  assumes "\<not> result (sessions_valid e v) s"
  obtains w x where "exec (sessions_valid e v) s = s\<lparr>world := w, sessions := x\<rparr>" "w \<in> {world s, snd (env_now e (world s))}"
proof (cases "v = [] \<or> map_of (tokens (sessions s)) v = None")
  case True
  then have "exec (sessions_valid e v) s = s" by (simp add: sessions_valid_def)
  then show ?thesis using that [of "sessions s" "world s"] by simp
next
  case False
  let ?now = "fst (env_now e (world s))"
  from False obtain y where y: "v \<noteq> []" "map_of (tokens (sessions s)) v = Some y" by auto
  then have "\<not> fst (session_valid ?now ?now v (sessions s))" using assms by (auto simp: sessions_valid_def)
  then have "exec (sessions_valid e v) s =
      s\<lparr>world := snd (env_now e (world s)), sessions := snd (session_valid ?now ?now v (sessions s))\<rparr>"
    using y by (simp add: sessions_valid_def)
  then show ?thesis using that by blast
qed

lemma check_merely_answers:
  assumes "\<not> result (checkRequestAuth e r) s"
  obtains w v where "exec (checkRequestAuth e r) s = s\<lparr>world := w, sessions := v\<rparr>" "w \<in> {world s, snd (env_now e (world s))}"
proof (cases "\<exists>v. checkRequestAuth e r = sessions_valid e v")
  case True
  then show ?thesis using assms sessions_valid_fails [of e _ s] that by metis
next
  case False
  then have "exec (checkRequestAuth e r) s = s"
    by (auto simp: checkRequestAuth_def split: option.splits if_splits)
  then show ?thesis using that [of "sessions s" "world s"] by simp
qed

lemma requireAuth_merely_answers:
  assumes "authEnabled s" "\<not> result (checkRequestAuth e r) s" "\<not> rw_wrote (resp s)"
  shows "merely_answered e s (exec (requireAuth e h r) s) \<and> rw_status (resp (exec (requireAuth e h r) s)) = 401"
proof -
  obtain w v where chk: "exec (checkRequestAuth e r) s = s\<lparr>world := w, sessions := v\<rparr>" "w \<in> {world s, snd (env_now e (world s))}"
    by (rule check_merely_answers [OF assms(2)])
  have "\<not> auth_passes e r s" using assms(1,2) by (simp add: auth_passes_def)
  then show ?thesis
    using assms(1,3) chk
    by (simp add: exec_requireAuth auth_checked_def failAuth_def serveLogin_def exec_renderLogin_Raw merely_answered_def)
qed

lemma guarded_route_answers:
  assumes "rt \<notin> set open_routes" "authEnabled s" "\<not> result (checkRequestAuth e r) s" "\<not> rw_wrote (resp s)"
  shows "merely_answered e s (exec (route_handler e sched pprof rt r) s) \<and>
    rw_status (resp (exec (route_handler e sched pprof rt r) s)) = 401 \<and>
    result (route_handler e sched pprof rt r) s = None"
  using assms(1) requireAuth_merely_answers [OF assms(2-4)]
  by (cases rt) (auto simp: open_routes_def no_panic_def)




end
