(* ===== verification/Spec2Isabelle.thy ===== *)
theory Spec2Isabelle
  imports Prelude Subdomain Config Sessions Ratelimit Recorder Cidr Metrics Webhooks Logger Logs Registry
    Timers Idlestop Docker Templates Auth Handlers Log_Stream Proxy Watch Startlock Startcount Server
begin

text \<open>
  A verification library for docknap, a reverse proxy in Go that starts Docker containers when a
  request for them arrives and stops them again when they have been idle for a while.

  \<^bold>\<open>The program.\<close> A request's host name gives a service (\<open>subdomain.go\<close>), whose configuration comes
  from container labels (\<open>config.go\<close>). \<open>proxy.go\<close> forwards the request when the container's port
  answers, and postpones the container's idle stop; otherwise it starts the container and serves
  a loading page, which polls \<open>handleWait\<close> (\<open>handlers_actions.go\<close>). \<open>docker.go\<close> finds, probes and
  starts containers and follows the daemon's event stream; \<open>timers.go\<close> stops idle ones. An admin
  interface (\<open>handlers_*.go\<close>, \<open>logs.go\<close>) behind \<open>auth.go\<close>, \<open>sessions.go\<close> and \<open>ratelimit.go\<close> shows
  and controls the services; \<open>metrics.go\<close>, \<open>webhooks.go\<close> and \<open>logger.go\<close> report. \<open>registry.go\<close>
  holds the state that all of them share, \<open>main.go\<close> puts them together.

  \<^bold>\<open>The theories.\<close>
  \<^item> \<open>Prelude\<close>: Go maps as association lists, programs in the state monad with \<open>exec\<close> and \<open>result\<close>,
    and the rules of \<open>preserves\<close>, by which an invariant goes through a program along its syntax.
  \<^item> \<open>Go_Strings\<close>, \<open>Go_Time\<close>, \<open>Go_Date\<close>, \<open>Go_Encoding\<close>, \<open>Go_Net\<close>, \<open>Http\<close>: what the program uses of
    Go's standard library - strings and numbers as text, durations of 64 bits, the double type as
    rationals with rounding, RFC 3339, Base64, SHA-256 on words of 32 bits, addresses, requests and
    response writers.
  \<^item> Components without shared state: \<open>Subdomain\<close>, \<open>Config\<close>, \<open>Sessions\<close>, \<open>Ratelimit\<close>, \<open>Recorder\<close>
    (\<open>statusRecorder\<close>, \<open>recoverMiddleware\<close>), \<open>Cidr\<close>, \<open>Metrics\<close>, \<open>Webhooks\<close>, \<open>Logger\<close>, \<open>Logs\<close> (tails,
    subscribers and viewers of live logs).
  \<^item> \<open>Registry\<close>: the struct \<open>Docknap\<close> as the record \<open>docknap\<close>, which also holds what Go's runtime
    keeps for it (pending timers, waiting goroutines, the log, the response being written). The
    record \<open>env\<close> has one function per call to the daemon, the network, the clock and the random
    source, on a world that the theorems leave open: a theorem holds for every behaviour of them.
  \<^item> Operations on that state, one program in the state monad each: \<open>Timers\<close>, \<open>Docker\<close>, \<open>Templates\<close>,
    \<open>Auth\<close>, \<open>Handlers\<close>, \<open>Log_Stream\<close> (\<open>handleLogs\<close>), \<open>Proxy\<close>.
  \<^item> Concurrency: \<open>Watch\<close> (the goroutines that keep the program in step with the daemon), \<open>Startlock\<close>
    with \<open>Startcount\<close> (concurrent starts and probes and their mutexes) and \<open>Idlestop\<close> (the functions of
    fired idle timers beside requests under way) are step relations whose steps are the turns of
    the goroutines.
  \<^item> \<open>Server\<close>: settings, start, routes and shutdown of \<open>main.go\<close>, and the program as a whole as a
    transition system, with the invariant of its reachable states.

  \<^bold>\<open>Interfaces.\<close> Where components share a contract it is a locale, proved against once and interpreted
  on the model: \<open>event_log\<close> (bounded histories), \<open>response_writer\<close> (the status is decided once),
  \<open>auth_gate\<close> and \<open>double_gate\<close> (a refused handler has no effect), \<open>fanout\<close> (bounded queues of
  subscribers), and \<open>frame_invariant\<close> with its extension \<open>service_invariant\<close>: a predicate that the
  operations on idle timers and configurations keep is kept by every handler, timer and
  synchronisation. The invariants of the timers and of the configurations, the equations for the
  settings and for \<open>eventsOK\<close>, and the invariant of the log hub are interpretations of it.

  \<^bold>\<open>What is shown.\<close> Functional behaviour on every branch of starting, stopping, probing, proxying,
  synchronising and logging in, and of a live log from the daemon's frames to the viewer's response;
  the normal form of accepted configurations; refinement of abstract contracts (rate limiter, webhook queue,
  start lock against \<open>startContainer\<close>); round trips (labels, series keys, boot messages, frames of
  the log stream); bounds (histories, queues, sessions); safety of the routes (an unauthenticated
  request changes nothing), of redirects and of the start locks; invariants of all reachable
  states; that any number of concurrent requests start a container once and without deadlock, and
  that a container is up for its idle timeout after a request (\<open>Startcount\<close>, \<open>Idlestop\<close>); that tails,
  pollers and the watcher end. Several theorems state a behaviour that the
  code does not mean to have, such as \<open>sync_breaks_exclusion\<close>, \<open>late_request_is_stopped\<close>, \<open>stale_readiness\<close>,
  \<open>leaving_viewer_silences_service\<close>, \<open>sync_arms_nameless_timer\<close>, \<open>sync_keeps_stale_route\<close> and
  \<open>stale_boot_start_times_out\<close>.

  \<^bold>\<open>Bounds and loops.\<close> Loops over data are structural recursion or have a measure (the length of what is
  left to read); there is no fuel. Loops without end - watcher, pollers, waiting goroutines, log
  tails and viewers - are single turns, composed by the step relations; \<open>tail_turns\<close> counts turns,
  and \<open>n div 8 + 1\<close> of them are enough for a stream of \<open>n\<close> bytes, as each takes a header of eight.
  Capacities are those of the code (64 lines per viewer, 256 webhooks, 100 events).

  \<^bold>\<open>Granularity.\<close> A handler, a timer function or a synchronisation runs from its start to its end.
  For starts, whose critical section spans several calls of the daemon, and for the functions of
  the idle timers \<open>Startlock\<close> and \<open>Idlestop\<close> have the finer steps; \<open>lone_call_refines\<close>,
  \<open>lone_request_refines\<close> with \<open>proxy_service_turns\<close> below, and \<open>lone_firing_refines\<close> relate the two views.
  \<open>stop_after_probe\<close> (\<open>Proxy\<close>) lets a stop run in the middle of a request. The goroutines of wake all and stop all run
  in any order that the parameter \<open>sched\<close> gives. Iteration over a Go map follows the order of the
  association list; theorems quantify over the lists, hence over the orders. The choices of Go's
  \<open>select\<close> are arguments or steps (\<open>wh_shutdown\<close>, \<open>watch_step\<close>).

  \<^bold>\<open>Not modelled.\<close> The markup that \<open>html/template\<close> produces (a page is its name and its data), the
  browser scripts, the profiling pages, what \<open>httputil.ReverseProxy\<close> copies (an argument gives its
  calls on the response writer), the Docker client and the daemon (arguments), sockets, what the
  HTTP server does with its limits, the delivery of signals to \<open>main\<close> (an argument says which came),
  and the stack trace in the log of a panic. Request paths need no percent escape in the routes, and the local time zone is UTC.
\<close>

subsection \<open>The requests of the two views\<close>

text \<open>What \<open>handleProxy\<close> does for a service, with the turns of \<open>Startlock\<close> in it: the turns of a lone
  request (\<open>lone_request_refines\<close>) are the part from the lock to the start, and the outcome of these
  turns decides between the loading page and the forwarding.\<close>

definition after_turns :: "'w env \<Rightarrow> request \<Rightarrow> string \<Rightarrow> config \<Rightarrow> start_pc \<Rightarrow> ('w, panic option) prog" where
  "after_turns e r sub cfg pc =
     (case pc of
        SDone err \<Rightarrow> do {
          note_start_error sub cfg err;
          modify (\<lambda>s. s\<lparr>recorder := (recorder s)\<lparr>rec_status := 503\<rparr>\<rparr>);
          serveLoading Recorded r cfg;
          ret None
        }
      | _ \<Rightarrow> proxy_up e r cfg)"

theorem proxy_service_turns:
  "run_state (proxy_service e r sub cfg) s =
    run_state (do {
      start \<leftarrow> time_Now e;
      modify (\<lambda>s. s\<lparr>recorder := new_recorder\<rparr>);
      pc \<leftarrow> probe_or_start e cfg;
      p \<leftarrow> after_turns e r sub cfg pc;
      proxy_count e sub start;
      ret p
    }) s"
  by (simp add: proxy_service_def probe_or_start_def after_turns_def proxy_loading_def run_state_pair)

end
